(* ===== verification/C_Prelude.thy ===== *)
theory C_Prelude
  imports Main "HOL-Library.Word" "HOL-Library.Monad_Syntax"
begin

text \<open>
  The vocabulary the component theories share: the C integer types as words, the partial
  operations of C (shifts, array reads and writes) as functions into \<open>option\<close>, and the
  lemmas and simplification rules about them.

  A result \<open>None\<close> always means that the C program has undefined behaviour at that point: an
  access outside an array, a null pointer, a shift by a count that is negative or not less than
  the width, a failed \<open>assert\<close>. Error codes that the program returns itself are values (\<open>int\<close>).
  Left shifts of negative values follow GNU C (the code uses \<open>__builtin_add_overflow\<close> and binary
  literals, so it is GNU C already): the bits are shifted, and only the count can be undefined.
\<close>

unbundle bit_operations_syntax

section \<open>Machine integers\<close>

type_synonym u8 = "8 word"
type_synonym u16 = "16 word"
type_synonym u32 = "32 word"
type_synonym u64 = "64 word"

named_theorems c_defs \<open>definitions of C operators that are unfolded together\<close>
named_theorems wf_intros \<open>preservation of the well-formedness invariants\<close>
named_theorems core_simps \<open>evaluation of the accessors in a well-formed state\<close>

text \<open>The shift operators on a 32-bit operand; the count is a C \<open>int\<close>.\<close>

definition shl32 :: "u32 \<Rightarrow> int \<Rightarrow> u32 option" where
  "shl32 x n = (if 0 \<le> n \<and> n < 32 then Some (push_bit (nat n) x) else None)"

definition shr32 :: "u32 \<Rightarrow> int \<Rightarrow> u32 option" where
  "shr32 x n = (if 0 \<le> n \<and> n < 32 then Some (drop_bit (nat n) x) else None)"

lemma shl32_Some [simp]: "0 \<le> n \<Longrightarrow> n < 32 \<Longrightarrow> shl32 x n = Some (push_bit (nat n) x)"
  by (simp add: shl32_def)

lemma shr32_Some [simp]: "0 \<le> n \<Longrightarrow> n < 32 \<Longrightarrow> shr32 x n = Some (drop_bit (nat n) x)"
  by (simp add: shr32_def)

lemma shl32_None [simp]: "n < 0 \<or> 32 \<le> n \<Longrightarrow> shl32 x n = None"
  by (auto simp: shl32_def)

lemma shr32_None [simp]: "n < 0 \<or> 32 \<le> n \<Longrightarrow> shr32 x n = None"
  by (auto simp: shr32_def)

section \<open>Arrays\<close>

text \<open>An array read or write is undefined outside the array.\<close>

definition aget :: "'a list \<Rightarrow> nat \<Rightarrow> 'a option" where
  "aget xs i = (if i < length xs then Some (xs ! i) else None)"

definition aset :: "'a list \<Rightarrow> nat \<Rightarrow> 'a \<Rightarrow> 'a list option" where
  "aset xs i v = (if i < length xs then Some (xs[i := v]) else None)"

lemma aget_Some [simp]: "i < length xs \<Longrightarrow> aget xs i = Some (xs ! i)"
  by (simp add: aget_def)

lemma aset_Some [simp]: "i < length xs \<Longrightarrow> aset xs i v = Some (xs[i := v])"
  by (simp add: aset_def)

lemma aget_None_iff [simp]: "aget xs i = None \<longleftrightarrow> length xs \<le> i"
  by (auto simp: aget_def)

lemma aset_None_iff [simp]: "aset xs i v = None \<longleftrightarrow> length xs \<le> i"
  by (auto simp: aset_def)

lemma aset_length: "aset xs i v = Some ys \<Longrightarrow> length ys = length xs"
  by (auto simp: aset_def split: if_splits)

section \<open>The option monad\<close>

text \<open>Inverting a sequence of steps that did return.\<close>

lemma bind_SomeE:
  assumes "Option.bind m f = Some r"
  obtains x where "m = Some x" and "f x = Some r"
  using assms by (auto simp: bind_eq_Some_conv)

text \<open>A statement with a result that is ignored, and a guard (\<open>assert\<close>).\<close>

definition c_assert :: "bool \<Rightarrow> unit option" where
  "c_assert b = (if b then Some () else None)"

lemma c_assert_simps [simp]:
  "c_assert True = Some ()" "c_assert False = None"
  by (simp_all add: c_assert_def)

section \<open>Words and their bytes\<close>

lemma and_0xFF: "x AND 0xFF = take_bit 8 (x :: 'a::len word)"
  by (simp add: take_bit_eq_mask mask_eq_exp_minus_1)

lemma unat_ucast_le [simp]:
  "LENGTH('a::len) \<le> LENGTH('b::len) \<Longrightarrow> unat (ucast (x :: 'a word) :: 'b word) = unat x"
  by (simp add: unsigned_ucast_eq take_bit_nat_eq_self order_less_le_trans [OF unsigned_less]
      power_increasing)

lemma bit_u8_ge [simp]: "8 \<le> n \<Longrightarrow> \<not> bit (b :: u8) n"
  by (rule impossible_bit) simp

lemma and_bit_mask_less:
  "unat (x AND (mask n) :: 'a::len word) < 2 ^ n"
proof -
  have "unat (x AND mask n) = take_bit n (unat x)"
    by (simp flip: take_bit_eq_mask add: unsigned_take_bit_eq)
  then show ?thesis by simp
qed

lemma word_and_le_nat: "unat (x AND y :: 'a::len word) \<le> unat y"
  by (metis word_and_le1 word_le_nat_alt)

text \<open>Bounds on a count, moved from its integer to its natural value.\<close>

lemma uint_conv:
  "0 < uint x \<longleftrightarrow> 0 < unat x"
  "uint x < numeral k \<longleftrightarrow> unat x < numeral k"
  "numeral k \<le> uint x \<longleftrightarrow> numeral k \<le> unat x"
  "uint x \<le> numeral k \<longleftrightarrow> unat x \<le> numeral k"
  "nat (numeral k - uint x) = numeral k - unat x"
  using of_nat_less_iff [of "unat x" "numeral k", where 'a = int]
    of_nat_le_iff [of "numeral k" "unat x", where 'a = int]
    of_nat_le_iff [of "unat x" "numeral k", where 'a = int]
    of_nat_less_iff [of 0 "unat x", where 'a = int]
  by (auto simp: nat_diff_distrib' simp del: of_nat_less_iff of_nat_le_iff)

text \<open>A bit position of a value of \<open>b\<close> bytes is a byte number and a position in the byte.\<close>

lemma byte_positionE:
  assumes "n < 8 * b"
  obtains k m :: nat where "n = 8 * k + m" and "m < 8" and "k < b"
proof -
  have "n = 8 * (n div 8) + n mod 8" "n mod 8 < 8" "n div 8 < b" using assms by auto
  then show ?thesis by (rule that)
qed

lemma less_4E:
  assumes "(k::nat) < 4"
  obtains "k = 0" | "k = 1" | "k = 2" | "k = 3"
  using assms by linarith

lemma less_2E:
  assumes "(k::nat) < 2"
  obtains "k = 0" | "k = 1"
  using assms by linarith

lemma less_16_cases:
  "(k::nat) < 16 \<longleftrightarrow> k = 0 \<or> k = 1 \<or> k = 2 \<or> k = 3 \<or> k = 4 \<or> k = 5 \<or> k = 6 \<or> k = 7 \<or>
     k = 8 \<or> k = 9 \<or> k = 10 \<or> k = 11 \<or> k = 12 \<or> k = 13 \<or> k = 14 \<or> k = 15"
  by (auto simp: numeral_eq_Suc less_Suc_eq)

end
