(* ===== verification/Sim_Util.thy ===== *)
theory Sim_Util
  imports C_Prelude
begin

text \<open>
  \<^verbatim>\<open>util.h\<close> and \<^verbatim>\<open>util.c\<close>: bit extraction, byte reversal, the
  arithmetic shift and the rotation, and what each computes on the counts for which C defines it.
\<close>

section \<open>Macros of util.h\<close>

definition get_bit :: "u32 \<Rightarrow> int \<Rightarrow> u32 option" where
  "get_bit x i = do { y \<leftarrow> shr32 x i; Some (y AND 1) }"

definition reverse_2 :: "u16 \<Rightarrow> u16" where
  "reverse_2 x = push_bit 8 (x AND 0xFF) OR (drop_bit 8 x AND 0xFF)"

definition reverse_4 :: "u32 \<Rightarrow> u32" where
  "reverse_4 x =
     push_bit 24 (x AND 0xFF) OR push_bit 16 (drop_bit 8 x AND 0xFF) OR
     push_bit 8 (drop_bit 16 x AND 0xFF) OR (drop_bit 24 x AND 0xFF)"

section \<open>Functions of util.c\<close>

definition asr :: "u32 \<Rightarrow> u8 \<Rightarrow> u32 option" where
  "asr val shift = do {
     lo \<leftarrow> shr32 val (uint shift);
     b \<leftarrow> get_bit val 31;
     hi \<leftarrow> (if b \<noteq> 0 then shl32 (NOT 0) (32 - uint shift) else Some 0);
     Some (lo OR hi)
   }"

definition ror :: "u32 \<Rightarrow> u8 \<Rightarrow> u32 option" where
  "ror val rotation = do {
     lo \<leftarrow> shr32 val (uint rotation);
     hi \<leftarrow> shl32 val (32 - uint rotation);
     Some (lo OR hi)
   }"

section \<open>What they compute\<close>

lemma get_bit_eq [simp]:
  "0 \<le> i \<Longrightarrow> i < 32 \<Longrightarrow> get_bit x i = Some (of_bool (bit x (nat i)))"
  by (simp add: get_bit_def and_one_eq odd_iff_mod_2_eq_one bit_iff_odd_drop_bit
      flip: mod_2_eq_odd)

lemma get_bit_None [simp]: "i < 0 \<or> 32 \<le> i \<Longrightarrow> get_bit x i = None"
  by (auto simp: get_bit_def)

lemma bit_reverse_2:
  "m < 8 \<Longrightarrow> k < 2 \<Longrightarrow> bit (reverse_2 x) (8 * k + m) = bit x (8 * (1 - k) + m)"
  unfolding reverse_2_def and_0xFF by (elim less_2E) (simp_all add: bit_simps)

lemma bit_reverse_4:
  "m < 8 \<Longrightarrow> k < 4 \<Longrightarrow> bit (reverse_4 x) (8 * k + m) = bit x (8 * (3 - k) + m)"
  unfolding reverse_4_def and_0xFF by (elim less_4E) (simp_all add: bit_simps)

lemma reverse_2_reverse_2 [simp]: "reverse_2 (reverse_2 x) = x"
proof (rule bit_word_eqI)
  fix n :: nat assume "n < LENGTH(16)"
  then have "n < 8 * 2" by simp
  then show "bit (reverse_2 (reverse_2 x)) n = bit x n"
    by (elim byte_positionE) (simp add: bit_reverse_2)
qed

lemma reverse_4_reverse_4 [simp]: "reverse_4 (reverse_4 x) = x"
proof (rule bit_word_eqI)
  fix n :: nat assume "n < LENGTH(32)"
  then have "n < 8 * 4" by simp
  then show "bit (reverse_4 (reverse_4 x)) n = bit x n"
    by (elim byte_positionE) (simp add: bit_reverse_4)
qed

text \<open>The arithmetic shift is the signed shift; a zero shift of a negative value is undefined.\<close>

lemma asr_eq: "0 < unat s \<Longrightarrow> unat s < 32 \<Longrightarrow> asr x s = Some (signed_drop_bit (unat s) x)"
proof -
  assume s: "0 < unat s" "unat s < 32"
  have hi: "drop_bit (unat s) x OR push_bit (32 - unat s) (NOT 0) = signed_drop_bit (unat s) x"
    if "bit x 31"
    using s that by (intro bit_word_eqI) (auto simp: bit_simps intro: bit_imp_le_length)
  have lo: "drop_bit (unat s) x = signed_drop_bit (unat s) x" if "\<not> bit x 31"
    using s that by (intro bit_word_eqI) (auto simp: bit_simps dest: bit_imp_le_length)
  show ?thesis
    using s hi lo by (auto simp: asr_def uint_conv less_imp_le)
qed

lemma asr_0: "asr x 0 = (if bit x 31 then None else Some x)"
  by (simp add: asr_def)

lemma asr_None: "32 \<le> unat s \<Longrightarrow> asr x s = None"
  by (simp add: asr_def uint_conv)

text \<open>Two shifts that make a rotation.\<close>

lemma shifts_rotr:
  assumes "0 < k" "k < 32"
  shows "drop_bit k x OR push_bit (32 - k) x = word_rotr k (x :: u32)"
proof (rule bit_word_eqI)
  fix n assume n: "n < LENGTH(32)"
  have "(n + k) mod 32 = (if n + k < 32 then n + k else n - (32 - k))"
    using assms n by (simp add: mod_if [of "n + k" 32])
  then show "bit (drop_bit k x OR push_bit (32 - k) x) n = bit (word_rotr k x) n"
    using assms n by (auto simp: bit_simps add.commute dest: bit_imp_le_length)
qed

lemma ror_eq: "0 < unat s \<Longrightarrow> unat s < 32 \<Longrightarrow> ror x s = Some (word_rotr (unat s) x)"
  by (simp add: ror_def uint_conv less_imp_le shifts_rotr)

lemma ror_None: "unat s = 0 \<or> 32 \<le> unat s \<Longrightarrow> ror x s = None"
  by (auto simp: ror_def uint_conv unat_eq_0)

end
