(* ===== verification/Sim_Memory.thy ===== *)
theory Sim_Memory
  imports Sim_Util
begin

text \<open>
  \<^verbatim>\<open>memory.c\<close>: the simulated memory, a block of bytes with its size, read and
  written by bytes, half-words and words in a chosen byte order. The functions return 0 or -1 as the
  code does; an output parameter is an argument (its value before the call) and a component of the
  result (its value after the call).
\<close>

section \<open>The memory and its operations\<close>

text \<open>\<open>mem_value\<close> is \<open>None\<close> for a null pointer; \<open>taille\<close> is a 64-bit \<open>size_t\<close>.\<close>

record memory_data =
  mem_value :: "u8 list option"
  taille :: u64

text \<open>
  \<open>got\<close> tells whether the first \<open>malloc\<close> succeeds; \<open>block\<close> is what the second one
  returns, the bytes of the block being whatever they happen to be.
\<close>

definition memory_create :: "bool \<Rightarrow> u8 list option \<Rightarrow> u64 \<Rightarrow> memory_data option" where
  "memory_create got block sz =
     (if got then Some \<lparr>mem_value = block, taille = sz\<rparr> else None)"

definition memory_get_size :: "memory_data \<Rightarrow> u64" where
  "memory_get_size m = taille m"

text \<open>The array accesses \<open>mem->value[i]\<close> with a 32-bit index.\<close>

definition mem_at :: "memory_data \<Rightarrow> u32 \<Rightarrow> u8 option" where
  "mem_at m i = do { bs \<leftarrow> mem_value m; aget bs (unat i) }"

definition mem_put :: "memory_data \<Rightarrow> u32 \<Rightarrow> u8 \<Rightarrow> memory_data option" where
  "mem_put m i b = do { bs \<leftarrow> mem_value m; bs' \<leftarrow> aset bs (unat i) b; Some (m\<lparr>mem_value := Some bs'\<rparr>) }"

definition memory_read_byte :: "memory_data \<Rightarrow> u32 \<Rightarrow> u8 \<Rightarrow> (int \<times> u8) option" where
  "memory_read_byte m address v =
     (if memory_get_size m < ucast address then Some (-1, v)
      else do { b \<leftarrow> mem_at m address; Some (0, b) })"

text \<open>The loop \<open>for (i = 0; i < n; i++) *value = *value << 8 | mem->value[address + i]\<close>.\<close>

fun read_loop :: "memory_data \<Rightarrow> u32 \<Rightarrow> nat \<Rightarrow> nat \<Rightarrow> 'a::len word \<Rightarrow> 'a word option" where
  "read_loop m address i 0 v = Some v"
| "read_loop m address i (Suc left) v = do {
     b \<leftarrow> mem_at m (address + of_nat i);
     read_loop m address (Suc i) left (push_bit 8 v OR ucast b)
   }"

definition memory_read_half :: "memory_data \<Rightarrow> u32 \<Rightarrow> u16 \<Rightarrow> u8 \<Rightarrow> (int \<times> u16) option" where
  "memory_read_half m address v be =
     (if memory_get_size m < ucast (address + 1) then Some (-1, v)
      else do {
        v' \<leftarrow> read_loop m address 0 2 v;
        Some (0, if be = 0 then reverse_2 v' else v')
      })"

definition memory_read_word :: "memory_data \<Rightarrow> u32 \<Rightarrow> u32 \<Rightarrow> u8 \<Rightarrow> (int \<times> u32) option" where
  "memory_read_word m address v be =
     (if memory_get_size m < ucast (address + 3) then Some (-1, v)
      else do {
        v' \<leftarrow> read_loop m address 0 4 v;
        Some (0, if be = 0 then reverse_4 v' else v')
      })"

definition memory_write_byte :: "memory_data \<Rightarrow> u32 \<Rightarrow> u8 \<Rightarrow> (int \<times> memory_data) option" where
  "memory_write_byte m address v =
     (if memory_get_size m < ucast address then Some (-1, m)
      else do { m \<leftarrow> mem_put m address v; Some (0, m) })"

definition memory_write_half ::
  "memory_data \<Rightarrow> u32 \<Rightarrow> u16 \<Rightarrow> u8 \<Rightarrow> (int \<times> memory_data) option" where
  "memory_write_half m address v be =
     (if memory_get_size m < ucast (address + 1) then Some (-1, m)
      else if be \<noteq> 0 then do {
        m \<leftarrow> mem_put m address (ucast (drop_bit 8 v));
        m \<leftarrow> mem_put m (address + 1) (ucast v);
        Some (0, m)
      } else do {
        m \<leftarrow> mem_put m address (ucast v);
        m \<leftarrow> mem_put m (address + 1) (ucast (drop_bit 8 v));
        Some (0, m)
      })"

definition memory_write_word ::
  "memory_data \<Rightarrow> u32 \<Rightarrow> u32 \<Rightarrow> u8 \<Rightarrow> (int \<times> memory_data) option" where
  "memory_write_word m address v be =
     (if memory_get_size m < ucast (address + 3) then Some (-1, m)
      else if be \<noteq> 0 then do {
        m \<leftarrow> mem_put m address (ucast (drop_bit 24 v));
        m \<leftarrow> mem_put m (address + 1) (ucast (drop_bit 16 v));
        m \<leftarrow> mem_put m (address + 2) (ucast (drop_bit 8 v));
        m \<leftarrow> mem_put m (address + 3) (ucast v);
        Some (0, m)
      } else do {
        m \<leftarrow> mem_put m address (ucast v);
        m \<leftarrow> mem_put m (address + 1) (ucast (drop_bit 8 v));
        m \<leftarrow> mem_put m (address + 2) (ucast (drop_bit 16 v));
        m \<leftarrow> mem_put m (address + 3) (ucast (drop_bit 24 v));
        Some (0, m)
      })"

section \<open>Invariant and abstraction\<close>

text \<open>
  A well-formed memory has its block, as long as \<open>taille\<close> says; addresses are 32-bit, and the
  sizes of interest fit them. \<open>in_mem m a n\<close> says that the \<open>n\<close> bytes from \<open>a\<close> on are in
  the block; \<open>byte_at\<close> is the abstract view, the byte at an address.
\<close>

definition mem_wf :: "memory_data \<Rightarrow> bool" where
  "mem_wf m = (case mem_value m of None \<Rightarrow> False
     | Some bs \<Rightarrow> length bs = unat (taille m) \<and> length bs < 2 ^ 32)"

definition in_mem :: "memory_data \<Rightarrow> u32 \<Rightarrow> nat \<Rightarrow> bool" where
  "in_mem m a n \<longleftrightarrow> unat a + n \<le> unat (taille m)"

definition byte_at :: "memory_data \<Rightarrow> u32 \<Rightarrow> u8" where
  "byte_at m a = (case mem_value m of None \<Rightarrow> 0 | Some bs \<Rightarrow> if unat a < length bs then bs ! unat a else 0)"

lemma mem_wfE:
  assumes "mem_wf m"
  obtains bs where "mem_value m = Some bs" "length bs = unat (taille m)" "unat (taille m) < 2 ^ 32"
  using assms by (auto simp: mem_wf_def split: option.splits)

lemma mem_at_eq: "mem_wf m \<Longrightarrow>
  mem_at m a = (if unat a < unat (taille m) then Some (byte_at m a) else None)"
  by (erule mem_wfE) (simp add: mem_at_def aget_def byte_at_def)

definition mem_upd :: "memory_data \<Rightarrow> u32 \<Rightarrow> u8 \<Rightarrow> memory_data" where
  "mem_upd m a b = m\<lparr>mem_value := map_option (\<lambda>bs. bs[unat a := b]) (mem_value m)\<rparr>"

lemma taille_mem_upd [simp]: "taille (mem_upd m a b) = taille m"
  by (simp add: mem_upd_def)

lemma mem_wf_mem_upd [simp]: "mem_wf (mem_upd m a b) = mem_wf m"
  by (simp add: mem_upd_def mem_wf_def split: option.splits)

lemma byte_at_mem_upd [simp]:
  "mem_wf m \<Longrightarrow> unat a < unat (taille m) \<Longrightarrow>
   byte_at (mem_upd m a b) x = (if x = a then b else byte_at m x)"
  by (erule mem_wfE) (auto simp: mem_upd_def byte_at_def nth_list_update word_unat_eq_iff)

lemma mem_put_eq:
  "mem_wf m \<Longrightarrow> mem_put m a b = (if unat a < unat (taille m) then Some (mem_upd m a b) else None)"
  by (erule mem_wfE) (simp add: mem_put_def aset_def mem_upd_def)

lemma in_mem_upd [simp]: "in_mem (mem_upd m a b) x n = in_mem m x n"
  by (simp add: in_mem_def)

text \<open>Addresses inside the memory do not wrap around.\<close>

lemma in_mem_offset:
  assumes "mem_wf m" "in_mem m a n" "i < n"
  shows "unat (a + of_nat i) = unat a + i"
proof -
  have "unat a + i < 2 ^ 32" using assms by (auto elim!: mem_wfE simp: in_mem_def)
  then show ?thesis by (simp add: unat_word_ariths unat_of_nat)
qed

lemma in_mem_at:
  "mem_wf m \<Longrightarrow> in_mem m a n \<Longrightarrow> i < n \<Longrightarrow> unat (a + of_nat i) < unat (taille m)"
  by (simp add: in_mem_offset) (simp add: in_mem_def)

lemma in_mem_2:
  assumes "mem_wf m" "in_mem m a 2"
  shows "unat a < unat (taille m)" "unat (a + 1) < unat (taille m)" "unat (a + 1) = unat a + 1"
  using in_mem_at [OF assms, of 0] in_mem_at [OF assms, of 1] in_mem_offset [OF assms, of 1]
  by simp_all

lemma in_mem_4:
  assumes "mem_wf m" "in_mem m a 4"
  shows "unat a < unat (taille m)" "unat (a + 1) < unat (taille m)"
    "unat (a + 2) < unat (taille m)" "unat (a + 3) < unat (taille m)"
    "unat (a + 1) = unat a + 1" "unat (a + 2) = unat a + 2" "unat (a + 3) = unat a + 3"
  using in_mem_at [OF assms, of 0] in_mem_at [OF assms, of 1] in_mem_at [OF assms, of 2]
    in_mem_at [OF assms, of 3] in_mem_offset [OF assms, of 1] in_mem_offset [OF assms, of 2]
    in_mem_offset [OF assms, of 3]
  by simp_all

lemma size_check:
  "\<not> memory_get_size m < ucast (x :: u32) \<longleftrightarrow> unat x \<le> unat (taille m)"
  by (simp add: memory_get_size_def word_less_nat_alt not_less)

section \<open>Reads and writes inside the memory\<close>

text \<open>The bytes of a value, most significant first, and the value of a list of bytes.\<close>

definition half_of :: "u8 \<Rightarrow> u8 \<Rightarrow> u16" where
  "half_of b1 b0 = push_bit 8 (ucast b1) OR ucast b0"

definition word_of :: "u8 \<Rightarrow> u8 \<Rightarrow> u8 \<Rightarrow> u8 \<Rightarrow> u32" where
  "word_of b3 b2 b1 b0 =
     push_bit 24 (ucast b3) OR push_bit 16 (ucast b2) OR push_bit 8 (ucast b1) OR ucast b0"

lemma bit_half_of:
  "m < 8 \<Longrightarrow> k < 2 \<Longrightarrow> bit (half_of b1 b0) (8 * k + m) = bit (if k = 0 then b0 else b1) m"
  unfolding half_of_def by (elim less_2E) (auto simp: bit_simps dest: bit_imp_le_length)

lemma bit_word_of:
  "m < 8 \<Longrightarrow> k < 4 \<Longrightarrow> bit (word_of b3 b2 b1 b0) (8 * k + m) =
     bit (if k = 0 then b0 else if k = 1 then b1 else if k = 2 then b2 else b3) m"
  unfolding word_of_def by (elim less_4E) (auto simp: bit_simps dest: bit_imp_le_length)

lemma half_eqI:
  assumes "\<And>k m. m < 8 \<Longrightarrow> k < 2 \<Longrightarrow> bit x (8 * k + m) = bit y (8 * k + m)"
  shows "x = (y :: u16)"
proof (rule bit_word_eqI)
  fix n :: nat assume "n < LENGTH(16)"
  then have "n < 8 * 2" by simp
  then show "bit x n = bit y n" by (elim byte_positionE) (simp add: assms)
qed

lemma word_eqI32:
  assumes "\<And>k m. m < 8 \<Longrightarrow> k < 4 \<Longrightarrow> bit x (8 * k + m) = bit y (8 * k + m)"
  shows "x = (y :: u32)"
proof (rule bit_word_eqI)
  fix n :: nat assume "n < LENGTH(32)"
  then have "n < 8 * 4" by simp
  then show "bit x n = bit y n" by (elim byte_positionE) (simp add: assms)
qed

lemma half_of_bytes [simp]: "half_of (ucast (drop_bit 8 v)) (ucast v) = v"
  by (rule half_eqI, simp add: bit_half_of, elim less_2E) (simp_all add: bit_simps)

lemma word_of_bytes [simp]:
  "word_of (ucast (drop_bit 24 v)) (ucast (drop_bit 16 v)) (ucast (drop_bit 8 v)) (ucast v) = v"
  by (rule word_eqI32, simp only: bit_word_of, elim less_4E) (simp_all add: bit_simps)

lemma reverse_2_half_of [simp]: "reverse_2 (half_of b1 b0) = half_of b0 b1"
proof (rule half_eqI)
  fix k m :: nat assume km: "m < 8" "k < 2"
  then have "1 - k < 2" by simp
  with km show "bit (reverse_2 (half_of b1 b0)) (8 * k + m) = bit (half_of b0 b1) (8 * k + m)"
    by (simp only: bit_reverse_2 bit_half_of) (auto elim: less_2E)
qed

lemma reverse_4_word_of [simp]: "reverse_4 (word_of b3 b2 b1 b0) = word_of b0 b1 b2 b3"
proof (rule word_eqI32)
  fix k m :: nat assume km: "m < 8" "k < 4"
  then have "3 - k < 4" by simp
  with km show "bit (reverse_4 (word_of b3 b2 b1 b0)) (8 * k + m) = bit (word_of b0 b1 b2 b3) (8 * k + m)"
    by (simp only: bit_reverse_4 bit_word_of) (auto elim: less_4E)
qed

text \<open>The read loops: the bits of the previous value are shifted out.\<close>

lemma shift_in_2: "push_bit 8 (push_bit 8 v OR ucast b1) OR ucast b0 = half_of b1 b0"
  unfolding half_of_def by (rule bit_word_eqI) (auto simp: bit_simps)

lemma shift_in_4:
  "push_bit 8 (push_bit 8 (push_bit 8 (push_bit 8 v OR ucast b3) OR ucast b2) OR ucast b1) OR ucast b0
     = word_of b3 b2 b1 b0"
  unfolding word_of_def by (rule bit_word_eqI) (auto simp: bit_simps)

lemma read_byte_in:
  "mem_wf m \<Longrightarrow> in_mem m a 1 \<Longrightarrow> memory_read_byte m a v = Some (0, byte_at m a)"
  by (simp add: memory_read_byte_def size_check [THEN iffD2] mem_at_eq in_mem_def)

lemma read_loop_2:
  assumes "mem_wf m" "in_mem m a 2"
  shows "read_loop m a 0 2 v = Some (half_of (byte_at m a) (byte_at m (a + 1)))"
proof -
  have bs: "mem_at m (a + of_nat 0) = Some (byte_at m a)"
    "mem_at m (a + of_nat (Suc 0)) = Some (byte_at m (a + 1))"
    using assms in_mem_2 [OF assms] by (simp_all add: mem_at_eq)
  show ?thesis
    by (simp only: numeral_2_eq_2 read_loop.simps bs bind.bind_lunit shift_in_2)
qed

lemma read_loop_4:
  assumes "mem_wf m" "in_mem m a 4"
  shows "read_loop m a 0 4 v =
    Some (word_of (byte_at m a) (byte_at m (a + 1)) (byte_at m (a + 2)) (byte_at m (a + 3)))"
proof -
  have bs: "mem_at m (a + of_nat 0) = Some (byte_at m a)"
    "mem_at m (a + of_nat (Suc 0)) = Some (byte_at m (a + 1))"
    "mem_at m (a + of_nat (Suc (Suc 0))) = Some (byte_at m (a + 2))"
    "mem_at m (a + of_nat (Suc (Suc (Suc 0)))) = Some (byte_at m (a + 3))"
    using assms in_mem_4 [OF assms] by (simp_all add: mem_at_eq)
  have "(4::nat) = Suc (Suc (Suc (Suc 0)))" by simp
  then show ?thesis
    by (simp only: read_loop.simps bs bind.bind_lunit shift_in_4)
qed

lemma read_half_in:
  assumes "mem_wf m" "in_mem m a 2"
  shows "memory_read_half m a v be =
    Some (0, if be = 0 then half_of (byte_at m (a + 1)) (byte_at m a)
             else half_of (byte_at m a) (byte_at m (a + 1)))"
  using assms in_mem_2 [OF assms]
  by (simp add: memory_read_half_def size_check [THEN iffD2] read_loop_2)

lemma read_word_in:
  assumes "mem_wf m" "in_mem m a 4"
  shows "memory_read_word m a v be =
    Some (0, if be = 0
      then word_of (byte_at m (a + 3)) (byte_at m (a + 2)) (byte_at m (a + 1)) (byte_at m a)
      else word_of (byte_at m a) (byte_at m (a + 1)) (byte_at m (a + 2)) (byte_at m (a + 3)))"
  using assms in_mem_4 [OF assms]
  by (simp add: memory_read_word_def size_check [THEN iffD2] read_loop_4)

lemma write_byte_in:
  "mem_wf m \<Longrightarrow> in_mem m a 1 \<Longrightarrow> memory_write_byte m a v = Some (0, mem_upd m a v)"
  by (simp add: memory_write_byte_def size_check [THEN iffD2] mem_put_eq in_mem_def)

lemma write_half_in:
  assumes "mem_wf m" "in_mem m a 2"
  shows "memory_write_half m a v be = Some (0,
    if be = 0 then mem_upd (mem_upd m a (ucast v)) (a + 1) (ucast (drop_bit 8 v))
    else mem_upd (mem_upd m a (ucast (drop_bit 8 v))) (a + 1) (ucast v))"
  using assms in_mem_2 [OF assms]
  by (simp add: memory_write_half_def size_check [THEN iffD2] mem_put_eq)

lemma write_word_in:
  assumes "mem_wf m" "in_mem m a 4"
  shows "memory_write_word m a v be = Some (0,
    if be = 0 then mem_upd (mem_upd (mem_upd (mem_upd m a (ucast v)) (a + 1) (ucast (drop_bit 8 v)))
        (a + 2) (ucast (drop_bit 16 v))) (a + 3) (ucast (drop_bit 24 v))
    else mem_upd (mem_upd (mem_upd (mem_upd m a (ucast (drop_bit 24 v))) (a + 1) (ucast (drop_bit 16 v)))
        (a + 2) (ucast (drop_bit 8 v))) (a + 3) (ucast v))"
  using assms in_mem_4 [OF assms]
  by (simp add: memory_write_word_def size_check [THEN iffD2] mem_put_eq)

section \<open>The interface of a cell\<close>

text \<open>
  What a client relies on, whatever the width and the byte order of the access: inside the memory
  a write succeeds and replaces exactly the bytes of its value, a read succeeds and returns the
  value whose bytes are there, and a value is determined by its bytes.
\<close>

locale memory_cell =
  fixes invar :: "'m \<Rightarrow> bool"
    and size_of :: "'m \<Rightarrow> nat"
    and get :: "'m \<Rightarrow> u32 \<Rightarrow> u8"
    and width :: nat
    and enc :: "'v \<Rightarrow> nat \<Rightarrow> u8"
    and rd :: "'m \<Rightarrow> u32 \<Rightarrow> 'v \<Rightarrow> (int \<times> 'v) option"
    and wr :: "'m \<Rightarrow> u32 \<Rightarrow> 'v \<Rightarrow> (int \<times> 'm) option"
  assumes wr_in: "invar m \<Longrightarrow> unat a + width \<le> size_of m \<Longrightarrow>
      \<exists>m'. wr m a v = Some (0, m') \<and> invar m' \<and> size_of m' = size_of m \<and>
        (\<forall>d. get m' (a + d) = (if unat d < width then enc v (unat d) else get m (a + d)))"
    and rd_in: "invar m \<Longrightarrow> unat a + width \<le> size_of m \<Longrightarrow>
      \<exists>w. rd m a u = Some (0, w) \<and> (\<forall>i < width. enc w i = get m (a + of_nat i))"
    and enc_inj: "(\<And>i. i < width \<Longrightarrow> enc v i = enc w i) \<Longrightarrow> v = w"
    and size_32: "invar m \<Longrightarrow> size_of m < 2 ^ 32"
begin

lemma offset_unat: "invar m \<Longrightarrow> unat a + width \<le> size_of m \<Longrightarrow> i < width \<Longrightarrow>
  unat (of_nat i :: u32) = i"
  using size_32 [of m] by (simp add: unat_of_nat)

lemma wr_frame:
  assumes "invar m" "unat a + width \<le> size_of m" "wr m a v = Some (r, m')"
  shows "r = 0" "invar m'" "size_of m' = size_of m" "width \<le> unat (x - a) \<Longrightarrow> get m' x = get m x"
proof -
  obtain m1 where m1: "wr m a v = Some (0, m1)" "invar m1" "size_of m1 = size_of m"
    "\<And>d. get m1 (a + d) = (if unat d < width then enc v (unat d) else get m (a + d))"
    using wr_in [OF assms(1,2)] by blast
  from m1 assms(3) show "r = 0" "invar m'" "size_of m' = size_of m" by simp_all
  show "get m' x = get m x" if "width \<le> unat (x - a)"
    using m1(4) [of "x - a"] m1(1) assms(3) that by simp
qed

lemma rd_wr:
  assumes "invar m" "unat a + width \<le> size_of m" "wr m a v = Some (r, m')"
  shows "rd m' a u = Some (0, v)"
proof -
  obtain m1 where m1: "wr m a v = Some (0, m1)" "invar m1" "size_of m1 = size_of m"
    "\<And>d. get m1 (a + d) = (if unat d < width then enc v (unat d) else get m (a + d))"
    using wr_in [OF assms(1,2)] by blast
  with assms(3) have m': "m' = m1" by simp
  obtain w where w: "rd m' a u = Some (0, w)" "\<And>i. i < width \<Longrightarrow> enc w i = get m' (a + of_nat i)"
    using rd_in [of m' a u] m1 m' assms(2) by auto
  have "w = v"
    by (rule enc_inj) (simp add: w(2) m' m1(4) offset_unat [OF assms(1,2)])
  with w(1) show ?thesis by simp
qed

lemma rd_determined:
  assumes "invar m" "invar m'" "size_of m' = size_of m" "unat a + width \<le> size_of m"
    and "\<And>i. i < width \<Longrightarrow> get m' (a + of_nat i) = get m (a + of_nat i)"
  shows "rd m' a u = rd m a u'"
proof -
  obtain w where w: "rd m a u' = Some (0, w)" "\<And>i. i < width \<Longrightarrow> enc w i = get m (a + of_nat i)"
    using rd_in [OF assms(1,4)] by blast
  obtain w' where w': "rd m' a u = Some (0, w')" "\<And>i. i < width \<Longrightarrow> enc w' i = get m' (a + of_nat i)"
    using rd_in [of m' a u] assms by auto
  have "w' = w" by (rule enc_inj) (simp add: w(2) w'(2) assms(5))
  with w(1) w'(1) show ?thesis by simp
qed

text \<open>Two accesses that do not overlap do not interfere.\<close>

lemma rd_wr_disjoint:
  assumes m: "invar m" and a: "unat a + width \<le> size_of m" and b: "unat b + width \<le> size_of m"
    and disj: "unat a + width \<le> unat b \<or> unat b + width \<le> unat a"
    and wr: "wr m a v = Some (r, m')"
  shows "rd m' b u = rd m b u"
proof (rule rd_determined [OF m _ _ b])
  show "invar m'" "size_of m' = size_of m" by (rule wr_frame [OF m a wr])+
  fix i assume i: "i < width"
  have bi: "unat (b + of_nat i) = unat b + i"
    using size_32 [OF m] b i by (simp add: unat_word_ariths unat_of_nat)
  have "width \<le> unat (b + of_nat i - a)"
  proof (cases "unat a \<le> unat b + i")
    case True
    then have "unat (b + of_nat i - a) = unat b + i - unat a"
      using bi by (simp add: unat_sub_if')
    with True disj i show ?thesis by linarith
  next
    case False
    then have "unat (b + of_nat i - a) = unat b + i + 2 ^ 32 - unat a"
      using bi by (simp add: unat_sub_if')
    with a size_32 [OF m] show ?thesis by linarith
  qed
  then show "get m' (b + of_nat i) = get m (b + of_nat i)" by (rule wr_frame(4) [OF m a wr])
qed

end

definition half_enc :: "u8 \<Rightarrow> u16 \<Rightarrow> nat \<Rightarrow> u8" where
  "half_enc be v i = ucast (drop_bit (8 * (if be = 0 then i else 1 - i)) v)"

definition word_enc :: "u8 \<Rightarrow> u32 \<Rightarrow> nat \<Rightarrow> u8" where
  "word_enc be v i = ucast (drop_bit (8 * (if be = 0 then i else 3 - i)) v)"

lemma less_width_2: "unat (d :: u32) < 2 \<longleftrightarrow> d = 0 \<or> d = 1"
  by (simp add: word_unat_eq_iff) linarith

lemma less_width_4: "unat (d :: u32) < 4 \<longleftrightarrow> d = 0 \<or> d = 1 \<or> d = 2 \<or> d = 3"
  by (simp add: word_unat_eq_iff) linarith

lemma half_enc_bytes:
  "half_enc be (half_of b1 b0) 0 = (if be = 0 then b0 else b1)"
  "half_enc be (half_of b1 b0) (Suc 0) = (if be = 0 then b1 else b0)"
  by (auto simp: half_enc_def half_of_def bit_simps intro!: bit_word_eqI dest: bit_imp_le_length)

lemma word_enc_bytes:
  "word_enc be (word_of b3 b2 b1 b0) 0 = (if be = 0 then b0 else b3)"
  "word_enc be (word_of b3 b2 b1 b0) (Suc 0) = (if be = 0 then b1 else b2)"
  "word_enc be (word_of b3 b2 b1 b0) 2 = (if be = 0 then b2 else b1)"
  "word_enc be (word_of b3 b2 b1 b0) 3 = (if be = 0 then b3 else b0)"
  by (auto simp: word_enc_def word_of_def bit_simps intro!: bit_word_eqI dest: bit_imp_le_length)

interpretation byte_cell: memory_cell mem_wf "\<lambda>m. unat (taille m)" byte_at 1 "\<lambda>v i. v"
  memory_read_byte memory_write_byte
proof unfold_locales
  fix m and a :: u32 and v :: u8 assume m: "mem_wf m" "unat a + 1 \<le> unat (taille m)"
  then have "in_mem m a 1" by (simp add: in_mem_def)
  with m show "\<exists>m'. memory_write_byte m a v = Some (0, m') \<and> mem_wf m' \<and>
      unat (taille m') = unat (taille m) \<and>
      (\<forall>d. byte_at m' (a + d) = (if unat d < 1 then v else byte_at m (a + d)))"
    by (simp add: write_byte_in unat_eq_0)
next
  fix m and a :: u32 and u :: u8 assume m: "mem_wf m" "unat a + 1 \<le> unat (taille m)"
  then show "\<exists>w. memory_read_byte m a u = Some (0, w) \<and> (\<forall>i<1. w = byte_at m (a + of_nat i))"
    by (simp add: read_byte_in in_mem_def)
qed (auto elim: mem_wfE)

interpretation half_cell: memory_cell mem_wf "\<lambda>m. unat (taille m)" byte_at 2 "half_enc be"
  "\<lambda>m a u. memory_read_half m a u be" "\<lambda>m a v. memory_write_half m a v be" for be
proof unfold_locales
  fix m and a :: u32 and v assume m: "mem_wf m" "unat a + 2 \<le> unat (taille m)"
  then have in2: "in_mem m a 2" by (simp add: in_mem_def)
  show "\<exists>m'. memory_write_half m a v be = Some (0, m') \<and> mem_wf m' \<and>
      unat (taille m') = unat (taille m) \<and>
      (\<forall>d. byte_at m' (a + d) = (if unat d < 2 then half_enc be v (unat d) else byte_at m (a + d)))"
    using m in_mem_2 [OF m(1) in2]
    by (auto simp: write_half_in in2 less_width_2 half_enc_def)
next
  fix m and a :: u32 and u assume m: "mem_wf m" "unat a + 2 \<le> unat (taille m)"
  then have in2: "in_mem m a 2" by (simp add: in_mem_def)
  have "i < 2 \<longleftrightarrow> i = 0 \<or> i = Suc 0" for i :: nat by auto
  then show "\<exists>w. memory_read_half m a u be = Some (0, w) \<and>
      (\<forall>i<2. half_enc be w i = byte_at m (a + of_nat i))"
    by (auto simp: read_half_in m in2 half_enc_bytes)
next
  fix v w assume eq: "\<And>i. i < 2 \<Longrightarrow> half_enc be v i = half_enc be w i"
  have "half_enc be v 0 = half_enc be w 0" "half_enc be v 1 = half_enc be w 1" by (simp_all add: eq)
  then have "half_of (ucast (drop_bit 8 v)) (ucast v) = half_of (ucast (drop_bit 8 w)) (ucast w)"
    by (auto simp: half_enc_def simp del: half_of_bytes split: if_splits)
  then show "v = w" by simp
qed (auto elim: mem_wfE)

interpretation word_cell: memory_cell mem_wf "\<lambda>m. unat (taille m)" byte_at 4 "word_enc be"
  "\<lambda>m a u. memory_read_word m a u be" "\<lambda>m a v. memory_write_word m a v be" for be
proof unfold_locales
  fix m and a :: u32 and v assume m: "mem_wf m" "unat a + 4 \<le> unat (taille m)"
  then have in4: "in_mem m a 4" by (simp add: in_mem_def)
  show "\<exists>m'. memory_write_word m a v be = Some (0, m') \<and> mem_wf m' \<and>
      unat (taille m') = unat (taille m) \<and>
      (\<forall>d. byte_at m' (a + d) = (if unat d < 4 then word_enc be v (unat d) else byte_at m (a + d)))"
    using m in_mem_4 [OF m(1) in4]
    by (auto simp: write_word_in in4 less_width_4 word_enc_def)
next
  fix m and a :: u32 and u assume m: "mem_wf m" "unat a + 4 \<le> unat (taille m)"
  then have in4: "in_mem m a 4" by (simp add: in_mem_def)
  have "i < 4 \<longleftrightarrow> i = 0 \<or> i = Suc 0 \<or> i = 2 \<or> i = 3" for i :: nat by auto
  then show "\<exists>w. memory_read_word m a u be = Some (0, w) \<and>
      (\<forall>i<4. word_enc be w i = byte_at m (a + of_nat i))"
    by (auto simp: read_word_in m in4 word_enc_bytes)
next
  fix v w assume eq: "\<And>i. i < 4 \<Longrightarrow> word_enc be v i = word_enc be w i"
  have "word_enc be v 0 = word_enc be w 0" "word_enc be v 1 = word_enc be w 1"
    "word_enc be v 2 = word_enc be w 2" "word_enc be v 3 = word_enc be w 3" by (simp_all add: eq)
  then have "word_of (ucast (drop_bit 24 v)) (ucast (drop_bit 16 v)) (ucast (drop_bit 8 v)) (ucast v) =
      word_of (ucast (drop_bit 24 w)) (ucast (drop_bit 16 w)) (ucast (drop_bit 8 w)) (ucast w)"
    by (auto simp: word_enc_def simp del: word_of_bytes split: if_splits)
  then show "v = w" by simp
qed (auto elim: mem_wfE)

section \<open>Errors, undefined accesses and preservation\<close>

lemma mem_put_wf:
  "mem_put m a b = Some m' \<Longrightarrow> mem_wf m \<Longrightarrow> mem_wf m' \<and> taille m' = taille m"
  by (auto simp: mem_put_eq split: if_splits)

lemma write_byte_wf [wf_intros]:
  "memory_write_byte m a v = Some (r, m') \<Longrightarrow> mem_wf m \<Longrightarrow> mem_wf m' \<and> taille m' = taille m"
  by (auto simp: memory_write_byte_def mem_put_eq split: if_splits)

lemma write_half_wf [wf_intros]:
  "memory_write_half m a v be = Some (r, m') \<Longrightarrow> mem_wf m \<Longrightarrow> mem_wf m' \<and> taille m' = taille m"
  by (auto simp: memory_write_half_def mem_put_eq split: if_splits)

lemma write_word_wf [wf_intros]:
  "memory_write_word m a v be = Some (r, m') \<Longrightarrow> mem_wf m \<Longrightarrow> mem_wf m' \<and> taille m' = taille m"
  by (auto simp: memory_write_word_def mem_put_eq split: if_splits)

lemma read_byte_result:
  "memory_read_byte m a v = Some (r, w) \<Longrightarrow> r = 0 \<or> r = -1 \<and> w = v"
  by (auto simp: memory_read_byte_def bind_eq_Some_conv split: if_splits)

lemma read_half_result:
  "memory_read_half m a v be = Some (r, w) \<Longrightarrow> r = 0 \<or> r = -1 \<and> w = v"
  by (auto simp: memory_read_half_def bind_eq_Some_conv split: if_splits)

lemma read_word_result:
  "memory_read_word m a v be = Some (r, w) \<Longrightarrow> r = 0 \<or> r = -1 \<and> w = v"
  by (auto simp: memory_read_word_def bind_eq_Some_conv split: if_splits)

lemma read_loop_None:
  "read_loop m a i n v = None \<longleftrightarrow> (\<exists>j. i \<le> j \<and> j < i + n \<and> mem_at m (a + of_nat j) = None)"
proof (induction n arbitrary: i v)
  case 0
  then show ?case by simp
next
  case (Suc n)
  have split: "(\<exists>j. i \<le> j \<and> j < i + Suc n \<and> P j) \<longleftrightarrow> P i \<or> (\<exists>j. Suc i \<le> j \<and> j < Suc i + n \<and> P j)" for P
    by (auto simp: less_Suc_eq_le) (metis Suc_leI le_neq_implies_less, meson Suc_leD)
  show ?case
    by (subst split, cases "mem_at m (a + of_nat i)") (simp_all add: Suc.IH)
qed

text \<open>The accesses of \<open>n\<close> consecutive bytes all hit the block exactly when the range is inside it.\<close>

lemma in_mem_iff:
  assumes m: "mem_wf m" and n: "0 < n"
  shows "in_mem m a n \<longleftrightarrow> (\<forall>j<n. unat (a + of_nat j) < unat (taille m))"
proof
  assume all: "\<forall>j<n. unat (a + of_nat j) < unat (taille m)"
  have sz: "unat (taille m) < 2 ^ 32" using m by (auto elim: mem_wfE)
  show "in_mem m a n"
  proof (cases "unat a + (n - 1) < 2 ^ 32")
    case True
    then have "unat (a + of_nat (n - 1)) = unat a + (n - 1)"
      by (simp add: unat_word_ariths unat_of_nat)
    then show ?thesis using all n by (auto simp: in_mem_def dest!: spec [of _ "n - 1"])
  next
    case False
    define j where "j = 2 ^ 32 - 1 - unat a"
    have "unat a < 2 ^ LENGTH(32)" by (rule unsigned_less)
    then have "unat a + j = 2 ^ 32 - 1" and "j < n" using False by (auto simp: j_def)
    then have "unat (a + of_nat j) = 2 ^ 32 - 1" by (simp add: unat_word_ariths unat_of_nat)
    with all \<open>j < n\<close> sz show ?thesis by (auto dest!: spec [of _ j])
  qed
qed (auto simp: in_mem_at m)

lemma read_loop_None_iff:
  "mem_wf m \<Longrightarrow> 0 < n \<Longrightarrow> read_loop m a 0 n v = None \<longleftrightarrow> \<not> in_mem m a n"
  by (auto simp: read_loop_None in_mem_iff mem_at_eq not_less split: if_splits)

text \<open>A concrete memory of eight bytes, for the witnesses.\<close>

definition sample_mem :: memory_data where
  "sample_mem = \<lparr>mem_value = Some [1, 2, 3, 4, 5, 6, 7, 8], taille = 8\<rparr>"

lemma sample_mem_wf: "mem_wf sample_mem" "taille sample_mem = 8"
  by (simp_all add: sample_mem_def mem_wf_def)

text \<open>The addresses at which a word access passes the check and leaves the block.\<close>

definition word_access_undefined :: "memory_data \<Rightarrow> u32 \<Rightarrow> bool" where
  "word_access_undefined m a \<longleftrightarrow> unat a + 3 = unat (taille m) \<or> 2 ^ 32 - 3 \<le> unat a"

lemma word_access_undefined_iff:
  assumes "mem_wf m" "3 \<le> unat (taille m)"
  shows "word_access_undefined m a \<longleftrightarrow> unat (a + 3) \<le> unat (taille m) \<and> \<not> in_mem m a 4"
proof -
  have sz: "unat (taille m) < 2 ^ 32" using assms(1) by (auto elim: mem_wfE)
  have a: "unat a < 2 ^ LENGTH(32)" by (rule unsigned_less)
  show ?thesis
  proof (cases "unat a + 3 < 2 ^ 32")
    case True
    then have "unat (a + 3) = unat a + 3" by (simp add: unat_word_ariths)
    with True show ?thesis by (auto simp: word_access_undefined_def in_mem_def)
  next
    case False
    then have "unat (a + 3) = unat a + 3 - 2 ^ 32"
      using a by (simp add: unat_word_ariths mod_if)
    with False a sz assms(2) show ?thesis by (auto simp: word_access_undefined_def in_mem_def)
  qed
qed

lemma all_less_4: "(\<forall>j<4. P j) \<longleftrightarrow> P 0 \<and> P 1 \<and> P 2 \<and> P (3::nat)"
  by (auto elim!: less_4E)

section \<open>Properties\<close>

text \<open>
  (C23) Every word access of \<^verbatim>\<open>memory.c\<close> inside the block succeeds: a write of \<open>v\<close>
  returns 0 and the word read back at the same address, in the same byte order, is \<open>v\<close>, whatever
  the output variable held; a read in the other byte order gives the reversed word.
\<close>

theorem word_roundtrip:
  assumes "mem_wf m" "unat a + 4 \<le> unat (taille m)"
  shows "\<exists>m'. memory_write_word m a v be = Some (0, m') \<and>
    memory_read_word m' a u be = Some (0, v) \<and>
    memory_read_word m' a u (if be = 0 then 1 else 0) = Some (0, reverse_4 v)"
proof -
  have in4: "in_mem m a 4" using assms(2) by (simp add: in_mem_def)
  obtain m' where w: "memory_write_word m a v be = Some (0, m')"
    using word_cell.wr_in [OF assms] by blast
  have r: "memory_read_word m' a u be = Some (0, v)" for u
    by (rule word_cell.rd_wr [OF assms w])
  have "mem_wf m'" "in_mem m' a 4"
    using word_cell.wr_frame [OF assms w] in4 by (simp_all add: in_mem_def)
  then have "memory_read_word m' a u (if be = 0 then 1 else 0) = Some (0, reverse_4 v)"
    using r [of u] by (auto simp: read_word_in split: if_splits)
  with w r show ?thesis by blast
qed

theorem word_roundtrip_witness:
  "\<exists>m'. memory_write_word sample_mem 2 0x11223344 1 = Some (0, m') \<and>
    memory_read_word m' 2 0 1 = Some (0, 0x11223344) \<and>
    memory_read_word m' 2 0 (if (1::u8) = 0 then 1 else 0) = Some (0, reverse_4 0x11223344)"
  by (rule word_roundtrip) (simp_all add: sample_mem_wf)

text \<open>
  The frame of the accesses: a word written inside the block changes only its four bytes, so
  a word read elsewhere in the block, at an address whose range does not overlap, is unchanged.
\<close>

theorem word_write_disjoint:
  assumes "mem_wf m" "unat a + 4 \<le> unat (taille m)" "unat b + 4 \<le> unat (taille m)"
    "unat a + 4 \<le> unat b \<or> unat b + 4 \<le> unat a"
    "memory_write_word m a v be = Some (r, m')"
  shows "memory_read_word m' b u be = memory_read_word m b u be"
  by (rule word_cell.rd_wr_disjoint [OF assms])

theorem word_write_disjoint_witness:
  "\<exists>m'. memory_write_word sample_mem 0 7 0 = Some (0, m') \<and>
    memory_read_word m' 4 9 0 = memory_read_word sample_mem 4 9 0"
proof -
  obtain m' where w: "memory_write_word sample_mem 0 7 0 = Some (0, m')"
    using word_cell.wr_in [where m = sample_mem and a = 0 and v = 7 and be = 0] sample_mem_wf by auto
  have "memory_read_word m' 4 9 0 = memory_read_word sample_mem 4 9 0"
    by (rule word_write_disjoint [OF _ _ _ _ w]) (simp_all add: sample_mem_wf)
  with w show ?thesis by blast
qed

text \<open>
  The bounds check of the byte accesses is off by one: a read or a write at the address equal to
  the size passes the check and is outside the block, so C leaves it undefined, and this is the only
  undefined case. Every other address outside the block is refused with -1 and changes nothing.
\<close>

theorem byte_access_bounds:
  assumes "mem_wf m"
  shows "memory_read_byte m a v =
      (if unat a < unat (taille m) then Some (0, byte_at m a)
       else if unat a = unat (taille m) then None else Some (-1, v)) \<and>
    memory_write_byte m a v =
      (if unat a < unat (taille m) then Some (0, mem_upd m a v)
       else if unat a = unat (taille m) then None else Some (-1, m))"
  using assms
  by (auto simp: memory_read_byte_def memory_write_byte_def memory_get_size_def mem_at_eq mem_put_eq
      word_less_nat_alt)

theorem byte_access_bounds_witness:
  "memory_read_byte sample_mem 8 0 = None \<and> memory_write_byte sample_mem 9 0 = Some (-1, sample_mem)"
  using byte_access_bounds [of sample_mem 8 0] byte_access_bounds [of sample_mem 9 0] sample_mem_wf
  by simp

text \<open>
  (C36) A word access is undefined exactly when it passes the check \<open>address + 3 > size\<close>, computed
  modulo \<open>2 ^ 32\<close>, with a byte outside the block: for a block of at least three bytes, when the
  last byte is the one just after the block or when the address is one of the last three of the
  address space, for reads and for writes. Elsewhere outside the block the access returns -1 and
  changes nothing.
\<close>

theorem word_access_bounds:
  assumes "mem_wf m" "3 \<le> unat (taille m)"
  shows "(memory_read_word m a v be = None \<longleftrightarrow> word_access_undefined m a) \<and>
    (memory_write_word m a v be = None \<longleftrightarrow> word_access_undefined m a) \<and>
    (unat (taille m) < unat a + 4 \<and> \<not> word_access_undefined m a \<longrightarrow>
      memory_read_word m a v be = Some (-1, v) \<and> memory_write_word m a v be = Some (-1, m))"
proof -
  have bad: "word_access_undefined m a \<longleftrightarrow> unat (a + 3) \<le> unat (taille m) \<and> \<not> in_mem m a 4"
    by (rule word_access_undefined_iff [OF assms])
  have rd: "memory_read_word m a v be = None \<longleftrightarrow> word_access_undefined m a"
    by (auto simp: memory_read_word_def bad read_loop_None_iff assms bind_eq_None_conv
        simp flip: size_check)
  have wr: "memory_write_word m a v be = None \<longleftrightarrow> word_access_undefined m a"
    using assms(1)
    by (auto simp: memory_write_word_def bad in_mem_iff mem_put_eq all_less_4 simp flip: size_check)
  have rej: "memory_get_size m < ucast (a + 3)"
    if "unat (taille m) < unat a + 4" "\<not> word_access_undefined m a"
    using that by (auto simp: bad in_mem_def simp flip: size_check)
  then show ?thesis using rd wr by (auto simp: memory_read_word_def memory_write_word_def)
qed

theorem word_access_bounds_witness:
  "memory_read_word sample_mem 5 0 1 = None \<and> memory_write_word sample_mem 0xFFFFFFFE 0 1 = None \<and>
    memory_read_word sample_mem 6 0 1 = Some (-1, 0)"
  using word_access_bounds [of sample_mem 5 0 1] word_access_bounds [of sample_mem 6 0 1]
    word_access_bounds [of sample_mem "0xFFFFFFFE" 0 1] sample_mem_wf
  by (simp add: word_access_undefined_def)

end
