(* ===== verification/Arm_Constants.thy ===== *)
theory Arm_Constants
  imports C_Prelude
begin

text \<open>
  \<^verbatim>\<open>arm_constants.h\<close>, \<^verbatim>\<open>arm_constants.c\<close> and the condition codes of
  \<^verbatim>\<open>arm_conditions.h\<close>: the numbers of the modes, exceptions, shift kinds and
  conditions, and the tables of names. A null \<open>char *\<close> is \<open>None\<close>; reading a table outside its
  bounds is undefined, which is an outer \<open>None\<close>.
\<close>

section \<open>Numbers\<close>

definition USR :: u8 where "USR = 0x10"
definition FIQ :: u8 where "FIQ = 0x11"
definition IRQ :: u8 where "IRQ = 0x12"
definition SVC :: u8 where "SVC = 0x13"
definition ABT :: u8 where "ABT = 0x17"
definition UND :: u8 where "UND = 0x1b"
definition SYS :: u8 where "SYS = 0x1f"

lemmas mode_defs = USR_def FIQ_def IRQ_def SVC_def ABT_def UND_def SYS_def

definition RESET :: int where "RESET = 1"
definition DATA_ABORT :: int where "DATA_ABORT = 2"
definition FAST_INTERRUPT :: int where "FAST_INTERRUPT = 3"
definition INTERRUPT :: int where "INTERRUPT = 4"
definition IMPRECISE_ABORT :: int where "IMPRECISE_ABORT = 5"
definition PREFETCH_ABORT :: int where "PREFETCH_ABORT = 6"
definition UNDEFINED_INSTRUCTION :: int where "UNDEFINED_INSTRUCTION = 7"
definition SOFTWARE_INTERRUPT :: int where "SOFTWARE_INTERRUPT = 8"
definition END_SIMULATION :: int where "END_SIMULATION = 9"

lemmas exception_defs = RESET_def DATA_ABORT_def FAST_INTERRUPT_def INTERRUPT_def
  IMPRECISE_ABORT_def PREFETCH_ABORT_def UNDEFINED_INSTRUCTION_def SOFTWARE_INTERRUPT_def
  END_SIMULATION_def

definition LSL :: u8 where "LSL = 0"
definition LSR :: u8 where "LSR = 1"
definition ASR :: u8 where "ASR = 2"
definition ROR :: u8 where "ROR = 3"

lemmas shift_defs = LSL_def LSR_def ASR_def ROR_def

definition PrivMask :: u32 where "PrivMask = 0x0000000F"

text \<open>The condition codes, as the 4-bit value they have in an instruction.\<close>

definition EQ :: u32 where "EQ = 0x0"
definition NE :: u32 where "NE = 0x1"
definition CS :: u32 where "CS = 0x2"
definition CC :: u32 where "CC = 0x3"
definition MI :: u32 where "MI = 0x4"
definition PL :: u32 where "PL = 0x5"
definition VS :: u32 where "VS = 0x6"
definition VC :: u32 where "VC = 0x7"
definition HI :: u32 where "HI = 0x8"
definition LS :: u32 where "LS = 0x9"
definition GE :: u32 where "GE = 0xA"
definition LT :: u32 where "LT = 0xB"
definition GT :: u32 where "GT = 0xC"
definition LE :: u32 where "LE = 0xD"
definition AL :: u32 where "AL = 0xE"
definition UN_cond :: u32 where "UN_cond = 0xF" \<comment> \<open>the macro \<open>UN\<close>\<close>

lemmas cond_defs = EQ_def NE_def CS_def CC_def MI_def PL_def VS_def VC_def HI_def LS_def GE_def
  LT_def GT_def LE_def AL_def UN_cond_def

section \<open>Names\<close>

definition arm_mode_names :: "string option list" where
  "arm_mode_names = replicate 16 None @
     [Some ''USR'', Some ''FIQ'', Some ''IRQ'', Some ''SVC'', None, None, None,
      Some ''ABT'', None, None, None, Some ''UND'', None, None, None, Some ''SYS'']"

definition arm_register_names :: "string list" where
  "arm_register_names =
     [''R00'', ''R01'', ''R02'', ''R03'', ''R04'', ''R05'',
      ''R06'', ''R07'', ''R08'', ''R09'', ''R10'', ''R11'',
      ''R12'', ''SP'', ''LR'', ''PC'', ''CPSR'', ''SPSR'']"

definition arm_exception_names :: "string option list" where
  "arm_exception_names =
     [None, Some ''reset'', Some ''data abort'', Some ''fast interrupt'', Some ''interrupt'',
      Some ''imprecise abort'', Some ''prefetch abort'', Some ''undefined instruction'',
      Some ''software interrupt'']"

definition arm_get_exception_name :: "u8 \<Rightarrow> string option option" where
  "arm_get_exception_name exc =
     (if exc < 8 then aget arm_exception_names (unat exc) else Some None)"

definition arm_get_mode_name :: "u8 \<Rightarrow> string option option" where
  "arm_get_mode_name mode = aget arm_mode_names (unat mode)"

text \<open>The loop of \<open>arm_get_mode_number\<close> from index \<open>i\<close>; the result is an \<open>int8_t\<close>.\<close>

fun mode_number_loop :: "string \<Rightarrow> string option list \<Rightarrow> int \<Rightarrow> int" where
  "mode_number_loop name [] i = -1"
| "mode_number_loop name (n # ns) i =
     (if n = Some name then i else mode_number_loop name ns (i + 1))"

definition arm_get_mode_number :: "string \<Rightarrow> int" where
  "arm_get_mode_number name = mode_number_loop name arm_mode_names 0"

definition arm_get_register_name :: "u8 \<Rightarrow> string option" where
  "arm_get_register_name reg = aget arm_register_names (unat reg)"

lemma length_tables [simp]:
  "length arm_mode_names = 32" "length arm_register_names = 18" "length arm_exception_names = 9"
  by (simp_all add: arm_mode_names_def arm_register_names_def arm_exception_names_def)

section \<open>Properties of the tables\<close>

lemma mode_number_loop_result:
  "mode_number_loop name ns i = k \<Longrightarrow> k = -1 \<or> i \<le> k \<and> k < i + int (length ns) \<and> ns ! nat (k - i) = Some name"
proof (induction ns arbitrary: i)
  case (Cons n ns)
  show ?case
  proof (cases "n = Some name")
    case False
    with Cons.prems have "mode_number_loop name ns (i + 1) = k" by simp
    from Cons.IH [OF this] show ?thesis
    proof
      assume k: "i + 1 \<le> k \<and> k < i + 1 + int (length ns) \<and> ns ! nat (k - (i + 1)) = Some name"
      then have "Suc (nat (k - (i + 1))) = nat (1 + (k - (i + 1)))"
        by (intro Suc_nat_eq_nat_zadd1) simp
      then have "nat (k - i) = Suc (nat (k - (i + 1)))" by simp
      with k show ?thesis by simp
    qed simp
  qed (use Cons.prems in auto)
qed auto

lemma mode_number_loop_None:
  "mode_number_loop name ns i = -1 \<Longrightarrow> 0 \<le> i \<Longrightarrow> Some name \<notin> set ns"
  by (induction ns arbitrary: i) (auto split: if_splits)

end
