(* ===== verification/Arm_Registers.thy ===== *)
theory Arm_Registers
  imports Arm_Constants
begin

text \<open>
  \<^verbatim>\<open>registers.c\<close>: the register file, an array of 18 values (R0 to R15, then the
  CPSR and the SPSR) behind a pointer that may be null (\<open>None\<close>). The code has one bank for all modes
  and always answers that the mode is \<open>SVC\<close>; the mode arguments are kept as the code has them.
\<close>

section \<open>The register file and its operations\<close>

type_synonym registers = "u32 list option"

definition NB_REGISTER :: nat where "NB_REGISTER = 18"

definition CPSR_Reserved_Mask :: u32 where "CPSR_Reserved_Mask = 0x00F0FC00"

definition registers_create :: "bool \<Rightarrow> registers" where
  "registers_create got = (if got then Some (replicate NB_REGISTER 0) else None)"

definition registers_get_mode :: "registers \<Rightarrow> u8" where
  "registers_get_mode r = (if r \<noteq> None then SVC else 0)"

definition registers_mode_has_spsr :: "registers \<Rightarrow> u8 \<Rightarrow> int" where
  "registers_mode_has_spsr r mode = (if mode = USR \<or> mode = SYS then 0 else 1)"

definition registers_current_mode_has_spsr :: "registers \<Rightarrow> int" where
  "registers_current_mode_has_spsr r = registers_mode_has_spsr r (registers_get_mode r)"

text \<open>\<open>r[i].value\<close>, an access through the pointer.\<close>

definition reg_at :: "registers \<Rightarrow> nat \<Rightarrow> u32 option" where
  "reg_at r i = do { rs \<leftarrow> r; aget rs i }"

definition registers_in_a_privileged_mode :: "registers \<Rightarrow> int option" where
  "registers_in_a_privileged_mode r = do {
     cpsr \<leftarrow> reg_at r 16;
     Some (if cpsr AND PrivMask \<noteq> 0 then 1 else -1)
   }"

definition registers_read :: "registers \<Rightarrow> u8 \<Rightarrow> u8 \<Rightarrow> u32 option" where
  "registers_read r reg mode = reg_at r (unat reg)"

definition registers_read_cpsr :: "registers \<Rightarrow> u32 option" where
  "registers_read_cpsr r =
     (if r \<noteq> None then do { cpsr \<leftarrow> reg_at r 16; Some (cpsr AND NOT CPSR_Reserved_Mask) }
      else Some (-1))"

definition registers_read_spsr :: "registers \<Rightarrow> u8 \<Rightarrow> u32" where
  "registers_read_spsr r mode = -1"

definition registers_write :: "registers \<Rightarrow> u8 \<Rightarrow> u8 \<Rightarrow> u32 \<Rightarrow> registers option" where
  "registers_write r reg mode v = (case r of None \<Rightarrow> Some None
     | Some rs \<Rightarrow> do { rs' \<leftarrow> aset rs (unat reg) v; Some (Some rs') })"

definition registers_write_cpsr :: "registers \<Rightarrow> u32 \<Rightarrow> registers option" where
  "registers_write_cpsr r v = (case r of None \<Rightarrow> Some None
     | Some rs \<Rightarrow> do { rs' \<leftarrow> aset rs 16 (v AND NOT CPSR_Reserved_Mask); Some (Some rs') })"

definition registers_write_spsr :: "registers \<Rightarrow> u8 \<Rightarrow> u32 \<Rightarrow> registers" where
  "registers_write_spsr r mode v = r"

section \<open>Invariant\<close>

text \<open>
  A register file made by \<open>registers_create\<close> and used through the operations has its 18 values, and
  the reserved bits of its CPSR are zero. \<open>regv r i\<close> is the abstract view, the value of register \<open>i\<close>.
\<close>

definition regs_wf :: "registers \<Rightarrow> bool" where
  "regs_wf r = (case r of None \<Rightarrow> False
     | Some rs \<Rightarrow> length rs = NB_REGISTER \<and> rs ! 16 AND CPSR_Reserved_Mask = 0)"

definition regv :: "registers \<Rightarrow> nat \<Rightarrow> u32" where
  "regv r i = (case r of None \<Rightarrow> 0 | Some rs \<Rightarrow> if i < length rs then rs ! i else 0)"

definition reg_upd :: "registers \<Rightarrow> nat \<Rightarrow> u32 \<Rightarrow> registers" where
  "reg_upd r i v = map_option (\<lambda>rs. rs[i := v]) r"

lemma regs_wfE:
  assumes "regs_wf r"
  obtains rs where "r = Some rs" "length rs = 18" "rs ! 16 AND CPSR_Reserved_Mask = 0"
  using assms by (auto simp: regs_wf_def NB_REGISTER_def split: option.splits)

lemma regs_wf_not_None [simp]: "regs_wf r \<Longrightarrow> r \<noteq> None"
  by (erule regs_wfE) simp

lemma get_mode_wf [core_simps]: "regs_wf r \<Longrightarrow> registers_get_mode r = SVC"
  by (simp add: registers_get_mode_def)

lemma has_spsr_wf [core_simps]: "regs_wf r \<Longrightarrow> registers_current_mode_has_spsr r = 1"
  by (simp add: registers_current_mode_has_spsr_def registers_mode_has_spsr_def get_mode_wf mode_defs)

lemma reg_at_wf [core_simps]: "regs_wf r \<Longrightarrow> i < 18 \<Longrightarrow> reg_at r i = Some (regv r i)"
  by (erule regs_wfE) (simp add: reg_at_def regv_def)

lemma registers_read_wf [core_simps]:
  "regs_wf r \<Longrightarrow> reg < 18 \<Longrightarrow> registers_read r reg mode = Some (regv r (unat reg))"
  by (simp add: registers_read_def reg_at_wf word_less_nat_alt)

lemma cpsr_reserved: "regs_wf r \<Longrightarrow> regv r 16 AND CPSR_Reserved_Mask = 0"
  by (erule regs_wfE) (simp add: regv_def)

lemma and_not_disjoint: "x AND m = 0 \<Longrightarrow> x AND NOT m = (x :: 'a::len word)"
  by (metis and.right_neutral bit.conj_disj_distrib bit.disj_cancel_right
      or.left_neutral)

lemma registers_read_cpsr_wf [core_simps]:
  "regs_wf r \<Longrightarrow> registers_read_cpsr r = Some (regv r 16)"
  by (simp add: registers_read_cpsr_def reg_at_wf and_not_disjoint cpsr_reserved)

lemma registers_write_wf [core_simps]:
  "regs_wf r \<Longrightarrow> reg < 18 \<Longrightarrow> registers_write r reg mode v = Some (reg_upd r (unat reg) v)"
  by (erule regs_wfE) (simp add: registers_write_def reg_upd_def word_less_nat_alt)

lemma registers_write_cpsr_wf [core_simps]:
  "regs_wf r \<Longrightarrow> registers_write_cpsr r v = Some (reg_upd r 16 (v AND NOT CPSR_Reserved_Mask))"
  by (erule regs_wfE) (simp add: registers_write_cpsr_def reg_upd_def)

lemma regv_reg_upd [simp]:
  "regs_wf r \<Longrightarrow> i < 18 \<Longrightarrow> regv (reg_upd r i v) j = (if j = i then v else regv r j)"
  by (erule regs_wfE) (auto simp: regv_def reg_upd_def)

lemma reg_upd_wf [wf_intros]: "regs_wf r \<Longrightarrow> i \<noteq> 16 \<Longrightarrow> regs_wf (reg_upd r i v)"
  by (erule regs_wfE) (simp add: regs_wf_def reg_upd_def NB_REGISTER_def)

lemma reg_upd_cpsr_wf [wf_intros]: "regs_wf r \<Longrightarrow> regs_wf (reg_upd r 16 (v AND NOT CPSR_Reserved_Mask))"
  by (erule regs_wfE) (simp add: regs_wf_def reg_upd_def NB_REGISTER_def and.assoc)

lemma registers_create_wf: "regs_wf (registers_create True)"
  by (simp add: registers_create_def regs_wf_def NB_REGISTER_def)

section \<open>The interface of a register file\<close>

text \<open>
  What the instruction semantics relies on: a general register can be written, it then reads as
  written, and no other register changes.
\<close>

locale register_file =
  fixes invar :: "'r \<Rightarrow> bool"
    and rd :: "'r \<Rightarrow> u8 \<Rightarrow> u32 option"
    and wr :: "'r \<Rightarrow> u8 \<Rightarrow> u32 \<Rightarrow> 'r option"
  assumes rd_defined: "invar r \<Longrightarrow> i < 16 \<Longrightarrow> \<exists>v. rd r i = Some v"
    and wr_defined: "invar r \<Longrightarrow> i < 16 \<Longrightarrow> \<exists>r'. wr r i v = Some r' \<and> invar r'"
    and rd_wr: "invar r \<Longrightarrow> i < 16 \<Longrightarrow> j < 16 \<Longrightarrow> wr r i v = Some r' \<Longrightarrow>
      rd r' j = (if j = i then Some v else rd r j)"
begin

text \<open>Writing one value to several registers in turn.\<close>

fun wr_all :: "'r \<Rightarrow> u8 list \<Rightarrow> u32 \<Rightarrow> 'r option" where
  "wr_all r [] v = Some r"
| "wr_all r (i # is) v = do { r' \<leftarrow> wr r i v; wr_all r' is v }"

lemma wr_all_defined:
  "invar r \<Longrightarrow> \<forall>i \<in> set is. i < 16 \<Longrightarrow> \<exists>r'. wr_all r is v = Some r' \<and> invar r' \<and>
     (\<forall>j < 16. rd r' j = (if j \<in> set is then Some v else rd r j))"
proof (induction "is" arbitrary: r)
  case (Cons i "is")
  then obtain r1 where r1: "wr r i v = Some r1" "invar r1" using wr_defined [of r i v] by auto
  then obtain r' where "wr_all r1 is v = Some r'" "invar r'"
    "\<forall>j < 16. rd r' j = (if j \<in> set is then Some v else rd r1 j)"
    using Cons.IH [of r1] Cons.prems by auto
  with r1 Cons.prems rd_wr [of r i _ v r1] show ?case by auto
qed simp

end

interpretation regs: register_file regs_wf "\<lambda>r i. registers_read r i SVC"
  "\<lambda>r i v. registers_write r i SVC v"
proof unfold_locales
  fix r and i j :: u8 and v assume r: "regs_wf r" and i: "i < 16"
  have i18: "i < 18" and i16: "unat i < 16" using i by (simp_all add: word_less_nat_alt)
  then have "unat i \<noteq> 16" by simp
  then show "\<exists>r'. registers_write r i SVC v = Some r' \<and> regs_wf r'"
    using r i18 by (simp add: registers_write_wf reg_upd_wf)
  show "\<exists>v. registers_read r i SVC = Some v" using r i18 by (simp add: registers_read_wf)
  fix r' assume j: "j < 16" and w: "registers_write r i SVC v = Some r'"
  have "j < 18" using j by (simp add: word_less_nat_alt)
  moreover have "r' = reg_upd r (unat i) v" using w r i18 by (simp add: registers_write_wf)
  moreover have "regs_wf r'" using calculation(2) r i16 by (simp add: reg_upd_wf)
  ultimately show "registers_read r' j SVC = (if j = i then Some v else registers_read r j SVC)"
    using r i16 by (simp add: registers_read_wf word_unat_eq_iff)
qed

end
