(* ===== verification/Arm_Core.thy ===== *)
theory Arm_Core
  imports Sim_Memory Arm_Registers
begin

text \<open>
  \<^verbatim>\<open>arm_core.c\<close>: the processor, its cycle counter with the register file and the
  memory it is connected to, and the accessors through which every instruction reads and writes
  them. Each accessor reports its access to \<^verbatim>\<open>trace.c\<close>; the calls are recorded in
  order in the field \<open>trace\<close>, newest first, and theory \<open>Sim_Trace\<close> says what they print. The bytes
  written by \<open>putchar\<close> are the field \<open>console\<close>, oldest first.
\<close>

section \<open>The processor\<close>

datatype trace_call =
  Trace_memory (tc_cycle: u32) (tc_type: u8) (tc_size: u8) (tc_cause: u8) (tc_address: u32) (tc_value: u32)
| Trace_register (tc_cycle: u32) (tc_type: u8) (tc_reg: u8) (tc_mode: u8) (tc_value: u32)
| Trace_arm_state (tc_registers: registers)

record arm_core =
  cycle_count :: u32
  reg :: registers
  mem :: memory_data
  trace :: "trace_call list"
  console :: "u8 list"

text \<open>Constants of \<^verbatim>\<open>trace.h\<close>.\<close>

definition CPSR :: u8 where "CPSR = 16"
definition SPSR :: u8 where "SPSR = 17"
definition OTHER_ACCESS :: u8 where "OTHER_ACCESS = 0"
definition OPCODE_FETCH :: u8 where "OPCODE_FETCH = 1"
definition WRITE :: u8 where "WRITE = 0"
definition READ :: u8 where "READ = 1"

text \<open>\<^verbatim>\<open>Makefile.am\<close> builds with \<^verbatim>\<open>-D BIG_ENDIAN_SIMULATOR\<close>.\<close>

definition ENDIANESS :: u8 where "ENDIANESS = 1"

definition log_call :: "arm_core \<Rightarrow> trace_call \<Rightarrow> arm_core" where
  "log_call p c = p\<lparr>trace := c # trace p\<rparr>"

section \<open>Accessors\<close>

definition arm_current_mode_has_spsr :: "arm_core \<Rightarrow> int" where
  "arm_current_mode_has_spsr p = registers_current_mode_has_spsr (reg p)"

definition arm_in_a_privileged_mode :: "arm_core \<Rightarrow> int option" where
  "arm_in_a_privileged_mode p = registers_in_a_privileged_mode (reg p)"

definition arm_get_cycle_count :: "arm_core \<Rightarrow> u32" where
  "arm_get_cycle_count p = cycle_count p"

definition arm_read_register_internal :: "arm_core \<Rightarrow> u8 \<Rightarrow> u8 \<Rightarrow> (u32 \<times> arm_core) option" where
  "arm_read_register_internal p r mode = do {
     v \<leftarrow> registers_read (reg p) r mode;
     let v = (if r = 15 then (v + 4) AND 0xFFFFFFFD else v);
     Some (v, log_call p (Trace_register (cycle_count p) READ r mode v))
   }"

definition arm_read_register :: "arm_core \<Rightarrow> u8 \<Rightarrow> (u32 \<times> arm_core) option" where
  "arm_read_register p r = arm_read_register_internal p r (registers_get_mode (reg p))"

definition arm_read_usr_register :: "arm_core \<Rightarrow> u8 \<Rightarrow> (u32 \<times> arm_core) option" where
  "arm_read_usr_register p r = arm_read_register_internal p r USR"

definition arm_read_cpsr :: "arm_core \<Rightarrow> (u32 \<times> arm_core) option" where
  "arm_read_cpsr p = do {
     v \<leftarrow> registers_read_cpsr (reg p);
     Some (v, log_call p (Trace_register (cycle_count p) READ CPSR 0 v))
   }"

definition arm_read_spsr :: "arm_core \<Rightarrow> (u32 \<times> arm_core) option" where
  "arm_read_spsr p = (
     let mode = registers_get_mode (reg p); v = registers_read_spsr (reg p) mode
     in Some (v, log_call p (Trace_register (cycle_count p) READ SPSR mode v)))"

definition arm_write_register_internal :: "arm_core \<Rightarrow> u8 \<Rightarrow> u8 \<Rightarrow> u32 \<Rightarrow> arm_core option" where
  "arm_write_register_internal p r mode v = do {
     regs \<leftarrow> registers_write (reg p) r mode v;
     Some (log_call (p\<lparr>reg := regs\<rparr>) (Trace_register (cycle_count p) WRITE r mode v))
   }"

definition arm_write_register :: "arm_core \<Rightarrow> u8 \<Rightarrow> u32 \<Rightarrow> arm_core option" where
  "arm_write_register p r v = arm_write_register_internal p r (registers_get_mode (reg p)) v"

definition arm_write_usr_register :: "arm_core \<Rightarrow> u8 \<Rightarrow> u32 \<Rightarrow> arm_core option" where
  "arm_write_usr_register p r v = arm_write_register_internal p r USR v"

definition arm_write_cpsr :: "arm_core \<Rightarrow> u32 \<Rightarrow> arm_core option" where
  "arm_write_cpsr p v = do {
     regs \<leftarrow> registers_write_cpsr (reg p) v;
     Some (log_call (p\<lparr>reg := regs\<rparr>) (Trace_register (cycle_count p) WRITE CPSR 0 v))
   }"

definition arm_write_spsr :: "arm_core \<Rightarrow> u32 \<Rightarrow> arm_core option" where
  "arm_write_spsr p v = (
     let mode = registers_get_mode (reg p)
     in Some (log_call (p\<lparr>reg := registers_write_spsr (reg p) mode v\<rparr>)
          (Trace_register (cycle_count p) WRITE SPSR mode v)))"

text \<open>
  The memory accessors. The argument \<open>v\<close> of a read is the content of the output variable before
  the call; it is what the trace reports when the memory refuses the access.
\<close>

definition arm_read_byte :: "arm_core \<Rightarrow> u32 \<Rightarrow> u8 \<Rightarrow> (int \<times> u8 \<times> arm_core) option" where
  "arm_read_byte p address v = do {
     (result, v) \<leftarrow> memory_read_byte (mem p) address v;
     Some (result, v, log_call p (Trace_memory (cycle_count p) READ 1 OTHER_ACCESS address (ucast v)))
   }"

definition arm_read_half :: "arm_core \<Rightarrow> u32 \<Rightarrow> u16 \<Rightarrow> (int \<times> u16 \<times> arm_core) option" where
  "arm_read_half p address v = do {
     (result, v) \<leftarrow> memory_read_half (mem p) address v ENDIANESS;
     Some (result, v, log_call p (Trace_memory (cycle_count p) READ 2 OTHER_ACCESS address (ucast v)))
   }"

definition arm_read_word :: "arm_core \<Rightarrow> u32 \<Rightarrow> u32 \<Rightarrow> (int \<times> u32 \<times> arm_core) option" where
  "arm_read_word p address v = do {
     (result, v) \<leftarrow> memory_read_word (mem p) address v ENDIANESS;
     Some (result, v, log_call p (Trace_memory (cycle_count p) READ 4 OTHER_ACCESS address v))
   }"

definition arm_fetch :: "arm_core \<Rightarrow> u32 \<Rightarrow> (int \<times> u32 \<times> arm_core) option" where
  "arm_fetch p v = do {
     let mode = registers_get_mode (reg p);
     address \<leftarrow> registers_read (reg p) 15 mode;
     regs \<leftarrow> registers_write (reg p) 15 mode (address + 4);
     (result, v) \<leftarrow> memory_read_word (mem p) address v ENDIANESS;
     let p = p\<lparr>reg := regs, cycle_count := cycle_count p + 1\<rparr>;
     Some (result, v, log_call p (Trace_memory (cycle_count p) READ 4 OPCODE_FETCH address v))
   }"

definition arm_write_byte :: "arm_core \<Rightarrow> u32 \<Rightarrow> u8 \<Rightarrow> (int \<times> arm_core) option" where
  "arm_write_byte p address v = do {
     (result, m) \<leftarrow> memory_write_byte (mem p) address v;
     Some (result, log_call (p\<lparr>mem := m\<rparr>)
       (Trace_memory (cycle_count p) WRITE 1 OTHER_ACCESS address (ucast v)))
   }"

definition arm_write_half :: "arm_core \<Rightarrow> u32 \<Rightarrow> u16 \<Rightarrow> (int \<times> arm_core) option" where
  "arm_write_half p address v = do {
     (result, m) \<leftarrow> memory_write_half (mem p) address v ENDIANESS;
     Some (result, log_call (p\<lparr>mem := m\<rparr>)
       (Trace_memory (cycle_count p) WRITE 2 OTHER_ACCESS address (ucast v)))
   }"

definition arm_write_word :: "arm_core \<Rightarrow> u32 \<Rightarrow> u32 \<Rightarrow> (int \<times> arm_core) option" where
  "arm_write_word p address v = do {
     (result, m) \<leftarrow> memory_write_word (mem p) address v ENDIANESS;
     Some (result, log_call (p\<lparr>mem := m\<rparr>)
       (Trace_memory (cycle_count p) WRITE 4 OTHER_ACCESS address v))
   }"

section \<open>Invariant and evaluation rules\<close>

definition core_wf :: "arm_core \<Rightarrow> bool" where
  "core_wf p \<longleftrightarrow> regs_wf (reg p) \<and> mem_wf (mem p)"

text \<open>The abstract view of the state: general registers, status register, and their update.\<close>

definition gpr :: "arm_core \<Rightarrow> nat \<Rightarrow> u32" where
  "gpr p i = regv (reg p) i"

definition cpsr :: "arm_core \<Rightarrow> u32" where
  "cpsr p = regv (reg p) 16"

definition set_reg :: "arm_core \<Rightarrow> nat \<Rightarrow> u32 \<Rightarrow> arm_core" where
  "set_reg p i v = p\<lparr>reg := reg_upd (reg p) i v\<rparr>"

definition set_cpsr :: "arm_core \<Rightarrow> u32 \<Rightarrow> arm_core" where
  "set_cpsr p v = set_reg p 16 (v AND NOT CPSR_Reserved_Mask)"

text \<open>What reading register \<open>r\<close> gives: the PC reads as the address of the instruction plus 8.\<close>

definition read_value :: "arm_core \<Rightarrow> u8 \<Rightarrow> u32" where
  "read_value p r = (if r = 15 then (gpr p 15 + 4) AND 0xFFFFFFFD else gpr p (unat r))"

lemma log_call_sel [simp]:
  "cycle_count (log_call p c) = cycle_count p" "reg (log_call p c) = reg p"
  "mem (log_call p c) = mem p" "trace (log_call p c) = c # trace p"
  "console (log_call p c) = console p"
  by (simp_all add: log_call_def)

lemma set_reg_sel [simp]:
  "cycle_count (set_reg p i v) = cycle_count p" "mem (set_reg p i v) = mem p"
  "trace (set_reg p i v) = trace p" "console (set_reg p i v) = console p"
  "reg (set_reg p i v) = reg_upd (reg p) i v"
  by (simp_all add: set_reg_def)

lemma set_cpsr_sel [simp]:
  "cycle_count (set_cpsr p v) = cycle_count p" "mem (set_cpsr p v) = mem p"
  "trace (set_cpsr p v) = trace p" "console (set_cpsr p v) = console p"
  by (simp_all add: set_cpsr_def)

lemma core_wf_log [simp]: "core_wf (log_call p c) = core_wf p"
  by (simp add: core_wf_def)

lemma core_wf_set_reg [simp]: "core_wf p \<Longrightarrow> i \<noteq> 16 \<Longrightarrow> core_wf (set_reg p i v)"
  by (simp add: core_wf_def reg_upd_wf)

lemma core_wf_set_cpsr [simp]: "core_wf p \<Longrightarrow> core_wf (set_cpsr p v)"
  by (simp add: core_wf_def set_cpsr_def reg_upd_cpsr_wf)

lemma core_wf_sel [simp]:
  "core_wf p \<Longrightarrow> regs_wf (reg p)" "core_wf p \<Longrightarrow> mem_wf (mem p)"
  by (simp_all add: core_wf_def)

lemma gpr_log [simp]: "gpr (log_call p c) i = gpr p i" "cpsr (log_call p c) = cpsr p"
  by (simp_all add: gpr_def cpsr_def)

lemma gpr_set_reg [simp]:
  "core_wf p \<Longrightarrow> i < 18 \<Longrightarrow> gpr (set_reg p i v) j = (if j = i then v else gpr p j)"
  "core_wf p \<Longrightarrow> i < 16 \<Longrightarrow> cpsr (set_reg p i v) = cpsr p"
  by (simp_all add: gpr_def cpsr_def)

lemma gpr_set_cpsr [simp]:
  "core_wf p \<Longrightarrow> i \<noteq> 16 \<Longrightarrow> gpr (set_cpsr p v) i = gpr p i"
  "core_wf p \<Longrightarrow> cpsr (set_cpsr p v) = v AND NOT CPSR_Reserved_Mask"
  by (simp_all add: gpr_def cpsr_def set_cpsr_def)

lemma read_value_log [simp]: "read_value (log_call p c) r = read_value p r"
  by (simp add: read_value_def)

lemma arm_read_register_wf [core_simps]:
  "core_wf p \<Longrightarrow> r < 16 \<Longrightarrow> arm_read_register p r =
     Some (read_value p r, log_call p (Trace_register (cycle_count p) READ r SVC (read_value p r)))"
  by (simp add: arm_read_register_def arm_read_register_internal_def read_value_def gpr_def
      registers_read_wf get_mode_wf word_less_nat_alt Let_def)

lemma arm_read_cpsr_wf [core_simps]:
  "core_wf p \<Longrightarrow> arm_read_cpsr p =
     Some (cpsr p, log_call p (Trace_register (cycle_count p) READ CPSR 0 (cpsr p)))"
  by (simp add: arm_read_cpsr_def registers_read_cpsr_wf cpsr_def)

lemma arm_read_spsr_wf [core_simps]:
  "core_wf p \<Longrightarrow> arm_read_spsr p =
     Some (-1, log_call p (Trace_register (cycle_count p) READ SPSR SVC (-1)))"
  by (simp add: arm_read_spsr_def registers_read_spsr_def get_mode_wf Let_def)

lemma arm_write_register_wf [core_simps]:
  "core_wf p \<Longrightarrow> r < 16 \<Longrightarrow> arm_write_register p r v =
     Some (log_call (set_reg p (unat r) v) (Trace_register (cycle_count p) WRITE r SVC v))"
  by (simp add: arm_write_register_def arm_write_register_internal_def registers_write_wf
      get_mode_wf word_less_nat_alt set_reg_def)

lemma arm_write_cpsr_wf [core_simps]:
  "core_wf p \<Longrightarrow> arm_write_cpsr p v =
     Some (log_call (set_cpsr p v) (Trace_register (cycle_count p) WRITE CPSR 0 v))"
  by (simp add: arm_write_cpsr_def registers_write_cpsr_wf set_cpsr_def set_reg_def)

lemma has_spsr_core [core_simps]: "core_wf p \<Longrightarrow> arm_current_mode_has_spsr p = 1"
  by (simp add: arm_current_mode_has_spsr_def has_spsr_wf)

section \<open>The same state up to the trace, and what an instruction keeps\<close>

definition same_view :: "arm_core \<Rightarrow> arm_core \<Rightarrow> bool" where
  "same_view p q \<longleftrightarrow> reg q = reg p \<and> mem q = mem p \<and> cycle_count q = cycle_count p \<and> console q = console p"

lemma same_view_refl [simp]: "same_view p p"
  by (simp add: same_view_def)

lemma same_view_log [simp]: "same_view p (log_call q c) = same_view p q"
  by (simp add: same_view_def)

lemma same_viewD:
  assumes "same_view p q"
  shows "core_wf q = core_wf p" "gpr q = gpr p" "cpsr q = cpsr p" "read_value q = read_value p"
    "mem q = mem p" "cycle_count q = cycle_count p" "console q = console p"
  using assms by (auto simp: same_view_def core_wf_def gpr_def cpsr_def read_value_def
      fun_eq_iff simp del: core_wf_sel)

text \<open>
  A call of \<open>trace.c\<close> is well typed when its arguments are entries of the tables that it prints them
  with; \<open>logged p q\<close> says that between \<open>p\<close> and \<open>q\<close> only such calls have been made.
\<close>

definition call_ok :: "trace_call \<Rightarrow> bool" where
  "call_ok c = (case c of
     Trace_memory cycle type sz cause address v \<Rightarrow> type \<le> 1 \<and> cause \<le> 1
   | Trace_register cycle type r mode v \<Rightarrow> type \<le> 1 \<and> r < 18 \<and> mode < 32
   | Trace_arm_state r \<Rightarrow> regs_wf r)"

definition logged :: "arm_core \<Rightarrow> arm_core \<Rightarrow> bool" where
  "logged p q \<longleftrightarrow> (\<exists>cs. trace q = cs @ trace p \<and> list_all call_ok cs)"

lemma logged_refl [simp]: "logged p p"
  by (simp add: logged_def)

lemma logged_trans: "logged p q \<Longrightarrow> logged q r \<Longrightarrow> logged p r"
  unfolding logged_def by (metis append.assoc list_all_append)

lemma logged_log [simp]: "call_ok c \<Longrightarrow> logged p q \<Longrightarrow> logged p (log_call q c)"
  unfolding logged_def by (metis append_Cons list.pred_inject(2) log_call_sel(4))

lemma logged_same_trace: "trace q = trace q' \<Longrightarrow> logged p q = logged p q'" "trace p = trace p' \<Longrightarrow> logged p q = logged p' q"
  by (simp_all add: logged_def)

lemma trace_updates [simp]:
  "trace (p\<lparr>reg := r\<rparr>) = trace p" "trace (p\<lparr>mem := m\<rparr>) = trace p" "logged p (p\<lparr>reg := r\<rparr>)" "logged p (p\<lparr>mem := m\<rparr>)"
  by (simp_all add: logged_def)

lemma logged_set_reg [simp]: "logged p (set_reg q i v) = logged p q" "logged p (set_cpsr q v) = logged p q"
  by (simp_all add: logged_def)

lemma call_ok_simps [simp]:
  "call_ok (Trace_register c READ r SVC v) = (r < 18)" "call_ok (Trace_register c WRITE r SVC v) = (r < 18)"
  "call_ok (Trace_register c READ CPSR 0 v)" "call_ok (Trace_register c WRITE CPSR 0 v)"
  "SPSR < 18"
  "call_ok (Trace_memory c READ n OTHER_ACCESS a v)" "call_ok (Trace_memory c WRITE n OTHER_ACCESS a v)"
  "call_ok (Trace_memory c READ n OPCODE_FETCH a v)"
  by (simp_all add: call_ok_def READ_def WRITE_def OTHER_ACCESS_def OPCODE_FETCH_def CPSR_def SPSR_def SVC_def)

lemma registers_read_bound: "regs_wf r \<Longrightarrow> registers_read r i mode = Some v \<Longrightarrow> i < 18"
  by (erule regs_wfE) (simp add: registers_read_def reg_at_def aget_def word_less_nat_alt split: if_splits)

text \<open>
  Every instruction keeps the well-formedness of the state, the size of the memory and the cycle
  counter, prints nothing, and makes well-typed calls of the trace.
\<close>

definition kept :: "arm_core \<Rightarrow> arm_core \<Rightarrow> bool" where
  "kept p q \<longleftrightarrow> core_wf q \<and> taille (mem q) = taille (mem p) \<and> cycle_count q = cycle_count p \<and>
     console q = console p \<and> logged p q"

lemma kept_refl: "core_wf p \<Longrightarrow> kept p p"
  by (simp add: kept_def)

lemma kept_trans [trans]: "kept p q \<Longrightarrow> kept q r \<Longrightarrow> kept p r"
  by (auto simp: kept_def intro: logged_trans)

lemma kept_wf: "kept p q \<Longrightarrow> core_wf q"
  by (simp add: kept_def)

lemma read_register_kept [wf_intros]:
  "arm_read_register p r = Some (v, q) \<Longrightarrow> core_wf p \<Longrightarrow> kept p q"
  by (auto simp: kept_def arm_read_register_def arm_read_register_internal_def bind_eq_Some_conv Let_def get_mode_wf
      dest: registers_read_bound [rotated])

lemma write_register_kept [wf_intros]:
  "arm_write_register p r v = Some q \<Longrightarrow> r < 16 \<Longrightarrow> core_wf p \<Longrightarrow> kept p q"
  by (auto simp: kept_def arm_write_register_wf word_less_nat_alt intro!: core_wf_set_reg)

lemma read_byte_kept [wf_intros]:
  "arm_read_byte p a v = Some (r, w, q) \<Longrightarrow> core_wf p \<Longrightarrow> kept p q"
  by (auto simp: kept_def arm_read_byte_def bind_eq_Some_conv)

lemma read_half_kept [wf_intros]:
  "arm_read_half p a v = Some (r, w, q) \<Longrightarrow> core_wf p \<Longrightarrow> kept p q"
  by (auto simp: kept_def arm_read_half_def bind_eq_Some_conv)

lemma read_word_kept [wf_intros]:
  "arm_read_word p a v = Some (r, w, q) \<Longrightarrow> core_wf p \<Longrightarrow> kept p q"
  by (auto simp: kept_def arm_read_word_def bind_eq_Some_conv)

lemma core_wf_mem_update: "core_wf p \<Longrightarrow> mem_wf m \<Longrightarrow> core_wf (p\<lparr>mem := m\<rparr>)"
  by (simp add: core_wf_def del: core_wf_sel)

lemma write_byte_kept [wf_intros]:
  "arm_write_byte p a v = Some (r, q) \<Longrightarrow> core_wf p \<Longrightarrow> kept p q"
  by (auto simp: kept_def arm_write_byte_def bind_eq_Some_conv dest!: write_byte_wf intro: core_wf_mem_update)

lemma write_half_kept [wf_intros]:
  "arm_write_half p a v = Some (r, q) \<Longrightarrow> core_wf p \<Longrightarrow> kept p q"
  by (auto simp: kept_def arm_write_half_def bind_eq_Some_conv dest!: write_half_wf intro: core_wf_mem_update)

lemma write_word_kept [wf_intros]:
  "arm_write_word p a v = Some (r, q) \<Longrightarrow> core_wf p \<Longrightarrow> kept p q"
  by (auto simp: kept_def arm_write_word_def bind_eq_Some_conv dest!: write_word_wf intro: core_wf_mem_update)

text \<open>
  A computation keeps what \<open>kept\<close> says when every result it returns does; one rule for each accessor,
  so that the operations are followed step by step.
\<close>

named_theorems keeps_rules \<open>rules that follow a computation\<close>

definition keeps :: "arm_core \<Rightarrow> ('a \<times> arm_core) option \<Rightarrow> bool" where
  "keeps p m \<longleftrightarrow> (\<forall>r q. m = Some (r, q) \<longrightarrow> kept p q)"

lemma keepsD: "keeps p m \<Longrightarrow> m = Some (r, q) \<Longrightarrow> kept p q"
  by (simp add: keeps_def)

lemma keeps_None [keeps_rules]: "keeps p None"
  by (simp add: keeps_def)

lemma keeps_Some [keeps_rules]: "kept p q \<Longrightarrow> keeps p (Some (r, q))"
  by (simp add: keeps_def)

lemma keeps_if [keeps_rules]: "keeps p m \<Longrightarrow> keeps p m' \<Longrightarrow> keeps p (if b then m else m')"
  by simp

lemma keeps_bind:
  assumes "keeps p m" "\<And>r q. kept p q \<Longrightarrow> keeps p (f (r, q))"
  shows "keeps p (Option.bind m f)"
  using assms by (auto simp: keeps_def bind_eq_Some_conv)

text \<open>A step on pure values.\<close>

lemma keeps_bind_value:
  assumes "\<And>v. m = Some v \<Longrightarrow> keeps p (f v)"
  shows "keeps p (Option.bind m f)"
  using assms by (cases m) (auto simp: keeps_def)

lemma keeps_read_register [keeps_rules]:
  assumes "kept p q" "\<And>v q'. kept p q' \<Longrightarrow> keeps p (f (v, q'))"
  shows "keeps p (Option.bind (arm_read_register q r) f)"
  using assms by (auto simp: keeps_def bind_eq_Some_conv) (metis kept_trans kept_wf read_register_kept)

lemma keeps_write_register [keeps_rules]:
  assumes "kept p q" "r < 16" "\<And>q'. kept p q' \<Longrightarrow> keeps p (f q')"
  shows "keeps p (Option.bind (arm_write_register q r v) f)"
  using assms by (auto simp: keeps_def bind_eq_Some_conv) (metis kept_trans kept_wf write_register_kept)

lemma keeps_bind_pair:
  assumes "kept p q" "\<And>r q'. m = Some (r, q') \<Longrightarrow> core_wf q \<Longrightarrow> kept q q'"
    "\<And>r q'. kept p q' \<Longrightarrow> keeps p (f (r, q'))"
  shows "keeps p (Option.bind m f)"
proof (rule keeps_bind)
  show "keeps p m"
    using assms(2) kept_trans [OF assms(1)] kept_wf [OF assms(1)] by (simp add: keeps_def)
qed (rule assms(3))

lemma keeps_bind_triple:
  assumes "kept p q" "\<And>r w q'. m = Some (r, w, q') \<Longrightarrow> core_wf q \<Longrightarrow> kept q q'"
    "\<And>r w q'. kept p q' \<Longrightarrow> keeps p (f (r, w, q'))"
  shows "keeps p (Option.bind m f)"
proof (cases m)
  case (Some x)
  obtain r w q' where "x = (r, w, q')" by (cases x)
  then show ?thesis
    using Some assms(3) assms(2) kept_trans [OF assms(1)] kept_wf [OF assms(1)] by simp
qed (simp add: keeps_def)

lemma keeps_read_memory [keeps_rules]:
  assumes "kept p q"
  shows "(\<And>r w q'. kept p q' \<Longrightarrow> keeps p (f (r, w, q'))) \<Longrightarrow> keeps p (Option.bind (arm_read_byte q a u8) f)"
    and "(\<And>r w q'. kept p q' \<Longrightarrow> keeps p (g (r, w, q'))) \<Longrightarrow> keeps p (Option.bind (arm_read_half q a u16) g)"
    and "(\<And>r w q'. kept p q' \<Longrightarrow> keeps p (h (r, w, q'))) \<Longrightarrow> keeps p (Option.bind (arm_read_word q a u32) h)"
  by (erule keeps_bind_triple [OF assms, rotated], erule (1) read_byte_kept read_half_kept read_word_kept)+

lemma keeps_write_memory [keeps_rules]:
  assumes "kept p q" "\<And>r q'. kept p q' \<Longrightarrow> keeps p (f (r, q'))"
  shows "keeps p (Option.bind (arm_write_byte q a b) f)"
    and "keeps p (Option.bind (arm_write_half q a h) f)"
    and "keeps p (Option.bind (arm_write_word q a w) f)"
  by (rule keeps_bind_pair, rule assms(1), erule (1) write_byte_kept write_half_kept write_word_kept, erule assms(2))+

end
