(* ===== verification/Arm_Exception.thy ===== *)
theory Arm_Exception
  imports Arm_Core
begin

text \<open>
  \<^verbatim>\<open>arm_exception.c\<close>, which handles the reset and the software interrupts inside the
  simulator, and \<open>arm_create\<close> of \<^verbatim>\<open>arm_core.c\<close>, which resets the processor it
  allocates.
\<close>

section \<open>The exception handler\<close>

definition CP15_reg1_EEbit :: u32 where "CP15_reg1_EEbit = 0"

definition Exception_bit_9 :: u32 where "Exception_bit_9 = push_bit 9 CP15_reg1_EEbit"

text \<open>
  \<open>putchar\<close> of the standard library, on the bytes printed so far.
\<close>

definition c_putchar :: "arm_core \<Rightarrow> u32 \<Rightarrow> arm_core" where
  "c_putchar p v = p\<lparr>console := console p @ [ucast v]\<rparr>"

text \<open>
  The argument \<open>u\<close> is the content of the uninitialised local \<open>instruction\<close>, which the code reads
  when the memory refuses the access. A \<open>switch\<close> case that is not listed falls through to the code
  after the switch.
\<close>

definition arm_exception :: "u32 \<Rightarrow> arm_core \<Rightarrow> u8 \<Rightarrow> (int \<times> arm_core) option" where
  "arm_exception u p exc = (
     let new_cpsr = 0x1d3 OR Exception_bit_9;
         rest = (\<lambda>p. if uint exc = RESET then do {
                     p \<leftarrow> arm_write_cpsr p new_cpsr;
                     p \<leftarrow> arm_write_register p 15 0;
                     Some (uint exc, p)
                   } else Some (uint exc, p))
     in if uint exc = SOFTWARE_INTERRUPT then do {
          (address, p) \<leftarrow> arm_read_register p 15;
          let address = address - 8;
          (_, instruction, p) \<leftarrow> arm_read_word p address u;
          let instruction = instruction AND 0xFFFFFF;
          if instruction = 0x123456 then Some (END_SIMULATION, p)
          else if instruction = 0x000001 then do {
            (v, p) \<leftarrow> arm_read_register p 0;
            Some (0, c_putchar p v)
          } else rest p
        } else rest p)"

text \<open>\<open>got\<close> tells whether \<open>malloc\<close> succeeds; the result of \<open>arm_exception\<close> is ignored.\<close>

definition arm_create :: "bool \<Rightarrow> u32 \<Rightarrow> registers \<Rightarrow> memory_data \<Rightarrow> arm_core option option" where
  "arm_create got u r m =
     (if got then do {
        let p = \<lparr>cycle_count = 0, reg = r, mem = m, trace = [], console = []\<rparr>;
        (_, p) \<leftarrow> arm_exception u p (word_of_int RESET);
        p \<leftarrow> arm_write_register p 13 (ucast (memory_get_size m));
        Some (Some p)
      } else Some None)"

section \<open>Lemmas\<close>

lemma c_putchar_sel [simp]:
  "cycle_count (c_putchar p v) = cycle_count p" "reg (c_putchar p v) = reg p"
  "mem (c_putchar p v) = mem p" "trace (c_putchar p v) = trace p"
  "console (c_putchar p v) = console p @ [ucast v]" "core_wf (c_putchar p v) = core_wf p"
  "gpr (c_putchar p v) i = gpr p i" "cpsr (c_putchar p v) = cpsr p"
  by (simp_all add: c_putchar_def core_wf_def gpr_def cpsr_def del: core_wf_sel)

lemma arm_read_word_frame:
  "arm_read_word p a v = Some (r, w, p') \<Longrightarrow>
   p' = log_call p (Trace_memory (cycle_count p) READ 4 OTHER_ACCESS a w) \<and>
   memory_read_word (mem p) a v ENDIANESS = Some (r, w)"
  by (auto simp: arm_read_word_def bind_eq_Some_conv)

lemma arm_exception_reset:
  assumes "core_wf p"
  shows "arm_exception u p 1 = Some (1,
    log_call (set_reg (log_call (set_cpsr p 0x1d3) (Trace_register (cycle_count p) WRITE CPSR 0 0x1d3))
      15 0) (Trace_register (cycle_count p) WRITE 15 SVC 0))"
  using assms
  by (simp add: arm_exception_def exception_defs Exception_bit_9_def CP15_reg1_EEbit_def core_simps)

lemma arm_exception_other:
  "uint exc \<noteq> RESET \<Longrightarrow> uint exc \<noteq> SOFTWARE_INTERRUPT \<Longrightarrow> arm_exception u p exc = Some (uint exc, p)"
  by (simp add: arm_exception_def)

lemma arm_exception_wf [wf_intros]:
  assumes wf: "core_wf p" and exc: "arm_exception u p exc = Some (r, p')"
  shows "core_wf p' \<and> taille (mem p') = taille (mem p)"
proof -
  consider "uint exc = RESET" | "uint exc = SOFTWARE_INTERRUPT"
    | "uint exc \<noteq> RESET" "uint exc \<noteq> SOFTWARE_INTERRUPT" by blast
  then show ?thesis
  proof cases
    case 1
    then have "exc = 1" by (simp add: RESET_def word_uint_eq_iff)
    with wf exc show ?thesis by (auto simp: arm_exception_reset)
  next
    case 2
    with wf exc show ?thesis
      by (auto simp: arm_exception_def bind_eq_Some_conv core_simps exception_defs Let_def
          dest!: arm_read_word_frame split: if_splits)
  next
    case 3
    with wf exc show ?thesis by (simp add: arm_exception_other)
  qed
qed

section \<open>Properties\<close>

text \<open>A processor with a sample memory, for the witnesses.\<close>

definition sample_core :: arm_core where
  "sample_core = \<lparr>cycle_count = 0, reg = registers_create True, mem = sample_mem, trace = [], console = []\<rparr>"

lemma sample_core_wf [simp]: "core_wf sample_core"
  by (simp add: core_wf_def sample_core_def registers_create_wf sample_mem_wf del: core_wf_sel)

lemma sample_core_regs [simp]: "gpr sample_core i = 0" "cpsr sample_core = 0"
  by (simp_all add: sample_core_def gpr_def cpsr_def regv_def registers_create_def NB_REGISTER_def)

lemma sample_core_mem [simp]: "mem sample_core = sample_mem"
  by (simp add: sample_core_def)

text \<open>
  A processor created on a register file and a memory is in the reset state of the ARM manual:
  supervisor mode with both interrupts disabled in the CPSR, program counter 0, all other general
  registers as they were, and the stack pointer at the end of the memory; nothing has been executed
  or printed and the memory is untouched. Reset needs no valid memory content and cannot fail.
\<close>

lemma arm_create_reset:
  assumes "regs_wf r" "mem_wf m"
  shows "\<exists>p. arm_create True u r m = Some (Some p) \<and> core_wf p \<and> cpsr p = 0x1d3 \<and> gpr p 15 = 0 \<and>
    unat (gpr p 13) = unat (taille m) \<and> (\<forall>i < 16. i \<noteq> 13 \<and> i \<noteq> 15 \<longrightarrow> gpr p i = regv r i) \<and>
    mem p = m \<and> cycle_count p = 0 \<and> console p = []"
proof -
  define p0 where "p0 = \<lparr>cycle_count = 0, reg = r, mem = m, trace = [], console = []\<rparr>"
  have wf: "core_wf p0" using assms by (simp add: core_wf_def p0_def del: core_wf_sel)
  have g: "gpr p0 i = regv r i" and c: "cpsr p0 = regv r 16" for i
    by (simp_all add: gpr_def cpsr_def p0_def)
  have f: "mem p0 = m" "cycle_count p0 = 0" "console p0 = []" by (simp_all add: p0_def)
  have "unat (taille m) < 2 ^ LENGTH(32)" using assms(2) by (auto elim: mem_wfE)
  then have "unat (ucast (taille m) :: u32) = unat (taille m)"
    by (simp add: unsigned_ucast_eq take_bit_nat_eq_self)
  moreover have "(0x1d3 :: u32) AND NOT CPSR_Reserved_Mask = 0x1d3"
    by (simp add: CPSR_Reserved_Mask_def)
  ultimately show ?thesis
    using wf by (simp add: arm_create_def RESET_def arm_exception_reset core_simps g c f
        memory_get_size_def flip: p0_def)
qed

lemma arm_create_reset_example:
  "\<exists>p. arm_create True 0 (registers_create True) sample_mem = Some (Some p) \<and> core_wf p \<and>
    cpsr p = 0x1d3 \<and> gpr p 15 = 0 \<and> unat (gpr p 13) = 8"
  using arm_create_reset [OF registers_create_wf sample_mem_wf(1), of 0]
  by (auto simp: sample_mem_wf)

end
