(* ===== verification/Arm_Conditions.thy ===== *)
theory Arm_Conditions
  imports Arm_Exception
begin

text \<open>
  \<^verbatim>\<open>arm_conditions.c\<close>: whether the condition field of an instruction holds for the
  flags in the CPSR.
\<close>

section \<open>The check\<close>

definition arm_check_cond :: "arm_core \<Rightarrow> u32 \<Rightarrow> (u8 \<times> arm_core) option" where
  "arm_check_cond p instruction = do {
     let cond = drop_bit 28 instruction AND 0xF;
     (v, p) \<leftarrow> arm_read_cpsr p;
     let nzcv = drop_bit 28 v AND 0xF;
     let neg = drop_bit 3 nzcv AND 0x1;
     let zero = drop_bit 2 nzcv AND 0x1;
     let carry = drop_bit 1 nzcv AND 0x1;
     let over = nzcv AND 0x1;
     Some (
       if cond = EQ then (if zero \<noteq> 0 then 1 else 0)
       else if cond = NE then (if zero = 0 then 1 else 0)
       else if cond = CS then (if carry \<noteq> 0 then 1 else 0)
       else if cond = CC then (if carry = 0 then 1 else 0)
       else if cond = MI then (if neg \<noteq> 0 then 1 else 0)
       else if cond = PL then (if neg = 0 then 1 else 0)
       else if cond = VS then (if over \<noteq> 0 then 1 else 0)
       else if cond = VC then (if over = 0 then 1 else 0)
       else if cond = HI then (if carry \<noteq> 0 \<and> zero = 0 then 1 else 0)
       else if cond = LS then (if carry = 0 \<or> zero \<noteq> 0 then 1 else 0)
       else if cond = GE then (if neg = over then 1 else 0)
       else if cond = LT then (if neg \<noteq> over then 1 else 0)
       else if cond = GT then (if zero = 0 \<and> neg = over then 1 else 0)
       else if cond = LE then (if zero \<noteq> 0 \<and> neg \<noteq> over then 1 else 0)
       else if cond = AL then 1
       else if cond = UN_cond then word_of_int UNDEFINED_INSTRUCTION
       else 0, p)
   }"

section \<open>The specification\<close>

text \<open>The flags of a status word, and the conditions as the comments of
  \<^verbatim>\<open>arm_conditions.h\<close> (and the ARM manual) give them.\<close>

definition flag_n :: "u32 \<Rightarrow> bool" where "flag_n s = bit s 31"
definition flag_z :: "u32 \<Rightarrow> bool" where "flag_z s = bit s 30"
definition flag_c :: "u32 \<Rightarrow> bool" where "flag_c s = bit s 29"
definition flag_v :: "u32 \<Rightarrow> bool" where "flag_v s = bit s 28"

lemmas flag_defs = flag_n_def flag_z_def flag_c_def flag_v_def

definition cond_field :: "u32 \<Rightarrow> u32" where
  "cond_field ins = drop_bit 28 ins"

definition cond_spec :: "u32 \<Rightarrow> u32 \<Rightarrow> bool" where
  "cond_spec cond s = (
     if cond = EQ then flag_z s
     else if cond = NE then \<not> flag_z s
     else if cond = CS then flag_c s
     else if cond = CC then \<not> flag_c s
     else if cond = MI then flag_n s
     else if cond = PL then \<not> flag_n s
     else if cond = VS then flag_v s
     else if cond = VC then \<not> flag_v s
     else if cond = HI then flag_c s \<and> \<not> flag_z s
     else if cond = LS then \<not> flag_c s \<or> flag_z s
     else if cond = GE then flag_n s = flag_v s
     else if cond = LT then flag_n s \<noteq> flag_v s
     else if cond = GT then \<not> flag_z s \<and> flag_n s = flag_v s
     else if cond = LE then flag_z s \<or> flag_n s \<noteq> flag_v s
     else cond = AL)"

lemma and_1_bit: "drop_bit n x AND 1 = of_bool (bit x n)" for x :: "'a::len word"
  by (simp add: and_one_eq odd_iff_mod_2_eq_one bit_iff_odd_drop_bit flip: mod_2_eq_odd)

lemma high_nibble: "drop_bit 28 (x :: u32) AND 0xF = drop_bit 28 x"
proof -
  have "drop_bit 28 x AND 0xF = take_bit 4 (drop_bit 28 x)"
    by (simp add: take_bit_eq_mask mask_eq_exp_minus_1)
  also have "\<dots> = drop_bit 28 x"
    by (rule bit_word_eqI) (auto simp: bit_simps dest: bit_imp_le_length)
  finally show ?thesis .
qed

text \<open>The flags the code extracts are the bits of the status word.\<close>

lemma nzcv_bits:
  "drop_bit 31 s AND 1 = (of_bool (flag_n s) :: u32)"
  "drop_bit 30 s AND 1 = (of_bool (flag_z s) :: u32)"
  "drop_bit 29 s AND 1 = (of_bool (flag_c s) :: u32)"
  "drop_bit 28 s AND 1 = (of_bool (flag_v s) :: u32)"
  by (simp_all add: flag_defs and_1_bit)

lemma of_bool_eq_word [simp]: "(of_bool a :: u32) = of_bool b \<longleftrightarrow> a = b"
  by (cases a; cases b) simp_all

lemma cond_field_cases:
  obtains "cond_field ins = EQ" | "cond_field ins = NE" | "cond_field ins = CS" | "cond_field ins = CC"
  | "cond_field ins = MI" | "cond_field ins = PL" | "cond_field ins = VS" | "cond_field ins = VC"
  | "cond_field ins = HI" | "cond_field ins = LS" | "cond_field ins = GE" | "cond_field ins = LT"
  | "cond_field ins = GT" | "cond_field ins = LE" | "cond_field ins = AL" | "cond_field ins = UN_cond"
proof -
  have "unat (cond_field ins) < 16"
  proof -
    have "unat ins < 2 ^ LENGTH(32)" by (rule unsigned_less)
    then show ?thesis unfolding cond_field_def unat_drop_bit_eq by (simp add: drop_bit_eq_div)
  qed
  then show thesis using that
    unfolding less_16_cases by (auto simp: cond_defs word_unat_eq_iff)
qed

text \<open>The result of the check, and its only effect, the traced read of the CPSR.\<close>

definition cond_value :: "u32 \<Rightarrow> u32 \<Rightarrow> u8" where
  "cond_value cond s = (
     if cond = LE then of_bool (flag_z s \<and> flag_n s \<noteq> flag_v s)
     else if cond = UN_cond then 7
     else of_bool (cond_spec cond s))"

lemma arm_check_cond_eq [core_simps]:
  assumes "core_wf p"
  shows "arm_check_cond p ins = Some (cond_value (cond_field ins) (cpsr p),
    log_call p (Trace_register (cycle_count p) READ CPSR 0 (cpsr p)))"
proof -
  have c: "drop_bit 28 ins AND 0xF = cond_field ins" by (simp add: cond_field_def high_nibble)
  show ?thesis
    unfolding arm_check_cond_def c
    using assms
    by (cases rule: cond_field_cases [of ins])
      (simp_all add: core_simps high_nibble nzcv_bits cond_value_def cond_spec_def cond_defs
        UNDEFINED_INSTRUCTION_def)
qed

section \<open>Properties\<close>

text \<open>
  (C18) For every instruction whose condition is neither LE nor the unconditional code, the check
  answers 1 exactly when the condition of the ARM manual holds for the flags of the CPSR, and 0
  otherwise; the check changes neither registers nor memory. The unconditional code answers 7.
\<close>

theorem check_cond_correct:
  assumes "core_wf p"
  shows "\<exists>v p'. arm_check_cond p ins = Some (v, p') \<and> reg p' = reg p \<and> mem p' = mem p \<and>
    (cond_field ins = UN_cond \<longrightarrow> v = 7) \<and>
    (cond_field ins \<notin> {LE, UN_cond} \<longrightarrow> v = (if cond_spec (cond_field ins) (cpsr p) then 1 else 0))"
  using assms by (simp add: arm_check_cond_eq cond_value_def) (simp add: cond_defs)

theorem check_cond_correct_witness:
  "\<exists>v p'. arm_check_cond sample_core 0xE0000000 = Some (v, p') \<and> v = 1"
  using check_cond_correct [OF sample_core_wf, of "0xE0000000"]
  by (auto simp: cond_field_def cond_spec_def cond_defs)

text \<open>
  The condition LE is checked as "Z set and N different from V", where the manual (and the
  comment in \<^verbatim>\<open>arm_conditions.h\<close>) says "or": the answer is wrong exactly when one of the
  two holds without the other, and it is then always 0, so the instruction is skipped.
\<close>

theorem check_cond_le_divergence:
  assumes "core_wf p" "cond_field ins = LE"
  shows "\<exists>v p'. arm_check_cond p ins = Some (v, p') \<and>
    (v = 1 \<longleftrightarrow> flag_z (cpsr p) \<and> flag_n (cpsr p) \<noteq> flag_v (cpsr p)) \<and>
    ((v = 1) \<noteq> cond_spec LE (cpsr p) \<longleftrightarrow>
       flag_z (cpsr p) \<noteq> (flag_n (cpsr p) \<noteq> flag_v (cpsr p)) \<and> v = 0)"
  using assms by (auto simp: arm_check_cond_eq cond_value_def cond_spec_def cond_defs)

theorem check_cond_le_divergence_witness:
  "cond_spec LE (cpsr (set_cpsr sample_core 0x40000000)) \<and>
   (\<exists>v p'. arm_check_cond (set_cpsr sample_core 0x40000000) 0xD0000000 = Some (v, p') \<and> v = 0)"
proof -
  let ?p = "set_cpsr sample_core 0x40000000"
  have c: "cpsr ?p = 0x40000000" by (simp add: CPSR_Reserved_Mask_def)
  have z: "flag_z 0x40000000" "\<not> flag_n 0x40000000" "\<not> flag_v 0x40000000"
    by (simp_all add: flag_defs bit_numeral_rec)
  have "\<exists>v p'. arm_check_cond ?p 0xD0000000 = Some (v, p') \<and>
    (v = 1 \<longleftrightarrow> flag_z (cpsr ?p) \<and> flag_n (cpsr ?p) \<noteq> flag_v (cpsr ?p)) \<and>
    ((v = 1) \<noteq> cond_spec LE (cpsr ?p) \<longleftrightarrow>
       flag_z (cpsr ?p) \<noteq> (flag_n (cpsr ?p) \<noteq> flag_v (cpsr ?p)) \<and> v = 0)"
    by (rule check_cond_le_divergence) (simp_all add: cond_field_def LE_def)
  then show ?thesis unfolding c using z by (auto simp: cond_spec_def cond_defs)
qed

end
