(* ===== verification/Arm_Data_Processing.thy ===== *)
theory Arm_Data_Processing
  imports Arm_Conditions
begin

text \<open>
  \<^verbatim>\<open>arm_data_processing.c\<close>: the flag update, the sixteen operations, the shifter
  operand in its register and immediate forms, and the two decoders. The parameters are those of the
  C functions; \<open>c\<close>, \<open>v\<close>, \<open>s\<close> and the register numbers are bytes, and \<open>v = 255\<close> asks for the
  flag V to be left alone.
\<close>

section \<open>Flags\<close>

definition UpdateCpsr :: "arm_core \<Rightarrow> u32 \<Rightarrow> u8 \<Rightarrow> u8 \<Rightarrow> u8 \<Rightarrow> u8 \<Rightarrow> arm_core option" where
  "UpdateCpsr p dest s rd c v = (
     let n = (ucast (drop_bit 31 dest AND 0x01) :: u8);
         z = ((if dest = 0 then 1 else 0) :: u8)
     in if s = 1 \<and> rd = 15 then
          (if arm_current_mode_has_spsr p \<noteq> 0 then do {
             (spsr, p) \<leftarrow> arm_read_spsr p;
             arm_write_cpsr p spsr
           } else Some p)
        else if s = 1 then do {
          (old, p) \<leftarrow> arm_read_cpsr p;
          let new_cpsr =
            (if v = 255 then
               (old AND 0x0FFFFFFF) OR push_bit 29 (ucast c) OR push_bit 31 (ucast n) OR
               push_bit 30 (ucast z)
             else
               (old AND 0x0FFFFFFF) OR push_bit 29 (ucast c) OR push_bit 31 (ucast n) OR
               push_bit 30 (ucast z) OR push_bit 28 (ucast v));
          arm_write_cpsr p new_cpsr
        } else Some p)"

definition CarryFromAdd :: "u32 \<Rightarrow> u32 \<Rightarrow> u64" where
  "CarryFromAdd a b = (let a2 = ucast a; b2 = ucast b; result = a2 + b2 in drop_bit 32 result AND 1)"

text \<open>
  \<open>__builtin_add_overflow\<close> and \<open>__builtin_sub_overflow\<close> on \<open>uint32_t\<close> operands and result: the
  wrapped result and whether the exact unsigned result does not fit.
\<close>

definition builtin_add_overflow :: "u32 \<Rightarrow> u32 \<Rightarrow> u32 \<times> u8" where
  "builtin_add_overflow a b = (a + b, if 2 ^ 32 \<le> unat a + unat b then 1 else 0)"

definition builtin_sub_overflow :: "u32 \<Rightarrow> u32 \<Rightarrow> u32 \<times> u8" where
  "builtin_sub_overflow a b = (a - b, if a < b then 1 else 0)"

section \<open>Operations\<close>

definition And :: "arm_core \<Rightarrow> u8 \<Rightarrow> u8 \<Rightarrow> u8 \<Rightarrow> u32 \<Rightarrow> u8 \<Rightarrow> (u32 \<times> arm_core) option" where
  "And p s rn rd op2 carry_out = do {
     (src, p) \<leftarrow> arm_read_register p rn;
     (dest, p) \<leftarrow> arm_read_register p rd;
     p \<leftarrow> UpdateCpsr p dest s rd carry_out (-1);
     Some (src AND op2, p)
   }"

definition Eor :: "arm_core \<Rightarrow> u8 \<Rightarrow> u8 \<Rightarrow> u8 \<Rightarrow> u32 \<Rightarrow> u8 \<Rightarrow> (u32 \<times> arm_core) option" where
  "Eor p s rn rd op2 carry_out = do {
     (src, p) \<leftarrow> arm_read_register p rn;
     (dest, p) \<leftarrow> arm_read_register p rd;
     p \<leftarrow> UpdateCpsr p dest s rd carry_out (-1);
     Some (src XOR op2, p)
   }"

definition Sub :: "arm_core \<Rightarrow> u8 \<Rightarrow> u8 \<Rightarrow> u8 \<Rightarrow> u32 \<Rightarrow> u8 \<Rightarrow> (u32 \<times> arm_core) option" where
  "Sub p s rn rd op2 carry_out = do {
     (src, p) \<leftarrow> arm_read_register p rn;
     (dest, p) \<leftarrow> arm_read_register p rd;
     let c = (if src < op2 then 0 else 1);
     let (dest, v) = builtin_sub_overflow src op2;
     p \<leftarrow> UpdateCpsr p dest s rd c v;
     Some (dest, p)
   }"

definition Rsb :: "arm_core \<Rightarrow> u8 \<Rightarrow> u8 \<Rightarrow> u8 \<Rightarrow> u32 \<Rightarrow> u8 \<Rightarrow> (u32 \<times> arm_core) option" where
  "Rsb p s rn rd op2 carry_out = do {
     (src, p) \<leftarrow> arm_read_register p rn;
     (dest, p) \<leftarrow> arm_read_register p rd;
     let c = (if op2 < src then 0 else 1);
     let (dest, v) = builtin_sub_overflow op2 src;
     p \<leftarrow> UpdateCpsr p dest s rd c v;
     Some (dest, p)
   }"

definition Add :: "arm_core \<Rightarrow> u8 \<Rightarrow> u8 \<Rightarrow> u8 \<Rightarrow> u32 \<Rightarrow> u8 \<Rightarrow> (u32 \<times> arm_core) option" where
  "Add p s rn rd op2 carry_out = do {
     (src, p) \<leftarrow> arm_read_register p rn;
     (dest, p) \<leftarrow> arm_read_register p rd;
     let c = ucast (CarryFromAdd src op2);
     let (dest, v) = builtin_add_overflow src op2;
     p \<leftarrow> UpdateCpsr p dest s rd c v;
     Some (dest, p)
   }"

definition Adc :: "arm_core \<Rightarrow> u8 \<Rightarrow> u8 \<Rightarrow> u8 \<Rightarrow> u32 \<Rightarrow> u8 \<Rightarrow> (u32 \<times> arm_core) option" where
  "Adc p s rn rd op2 carry_out = do {
     (src, p) \<leftarrow> arm_read_register p rn;
     (dest, p) \<leftarrow> arm_read_register p rd;
     (st, p) \<leftarrow> arm_read_cpsr p;
     let carry = (ucast (drop_bit 29 st AND 0x01) :: u8);
     let c = ucast (CarryFromAdd src (op2 + ucast carry));
     let (dest, v) = builtin_add_overflow src (op2 + ucast carry);
     p \<leftarrow> UpdateCpsr p dest s rd c v;
     Some (src + op2 + ucast carry, p)
   }"

definition Sbc :: "arm_core \<Rightarrow> u8 \<Rightarrow> u8 \<Rightarrow> u8 \<Rightarrow> u32 \<Rightarrow> u8 \<Rightarrow> (u32 \<times> arm_core) option" where
  "Sbc p s rn rd op2 carry_out = do {
     (src, p) \<leftarrow> arm_read_register p rn;
     (dest, p) \<leftarrow> arm_read_register p rd;
     (st, p) \<leftarrow> arm_read_cpsr p;
     let notCarry = (ucast (drop_bit 29 st AND 0x01) :: u8);
     let notCarry = NOT notCarry AND 0x01;
     let c = (if src < op2 - ucast notCarry then 0 else 1);
     let (dest, v) = builtin_sub_overflow src (op2 - NOT (ucast notCarry));
     p \<leftarrow> UpdateCpsr p dest s rd c v;
     Some (src - op2 - ucast notCarry, p)
   }"

definition Rsc :: "arm_core \<Rightarrow> u8 \<Rightarrow> u8 \<Rightarrow> u8 \<Rightarrow> u32 \<Rightarrow> u8 \<Rightarrow> (u32 \<times> arm_core) option" where
  "Rsc p s rn rd op2 carry_out = do {
     (src, p) \<leftarrow> arm_read_register p rn;
     (dest, p) \<leftarrow> arm_read_register p rd;
     (st, p) \<leftarrow> arm_read_cpsr p;
     let NotCarry = (ucast (drop_bit 29 st AND 0x01) :: u8);
     let NotCarry = NOT NotCarry AND 0x01;
     let c = (if op2 < src - ucast NotCarry then 0 else 1);
     let (dest, v) = builtin_sub_overflow op2 (src - NOT (ucast NotCarry));
     p \<leftarrow> UpdateCpsr p dest s rd c v;
     Some (op2 - src - ucast NotCarry, p)
   }"

definition Tst :: "arm_core \<Rightarrow> u8 \<Rightarrow> u8 \<Rightarrow> u8 \<Rightarrow> u32 \<Rightarrow> u8 \<Rightarrow> arm_core option" where
  "Tst p s rn rd op2 carry_out = do {
     (src, p) \<leftarrow> arm_read_register p rn;
     UpdateCpsr p (src AND op2) 1 0 carry_out (-1)
   }"

definition Teq :: "arm_core \<Rightarrow> u8 \<Rightarrow> u8 \<Rightarrow> u8 \<Rightarrow> u32 \<Rightarrow> u8 \<Rightarrow> arm_core option" where
  "Teq p s rn rd op2 carry_out = do {
     (src, p) \<leftarrow> arm_read_register p rn;
     UpdateCpsr p (src XOR op2) 1 0 carry_out (-1)
   }"

definition Cmp :: "arm_core \<Rightarrow> u8 \<Rightarrow> u8 \<Rightarrow> u8 \<Rightarrow> u32 \<Rightarrow> u8 \<Rightarrow> arm_core option" where
  "Cmp p s rn rd op2 carry_out = do {
     (src, p) \<leftarrow> arm_read_register p rn;
     let c = (if src < op2 then 0 else 1);
     let (alu_out, v) = builtin_sub_overflow src op2;
     UpdateCpsr p alu_out 1 0 c v
   }"

definition Cmn :: "arm_core \<Rightarrow> u8 \<Rightarrow> u8 \<Rightarrow> u8 \<Rightarrow> u32 \<Rightarrow> u8 \<Rightarrow> arm_core option" where
  "Cmn p s rn rd op2 carry_out = do {
     (src, p) \<leftarrow> arm_read_register p rn;
     let c = ucast (CarryFromAdd src op2);
     let (alu_out, v) = builtin_add_overflow src op2;
     UpdateCpsr p alu_out 1 0 c v
   }"

definition Orr :: "arm_core \<Rightarrow> u8 \<Rightarrow> u8 \<Rightarrow> u8 \<Rightarrow> u32 \<Rightarrow> u8 \<Rightarrow> (u32 \<times> arm_core) option" where
  "Orr p s rn rd op2 carry_out = do {
     (src, p) \<leftarrow> arm_read_register p rn;
     (_, p) \<leftarrow> arm_read_register p rd;
     let dest = src OR op2;
     p \<leftarrow> UpdateCpsr p dest s rd carry_out (-1);
     Some (dest, p)
   }"

definition Mov :: "arm_core \<Rightarrow> u8 \<Rightarrow> u8 \<Rightarrow> u8 \<Rightarrow> u32 \<Rightarrow> u8 \<Rightarrow> (u32 \<times> arm_core) option" where
  "Mov p s rn rd op2 carry_out = do {
     (_, p) \<leftarrow> arm_read_register p rd;
     let dest = op2;
     p \<leftarrow> UpdateCpsr p dest s rd carry_out (-1);
     Some (dest, p)
   }"

definition Bic :: "arm_core \<Rightarrow> u8 \<Rightarrow> u8 \<Rightarrow> u8 \<Rightarrow> u32 \<Rightarrow> u8 \<Rightarrow> (u32 \<times> arm_core) option" where
  "Bic p s rn rd op2 carry_out = do {
     (src, p) \<leftarrow> arm_read_register p rn;
     (_, p) \<leftarrow> arm_read_register p rd;
     let dest = src AND NOT op2;
     p \<leftarrow> UpdateCpsr p dest s rd carry_out (-1);
     Some (dest, p)
   }"

definition Mvn :: "arm_core \<Rightarrow> u8 \<Rightarrow> u8 \<Rightarrow> u8 \<Rightarrow> u32 \<Rightarrow> u8 \<Rightarrow> (u32 \<times> arm_core) option" where
  "Mvn p s rn rd op2 carry_out = do {
     (_, p) \<leftarrow> arm_read_register p rd;
     let dest = NOT op2;
     p \<leftarrow> UpdateCpsr p dest s rd carry_out (-1);
     Some (dest, p)
   }"

section \<open>Shifter operand\<close>

text \<open>\<open>get_bit(arm_read_register(p, rm), i)\<close>, stored in a byte.\<close>

definition register_bit :: "arm_core \<Rightarrow> u32 \<Rightarrow> int \<Rightarrow> (u8 \<times> arm_core) option" where
  "register_bit p rm i = do {
     (v, p) \<leftarrow> arm_read_register p (ucast rm);
     b \<leftarrow> get_bit v i;
     Some (ucast b, p)
   }"

text \<open>The two halves of \<open>shift\<close>: an immediate shift amount, and one from a register.
  The result is the value, the carry output and the processor.\<close>

definition shift_immediate :: "arm_core \<Rightarrow> u32 \<Rightarrow> u32 \<Rightarrow> u8 \<Rightarrow> (u32 \<times> u8 \<times> arm_core) option" where
  "shift_immediate p ins rm carry = do {
     let mode = (ucast (drop_bit 5 ins AND 0x03) :: u8);
     let reg_imm = (ucast (drop_bit 7 ins AND 0x1F) :: u8);
     (v, p) \<leftarrow> arm_read_register p (ucast rm);
     if mode = 0 \<and> reg_imm = 0 then Some (v, carry, p)
     else if mode = LSL then do {
       v \<leftarrow> shl32 v (uint reg_imm);
       if reg_imm = 0 then Some (0, carry, p)
       else do { (co, p) \<leftarrow> register_bit p rm (32 - uint reg_imm); Some (v, co, p) }
     }
     else if mode = LSR then do {
       v \<leftarrow> shr32 v (uint reg_imm);
       (co, p) \<leftarrow> (if reg_imm = 0 then register_bit p rm 31 else register_bit p rm (uint reg_imm - 1));
       Some (v, co, p)
     }
     else if mode = ASR then do {
       v \<leftarrow> asr v reg_imm;
       if reg_imm = 0 then do {
         (b, p) \<leftarrow> register_bit p rm 31;
         let v = (if b = 0 then 0 else 0xFFFFFFFF);
         (co, p) \<leftarrow> register_bit p rm 31;
         Some (v, co, p)
       } else do { (co, p) \<leftarrow> register_bit p rm (uint reg_imm - 1); Some (v, co, p) }
     }
     else if mode = ROR then
       (if reg_imm \<noteq> 0 then do {
          v \<leftarrow> ror v reg_imm;
          (co, p) \<leftarrow> register_bit p rm (uint reg_imm - 1);
          Some (v, co, p)
        } else do {
          let v = drop_bit 1 v OR push_bit 31 (ucast carry);
          (co, p) \<leftarrow> register_bit p rm 0;
          Some (v, co, p)
        })
     else Some (0, 0, p)
   }"

definition shift_register :: "arm_core \<Rightarrow> u32 \<Rightarrow> u32 \<Rightarrow> u8 \<Rightarrow> (u32 \<times> u8 \<times> arm_core) option" where
  "shift_register p ins rm carry = do {
     let mode = (ucast (drop_bit 5 ins AND 0x03) :: u8);
     let rs = (ucast (drop_bit 8 ins AND 0x0F) :: u8);
     (v, p) \<leftarrow> arm_read_register p (ucast rm);
     (amount, p) \<leftarrow> arm_read_register p rs;
     let reg_imm = (ucast amount :: u8);
     if mode = LSL then do {
       v \<leftarrow> shl32 v (uint reg_imm);
       (co, p) \<leftarrow> (if reg_imm = 0 then Some (carry, p)
         else if reg_imm < 32 then register_bit p rm (32 - uint reg_imm)
         else if reg_imm = 32 then register_bit p rm 0
         else Some (0, p));
       Some (v, co, p)
     }
     else if mode = LSR then do {
       v \<leftarrow> shr32 v (uint reg_imm);
       (co, p) \<leftarrow> (if reg_imm = 0 then Some (carry, p)
         else if reg_imm < 32 then register_bit p rm (uint reg_imm - 1)
         else if reg_imm = 32 then register_bit p rm 31
         else Some (0, p));
       Some (v, co, p)
     }
     else if mode = ASR then do {
       v \<leftarrow> asr v reg_imm;
       (co, p) \<leftarrow> (if reg_imm = 0 then Some (carry, p)
         else if reg_imm < 32 then register_bit p rm (uint reg_imm - 1)
         else Some (0, p));
       Some (v, co, p)
     }
     else if mode = ROR then do {
       v \<leftarrow> ror v reg_imm;
       (co, p) \<leftarrow> (if reg_imm = 0 then Some (carry, p)
         else if reg_imm AND (if (0x1F :: u8) = 0 then 1 else 0) \<noteq> 0 then register_bit p rm 31
         else register_bit p rm (uint (reg_imm AND 0x0F) - 1));
       Some (v, co, p)
     }
     else Some (0, 0, p)
   }"

definition shift :: "arm_core \<Rightarrow> u32 \<Rightarrow> (u32 \<times> u8 \<times> arm_core) option" where
  "shift p ins = do {
     let rm = ins AND 0x0F;
     let shift = (ucast (drop_bit 4 ins AND 0x01) :: u8);
     (st, p) \<leftarrow> arm_read_cpsr p;
     let carry = (ucast (drop_bit 29 st AND 0x01) :: u8);
     if shift = 0 then shift_immediate p ins rm carry else shift_register p ins rm carry
   }"

text \<open>The rotated immediate; the name \<open>rotate\<close> is taken by the list library.\<close>

definition rotate_immediate :: "arm_core \<Rightarrow> u32 \<Rightarrow> (u32 \<times> u8 \<times> arm_core) option" where
  "rotate_immediate p ins = do {
     let immed_8 = (ucast (ins AND 0xFF) :: u8);
     let rotate_imm = (ucast (drop_bit 8 ins AND 0x0F) :: u8);
     lo \<leftarrow> shr32 (ucast immed_8) (2 * uint rotate_imm);
     hi \<leftarrow> shl32 (ucast immed_8) (32 - 2 * uint rotate_imm);
     let immediate = lo OR hi;
     if rotate_imm = 0 then do {
       (st, p) \<leftarrow> arm_read_cpsr p;
       b \<leftarrow> get_bit st 29;
       Some (immediate, ucast b, p)
     } else do {
       b \<leftarrow> get_bit immediate 31;
       Some (immediate, ucast b, p)
     }
   }"

section \<open>Decoding\<close>

text \<open>The \<open>switch\<close> on the opcode, the same in both decoders.\<close>

definition write_result :: "u8 \<Rightarrow> (u32 \<times> arm_core) option \<Rightarrow> (int \<times> arm_core) option" where
  "write_result rd m = do { (v, p) \<leftarrow> m; p \<leftarrow> arm_write_register p rd v; Some (0, p) }"

definition only_flags :: "arm_core option \<Rightarrow> (int \<times> arm_core) option" where
  "only_flags m = do { p \<leftarrow> m; Some (0, p) }"

definition alu_dispatch ::
  "arm_core \<Rightarrow> u8 \<Rightarrow> u8 \<Rightarrow> u8 \<Rightarrow> u8 \<Rightarrow> u32 \<Rightarrow> u8 \<Rightarrow> (int \<times> arm_core) option" where
  "alu_dispatch p opcode s rn rd op2 co = (
     if opcode = 0x0 then write_result rd (And p s rn rd op2 co)
     else if opcode = 0x1 then write_result rd (Eor p s rn rd op2 co)
     else if opcode = 0x2 then write_result rd (Sub p s rn rd op2 co)
     else if opcode = 0x3 then write_result rd (Rsb p s rn rd op2 co)
     else if opcode = 0x4 then write_result rd (Add p s rn rd op2 co)
     else if opcode = 0x5 then write_result rd (Adc p s rn rd op2 co)
     else if opcode = 0x6 then write_result rd (Sbc p s rn rd op2 co)
     else if opcode = 0x7 then write_result rd (Rsc p s rn rd op2 co)
     else if opcode = 0x8 then only_flags (Tst p s rn rd op2 co)
     else if opcode = 0x9 then only_flags (Teq p s rn rd op2 co)
     else if opcode = 0xA then only_flags (Cmp p s rn rd op2 co)
     else if opcode = 0xB then only_flags (Cmn p s rn rd op2 co)
     else if opcode = 0xC then write_result rd (Orr p s rn rd op2 co)
     else if opcode = 0xD then write_result rd (Mov p s rn rd op2 co)
     else if opcode = 0xE then write_result rd (Bic p s rn rd op2 co)
     else if opcode = 0xF then write_result rd (Mvn p s rn rd op2 co)
     else Some (UNDEFINED_INSTRUCTION, p))"

definition arm_data_processing_shift :: "arm_core \<Rightarrow> u32 \<Rightarrow> (int \<times> arm_core) option" where
  "arm_data_processing_shift p ins = do {
     let opcode = ucast (drop_bit 21 ins AND 0x0F);
     let rn = ucast (drop_bit 16 ins AND 0x0F);
     let rd = ucast (drop_bit 12 ins AND 0x0F);
     let s = ucast (drop_bit 20 ins AND 0x01);
     (rm, carry_out, p) \<leftarrow> shift p ins;
     alu_dispatch p opcode s rn rd rm carry_out
   }"

definition arm_data_processing_immediate_msr :: "arm_core \<Rightarrow> u32 \<Rightarrow> (int \<times> arm_core) option" where
  "arm_data_processing_immediate_msr p ins = do {
     let opcode = ucast (drop_bit 21 ins AND 0x0F);
     let rn = ucast (drop_bit 16 ins AND 0x0F);
     let rd = ucast (drop_bit 12 ins AND 0x0F);
     let s = ucast (drop_bit 20 ins AND 0x01);
     (immediate, carry_out, p) \<leftarrow> rotate_immediate p ins;
     alu_dispatch p opcode s rn rd immediate carry_out
   }"

end
