(* ===== verification/Arm_Alu_Facts.thy ===== *)
theory Arm_Alu_Facts
  imports Arm_Data_Processing
begin

text \<open>
  What the data-processing operations compute: the flag update as a function of the status
  word, one normal form for the sixteen operations, and the properties of results and flags against
  the ARM manual.
\<close>

section \<open>The flag update\<close>

text \<open>The status word \<open>UpdateCpsr\<close> builds; \<open>v = 255\<close> leaves the bit of V at 0.\<close>

definition status_word :: "u32 \<Rightarrow> u32 \<Rightarrow> u8 \<Rightarrow> u8 \<Rightarrow> u32" where
  "status_word old dest c v =
     ((old AND 0x0FFFFFFF) OR push_bit 29 (ucast c) OR push_bit 31 (of_bool (bit dest 31)) OR
      push_bit 30 (of_bool (dest = 0)) OR (if v = 255 then 0 else push_bit 28 (ucast v)))
     AND NOT CPSR_Reserved_Mask"

definition upd_cpsr :: "arm_core \<Rightarrow> u32 \<Rightarrow> u8 \<Rightarrow> u8 \<Rightarrow> u8 \<Rightarrow> u8 \<Rightarrow> arm_core" where
  "upd_cpsr p dest s rd c v = the (UpdateCpsr p dest s rd c v)"

definition cpsr_after :: "u32 \<Rightarrow> u32 \<Rightarrow> u8 \<Rightarrow> u8 \<Rightarrow> u8 \<Rightarrow> u8 \<Rightarrow> u32" where
  "cpsr_after old dest s rd c v =
     (if s = 1 \<and> rd = 15 then NOT CPSR_Reserved_Mask
      else if s = 1 then status_word old dest c v else old)"

lemma UpdateCpsr_eval:
  assumes "core_wf p"
  shows "\<exists>p'. UpdateCpsr p dest s rd c v = Some p' \<and> core_wf p' \<and> mem p' = mem p \<and>
    cycle_count p' = cycle_count p \<and> console p' = console p \<and> (\<forall>i. i \<noteq> 16 \<longrightarrow> gpr p' i = gpr p i) \<and>
    cpsr p' = cpsr_after (cpsr p) dest s rd c v"
proof -
  have "ucast (drop_bit 31 dest AND 0x01 :: u32) = (of_bool (bit dest 31) :: u8)"
    by (simp add: and_1_bit)
  then show ?thesis using assms
    by (auto simp: UpdateCpsr_def core_simps cpsr_after_def status_word_def Let_def)
qed

lemma upd_cpsr:
  assumes "core_wf p"
  shows "UpdateCpsr p dest s rd c v = Some (upd_cpsr p dest s rd c v)"
    and "core_wf (upd_cpsr p dest s rd c v)"
    and "mem (upd_cpsr p dest s rd c v) = mem p"
    and "cycle_count (upd_cpsr p dest s rd c v) = cycle_count p"
    and "console (upd_cpsr p dest s rd c v) = console p"
    and "i \<noteq> 16 \<Longrightarrow> gpr (upd_cpsr p dest s rd c v) i = gpr p i"
    and "cpsr (upd_cpsr p dest s rd c v) = cpsr_after (cpsr p) dest s rd c v"
  using UpdateCpsr_eval [OF assms, of dest s rd c v] by (auto simp: upd_cpsr_def)

text \<open>The flags of the status word.\<close>

lemma bit_reserved:
  "bit CPSR_Reserved_Mask n \<longleftrightarrow> 10 \<le> n \<and> n < 16 \<or> 20 \<le> n \<and> n < 24"
proof -
  have m: "CPSR_Reserved_Mask = push_bit 10 (mask 6) OR push_bit 20 (mask 4)"
    by (simp add: CPSR_Reserved_Mask_def mask_eq_exp_minus_1)
  show ?thesis unfolding m by (auto simp: bit_simps)
qed

lemma bit_0FFFFFFF: "bit (0x0FFFFFFF :: u32) n \<longleftrightarrow> n < 28"
proof -
  have m: "(0x0FFFFFFF :: u32) = mask 28" by (simp add: mask_eq_exp_minus_1)
  show ?thesis unfolding m by (auto simp: bit_mask_iff)
qed

lemma status_word_flags:
  assumes "v = 255 \<or> v = of_bool vb"
  shows "flag_n (status_word old dest (of_bool cb) v) = bit dest 31"
    and "flag_z (status_word old dest (of_bool cb) v) = (dest = 0)"
    and "flag_c (status_word old dest (of_bool cb) v) = cb"
    and "flag_v (status_word old dest (of_bool cb) v) = (v \<noteq> 255 \<and> vb)"
  using assms
  by (auto simp: status_word_def flag_defs bit_simps bit_reserved bit_0FFFFFFF
      simp del: bit_numeral_word_iff)

lemma status_word_low:
  assumes "old AND CPSR_Reserved_Mask = 0" "n < 28" "v = 255 \<or> v = of_bool vb"
  shows "bit (status_word old dest (of_bool cb) v) n = bit old n"
proof -
  have "\<not> (bit old n \<and> bit CPSR_Reserved_Mask n)"
    using assms(1) by (metis bit_0_eq bit_and_iff bot_apply bot_bool_def)
  then show ?thesis using assms(2,3)
    by (auto simp: status_word_def bit_simps bit_0FFFFFFF simp del: bit_numeral_word_iff)
qed

section \<open>The sixteen operations\<close>

text \<open>
  The table of the ARM manual: the value of each operation for the operand register \<open>a\<close>, the shifter
  operand \<open>b\<close> and the carry flag \<open>k\<close> (0 or 1), in the order of the opcodes. Opcodes 8 to 11 only set
  the flags.
\<close>

definition manual_result :: "u8 \<Rightarrow> u32 \<Rightarrow> u32 \<Rightarrow> u32 \<Rightarrow> u32" where
  "manual_result opcode a b k =
     [a AND b, a XOR b, a - b, b - a, a + b, a + b + k, a - b - (1 - k), b - a - (1 - k),
      a AND b, a XOR b, a - b, a + b, a OR b, b, a AND NOT b, NOT b] ! unat opcode"

definition is_test :: "u8 \<Rightarrow> bool" where
  "is_test opcode \<longleftrightarrow> 8 \<le> unat opcode \<and> unat opcode < 12"

text \<open>
  The value, the carry and the overflow that the code passes to \<open>UpdateCpsr\<close>; \<open>d\<close> is the content
  of the destination register before the instruction, \<open>co\<close> the carry output of the shifter.
\<close>

definition flag_args :: "u8 \<Rightarrow> u32 \<Rightarrow> u32 \<Rightarrow> u32 \<Rightarrow> u8 \<Rightarrow> u32 \<Rightarrow> u32 \<times> u8 \<times> u8" where
  "flag_args opcode a d b co k = (
     let carries = (\<lambda>x. of_bool (2 ^ 32 \<le> unat a + unat x));
         n = 1 - k
     in [(d, co, 255), (d, co, 255),
         (a - b, of_bool (\<not> a < b), of_bool (a < b)),
         (b - a, of_bool (\<not> b < a), of_bool (b < a)),
         (a + b, carries b, carries b),
         (a + (b + k), carries (b + k), carries (b + k)),
         (a - (b - NOT n), of_bool (\<not> a < b - n), of_bool (a < b - NOT n)),
         (b - (a - NOT n), of_bool (\<not> b < a - n), of_bool (b < a - NOT n)),
         (a AND b, co, 255), (a XOR b, co, 255),
         (a - b, of_bool (\<not> a < b), of_bool (a < b)),
         (a + b, carries b, carries b),
         (a OR b, co, 255), (b, co, 255), (a AND NOT b, co, 255), (NOT b, co, 255)] ! unat opcode)"

definition carry_word :: "arm_core \<Rightarrow> u32" where
  "carry_word p = of_bool (flag_c (cpsr p))"

lemma CarryFromAdd_eq: "ucast (CarryFromAdd a b) = (of_bool (2 ^ 32 \<le> unat a + unat b) :: u8)"
proof -
  have lt: "unat a < 2 ^ LENGTH(32)" "unat b < 2 ^ LENGTH(32)" by (rule unsigned_less)+
  have s: "unat (ucast a + ucast b :: u64) = unat a + unat b"
    using lt by (simp add: unat_word_ariths)
  have "unat (drop_bit 32 (ucast a + ucast b :: u64)) = (unat a + unat b) div 2 ^ 32"
    unfolding unat_drop_bit_eq s by (simp add: drop_bit_eq_div)
  also have "\<dots> = of_bool (2 ^ 32 \<le> unat a + unat b)"
    using lt by (auto simp: div_nat_eqI)
  finally have "drop_bit 32 (ucast a + ucast b :: u64) = of_bool (2 ^ 32 \<le> unat a + unat b)"
    by (simp add: word_unat_eq_iff)
  then show ?thesis by (simp add: CarryFromAdd_def Let_def)
qed

lemma opcode_cases:
  assumes "(opcode :: u8) < 16"
  shows "opcode = 0 \<or> opcode = 1 \<or> opcode = 2 \<or> opcode = 3 \<or> opcode = 4 \<or> opcode = 5 \<or>
    opcode = 6 \<or> opcode = 7 \<or> opcode = 8 \<or> opcode = 9 \<or> opcode = 10 \<or> opcode = 11 \<or>
    opcode = 12 \<or> opcode = 13 \<or> opcode = 14 \<or> opcode = 15"
proof -
  have "unat opcode < 16" using assms by (simp add: word_less_nat_alt)
  then show ?thesis unfolding less_16_cases by (auto simp: word_unat_eq_iff)
qed

lemma carry_byte:
  "(ucast (of_bool b :: u32) :: u8) = of_bool b"
  by simp

lemma minus_1_u8: "(- 1 :: u8) = 255"
  by simp

lemma not_carry_byte:
  "(ucast (NOT (of_bool b :: u8) AND 1) :: u32) = 1 - of_bool b"
  by (cases b) simp_all

lemma of_bool_word: "(if b then 0 else 1) = (of_bool (\<not> b) :: u8)" "(if b then 1 else 0) = (of_bool b :: u8)"
  by simp_all

text \<open>Every opcode does the same: it sets the flags from its arguments and writes its value.\<close>

lemma alu_dispatch_eval:
  assumes wf: "core_wf p" and "rn < 16" "rd < 16" "opcode < 16"
    and f: "(dest, c, v) = flag_args opcode (read_value p rn) (read_value p rd) op2 co (carry_word p)"
  shows "\<exists>p'. alu_dispatch p opcode s rn rd op2 co = Some (0, p') \<and> core_wf p' \<and> mem p' = mem p \<and>
    cycle_count p' = cycle_count p \<and> console p' = console p \<and>
    (\<forall>i < 16. gpr p' i = (if i = unat rd \<and> \<not> is_test opcode
       then manual_result opcode (read_value p rn) op2 (carry_word p) else gpr p i)) \<and>
    cpsr p' = cpsr_after (cpsr p) dest (if is_test opcode then 1 else s)
      (if is_test opcode then 0 else rd) c v"
proof -
  have rd: "unat rd < 16" "unat rd \<noteq> 16"
    using assms(3) by (simp_all add: word_less_nat_alt)
  show ?thesis
    using opcode_cases [OF assms(4)] assms(1-3) f rd
    by (elim disjE; simp add: alu_dispatch_def flag_args_def manual_result_def is_test_def)
      (simp_all add: write_result_def only_flags_def core_simps upd_cpsr minus_1_u8
        of_bool_word nzcv_bits not_carry_byte Let_def
        And_def Eor_def Sub_def Rsb_def Add_def Adc_def Sbc_def Rsc_def Tst_def Teq_def Cmp_def
        Cmn_def Orr_def Mov_def Bic_def Mvn_def carry_word_def
        CarryFromAdd_eq builtin_add_overflow_def builtin_sub_overflow_def)
qed

lemma cpsr_after_s [simp]: "rd \<noteq> 15 \<Longrightarrow> cpsr_after old dest 1 rd c v = status_word old dest c v"
  by (simp add: cpsr_after_def)

text \<open>The flags after an operation that sets them, from the arguments of the update.\<close>

lemma alu_flags_eval:
  assumes "core_wf p" "rn < 16" "rd < 16" "opcode < 16" "rd \<noteq> 15 \<or> is_test opcode" "s = 1 \<or> is_test opcode"
    and f: "(dest, of_bool cb, v) = flag_args opcode (read_value p rn) (read_value p rd) op2 co (carry_word p)"
    and v: "v = 255 \<or> v = of_bool vb"
  obtains p' where "alu_dispatch p opcode s rn rd op2 co = Some (0, p')" "core_wf p'"
    "flag_n (cpsr p') = bit dest 31" "flag_z (cpsr p') = (dest = 0)" "flag_c (cpsr p') = cb"
    "flag_v (cpsr p') = (v \<noteq> 255 \<and> vb)"
    "is_test opcode \<or> gpr p' (unat rd) = manual_result opcode (read_value p rn) op2 (carry_word p)"
proof -
  obtain p' where p': "alu_dispatch p opcode s rn rd op2 co = Some (0, p')" "core_wf p'"
    "\<forall>i < 16. gpr p' i = (if i = unat rd \<and> \<not> is_test opcode
       then manual_result opcode (read_value p rn) op2 (carry_word p) else gpr p i)"
    "cpsr p' = cpsr_after (cpsr p) dest (if is_test opcode then 1 else s)
      (if is_test opcode then 0 else rd) (of_bool cb) v"
    using alu_dispatch_eval [OF assms(1-4) f, of s] by blast
  have c: "cpsr p' = status_word (cpsr p) dest (of_bool cb) v"
    using assms(5,6) p'(4) by auto
  have "unat rd < 16" using assms(3) by (simp add: word_less_nat_alt)
  with p'(3) have "is_test opcode \<or> gpr p' (unat rd) = manual_result opcode (read_value p rn) op2 (carry_word p)"
    by simp
  then show thesis by (intro that [OF p'(1,2)]) (simp_all only: c status_word_flags [OF v])
qed

section \<open>Properties of the flags\<close>

text \<open>The opcodes whose flags N, Z and C follow the manual, and the carry the manual gives them.\<close>

definition flag_opcodes :: "u8 set" where
  "flag_opcodes = {2, 3, 4, 8, 9, 10, 11, 12, 13, 14, 15}"

definition manual_carry :: "u8 \<Rightarrow> u32 \<Rightarrow> u32 \<Rightarrow> u8 \<Rightarrow> bool" where
  "manual_carry opcode a b co = (
     if opcode \<in> {2, 10} then b \<le> a
     else if opcode = 3 then a \<le> b
     else if opcode \<in> {4, 11} then 2 ^ 32 \<le> unat a + unat b
     else co = 1)"

definition code_overflow :: "u8 \<Rightarrow> u32 \<Rightarrow> u32 \<Rightarrow> u8 \<Rightarrow> bool" where
  "code_overflow opcode a b co = (if opcode \<in> {4, 11} then manual_carry opcode a b co
     else if opcode \<in> {2, 3, 10} then \<not> manual_carry opcode a b co else False)"

lemma flag_args_v:
  assumes "opcode \<in> flag_opcodes"
  shows "snd (snd (flag_args opcode a d b co k)) =
    (if opcode \<in> {2, 3, 4, 10, 11} then of_bool (code_overflow opcode a b co) else 255)"
  using assms unfolding flag_opcodes_def
  by (elim insertE emptyE; simp add: flag_args_def code_overflow_def manual_carry_def not_less not_le Let_def)

lemma flag_args_manual:
  assumes "opcode \<in> flag_opcodes" "co = of_bool (co = 1)"
  shows "(manual_result opcode a b k, of_bool (manual_carry opcode a b co),
    snd (snd (flag_args opcode a d b co k))) = flag_args opcode a d b co k"
  using assms unfolding flag_opcodes_def
  by (elim insertE emptyE; simp add: flag_args_def manual_result_def manual_carry_def not_less Let_def)

text \<open>
  (C16) After SUB, RSB, ADD, TST, TEQ, CMP, CMN, ORR, MOV, BIC or MVN with the S bit and a destination
  other than the PC, the flags N and Z describe the 32-bit result of the operation, and C is the
  carry out of the addition, "no borrow" for a subtraction, or the carry output of the shifter for a
  logical operation.
\<close>

theorem flags_follow_manual:
  assumes "core_wf p" "rn < 16" "rd < 15" "opcode \<in> flag_opcodes" "co \<le> 1"
  shows "\<exists>p'. alu_dispatch p opcode 1 rn rd op2 co = Some (0, p') \<and>
    (let r = manual_result opcode (read_value p rn) op2 (carry_word p) in
     flag_n (cpsr p') = bit r 31 \<and> flag_z (cpsr p') = (r = 0) \<and>
     flag_c (cpsr p') = manual_carry opcode (read_value p rn) op2 co)"
proof -
  let ?a = "read_value p rn" and ?d = "read_value p rd" and ?k = "carry_word p"
  have rd: "rd < 16" "rd \<noteq> 15" using assms(3) by (auto simp: word_less_nat_alt word_unat_eq_iff)
  have co: "co = of_bool (co = 1)" using assms(5) by (auto simp: word_le_nat_alt le_Suc_eq word_unat_eq_iff)
  have op: "opcode < 16" using assms(4) by (auto simp: flag_opcodes_def)
  have v: "snd (snd (flag_args opcode ?a ?d op2 co ?k)) = 255 \<or>
      snd (snd (flag_args opcode ?a ?d op2 co ?k)) = of_bool (code_overflow opcode ?a op2 co)"
    by (simp add: flag_args_v [OF assms(4)])
  show ?thesis
    by (rule alu_flags_eval [OF assms(1,2) rd(1) op _ _ flag_args_manual [OF assms(4) co] v, of 1])
      (simp_all add: Let_def rd)
qed

theorem flags_follow_manual_witness:
  "\<exists>p'. alu_dispatch (set_reg sample_core 1 5) 2 1 1 0 5 0 = Some (0, p') \<and>
     flag_z (cpsr p') \<and> flag_c (cpsr p') \<and> \<not> flag_n (cpsr p')"
proof -
  have "read_value (set_reg sample_core 1 5) 1 = 5" by (simp add: read_value_def)
  then show ?thesis
    using flags_follow_manual [of "set_reg sample_core 1 5" 1 0 2 0 5]
    by (auto simp: Let_def manual_result_def manual_carry_def flag_opcodes_def)
qed

text \<open>
  The flag V is computed with \<open>__builtin_add_overflow\<close> and \<open>__builtin_sub_overflow\<close> on unsigned
  operands, so after ADD and CMN it equals the carry flag and after SUB, RSB and CMP its negation,
  instead of the signed overflow; the logical operations, which the code calls with "v unaffected",
  clear it.
\<close>

theorem v_flag_is_unsigned:
  assumes "core_wf p" "rn < 16" "rd < 15" "opcode \<in> flag_opcodes" "co \<le> 1"
  shows "\<exists>p'. alu_dispatch p opcode 1 rn rd op2 co = Some (0, p') \<and>
    flag_v (cpsr p') = (if opcode \<in> {4, 11} then flag_c (cpsr p')
      else if opcode \<in> {2, 3, 10} then \<not> flag_c (cpsr p') else False)"
proof -
  let ?a = "read_value p rn" and ?d = "read_value p rd" and ?k = "carry_word p"
  have rd: "rd < 16" "rd \<noteq> 15" using assms(3) by (auto simp: word_less_nat_alt word_unat_eq_iff)
  have co: "co = of_bool (co = 1)" using assms(5) by (auto simp: word_le_nat_alt le_Suc_eq word_unat_eq_iff)
  have op: "opcode < 16" using assms(4) by (auto simp: flag_opcodes_def)
  let ?v = "snd (snd (flag_args opcode ?a ?d op2 co ?k))"
  define vb where "vb = code_overflow opcode ?a op2 co"
  have v: "?v = 255 \<or> ?v = of_bool vb" and v2: "(?v \<noteq> 255 \<and> vb) = vb"
    by (simp_all add: flag_args_v [OF assms(4)] vb_def code_overflow_def)
  show ?thesis
  proof (rule alu_flags_eval [OF assms(1,2) rd(1) op _ _ flag_args_manual [OF assms(4) co] v, of 1])
    fix p' assume "alu_dispatch p opcode 1 rn rd op2 co = Some (0, p')"
      "flag_c (cpsr p') = manual_carry opcode ?a op2 co" "flag_v (cpsr p') = (?v \<noteq> 255 \<and> vb)"
    then show ?thesis unfolding v2 by (simp add: vb_def code_overflow_def)
  qed (simp_all add: rd)
qed

theorem v_flag_is_unsigned_witness:
  "\<exists>p'. alu_dispatch (set_reg sample_core 1 5) 4 1 1 0 5 0 = Some (0, p') \<and>
     flag_v (cpsr p') = flag_c (cpsr p')"
  using v_flag_is_unsigned [of "set_reg sample_core 1 5" 1 0 4 0 5]
  by (simp add: flag_opcodes_def)

text \<open>
  AND and EOR write the right result, but with the S bit they set N and Z from the old content
  of the destination register, read before the operation, and not from the result.
\<close>

lemma and_eor_flags_from_old_destination:
  assumes "core_wf p" "rn < 16" "rd < 15" "opcode = 0 \<or> opcode = 1" "co \<le> 1"
  shows "\<exists>p'. alu_dispatch p opcode 1 rn rd op2 co = Some (0, p') \<and>
    gpr p' (unat rd) = manual_result opcode (read_value p rn) op2 (carry_word p) \<and>
    flag_n (cpsr p') = bit (gpr p (unat rd)) 31 \<and> flag_z (cpsr p') = (gpr p (unat rd) = 0) \<and>
    flag_c (cpsr p') = (co = 1)"
proof -
  let ?a = "read_value p rn" and ?d = "read_value p rd" and ?k = "carry_word p"
  have rd: "rd < 16" "rd \<noteq> 15" "unat rd < 16"
    using assms(3) by (auto simp: word_less_nat_alt word_unat_eq_iff)
  have co: "co = of_bool (co = 1)" using assms(5) by (auto simp: word_le_nat_alt le_Suc_eq word_unat_eq_iff)
  have op: "opcode < 16" "\<not> is_test opcode" using assms(4) by (auto simp: is_test_def)
  have f: "(?d, of_bool (co = 1), 255) = flag_args opcode ?a ?d op2 co ?k"
    using assms(4) by (elim disjE; simp add: flag_args_def Let_def flip: co)
  show ?thesis
    by (rule alu_flags_eval [OF assms(1,2) rd(1) op(1) _ _ f disjI1 [OF refl], of 1 True])
      (use rd(2) op(2) in \<open>simp_all add: read_value_def\<close>)
qed

lemma and_eor_flags_from_old_destination_example:
  "\<exists>p'. alu_dispatch (set_reg sample_core 1 5) 0 1 1 0 5 0 = Some (0, p') \<and>
     gpr p' 0 = 5 \<and> flag_z (cpsr p')"
proof -
  have "read_value (set_reg sample_core 1 5) 1 = 5" by (simp add: read_value_def)
  then show ?thesis
    using and_eor_flags_from_old_destination [of "set_reg sample_core 1 5" 1 0 0 0 5]
    by (auto simp: manual_result_def)
qed

lemma carry_in_lost:
  fixes a b k :: u32
  assumes "k = 0 \<or> k = 1"
  shows "(2 ^ 32 \<le> unat a + unat (b + k)) =
    (2 ^ 32 \<le> unat a + unat b + unat k \<and> \<not> (k = 1 \<and> b = 0xFFFFFFFF))"
proof (cases "b = 0xFFFFFFFF")
  case False
  moreover have "(- 1 :: u32) = 0xFFFFFFFF" by simp
  ultimately have "b \<noteq> - 1" by metis
  then have "1 + b \<noteq> 0" by (metis add.commute eq_neg_iff_add_eq_0)
  then have "unat (b + 1) = unat b + 1" by (simp add: unatSuc add.commute)
  then show ?thesis using assms False by auto
next
  case True
  have "unat a < 2 ^ LENGTH(32)" by (rule unsigned_less)
  with True show ?thesis using assms by auto
qed

lemma flag_args_with_carry:
  assumes "opcode \<in> {5, 6, 7}"
  shows "flag_args opcode a d b co k =
    (if opcode = 5 then manual_result opcode a b k else manual_result opcode a b k - 1,
     of_bool (if opcode = 5 then 2 ^ 32 \<le> unat a + unat (b + k)
       else if opcode = 6 then \<not> a < b - (1 - k) else \<not> b < a - (1 - k)),
     of_bool (if opcode = 5 then 2 ^ 32 \<le> unat a + unat (b + k)
       else if opcode = 6 then a < b - NOT (1 - k) else b < a - NOT (1 - k)))"
  using assms by (elim insertE emptyE; simp add: flag_args_def manual_result_def not_eq_complement Let_def)

text \<open>
  (C38) The flags of the operations with carry. ADC: N and Z are right, but C is lost exactly when the
  carry is set and the second operand is 0xFFFFFFFF, because the two are added before the carry is
  computed. SBC and RSC: the result is right, but N and Z describe the result minus 1.
\<close>

theorem carry_operations_flags:
  assumes "core_wf p" "rn < 16" "rd < 15" "opcode \<in> {5, 6, 7}"
  shows "\<exists>p'. alu_dispatch p opcode 1 rn rd op2 co = Some (0, p') \<and>
    (let r = manual_result opcode (read_value p rn) op2 (carry_word p); k = carry_word p in
     gpr p' (unat rd) = r \<and>
     (if opcode = 5
      then flag_n (cpsr p') = bit r 31 \<and> flag_z (cpsr p') = (r = 0) \<and>
        flag_c (cpsr p') = (2 ^ 32 \<le> unat (read_value p rn) + unat op2 + unat k \<and>
                            \<not> (k = 1 \<and> op2 = 0xFFFFFFFF))
      else flag_n (cpsr p') = bit (r - 1) 31 \<and> flag_z (cpsr p') = (r = 1)))"
proof -
  let ?a = "read_value p rn" and ?d = "read_value p rd" and ?k = "carry_word p"
  have rd: "rd < 16" "rd \<noteq> 15" "unat rd < 16"
    using assms(3) by (auto simp: word_less_nat_alt word_unat_eq_iff)
  have op: "opcode < 16" "\<not> is_test opcode" using assms(4) by (auto simp: is_test_def)
  note f = flag_args_with_carry [OF assms(4), symmetric, of ?a op2 ?k ?d co]
  have c: "(2 ^ 32 \<le> unat ?a + unat (op2 + ?k)) =
      (2 ^ 32 \<le> unat ?a + unat op2 + unat ?k \<and> \<not> (?k = 1 \<and> op2 = 0xFFFFFFFF))"
    by (rule carry_in_lost) (auto simp: carry_word_def)
  show ?thesis
    by (rule alu_flags_eval [OF assms(1,2) rd(1) op(1) _ _ f disjI2 [OF refl], of 1])
      (use rd(2) op(2) c in \<open>simp_all add: Let_def\<close>)
qed

theorem carry_operations_flags_witness:
  "\<exists>p'. alu_dispatch (set_reg sample_core 1 6) 6 1 1 0 5 0 = Some (0, p') \<and>
     gpr p' 0 = 0 \<and> flag_n (cpsr p') \<and> \<not> flag_z (cpsr p')"
proof -
  have "read_value (set_reg sample_core 1 6) 1 = 6" by (simp add: read_value_def)
  moreover have "carry_word (set_reg sample_core 1 6) = 0" by (simp add: carry_word_def flag_defs)
  ultimately show ?thesis
    using carry_operations_flags [of "set_reg sample_core 1 6" 1 0 6 5 0]
    by (auto simp: Let_def manual_result_def)
qed

section \<open>Comparisons\<close>

definition cmp_order :: "u32 \<Rightarrow> u32 \<Rightarrow> u32 \<Rightarrow> bool" where
  "cmp_order cond a b = (
     if cond = EQ then a = b else if cond = NE then a \<noteq> b
     else if cond = CS then b \<le> a else if cond = CC then a < b
     else if cond = HI then b < a else a \<le> b)"

lemma cmp_eval:
  assumes "core_wf p" "rn < 16" "rd < 16"
  obtains p' where "alu_dispatch p 10 s rn rd b co = Some (0, p')" "core_wf p'"
    "flag_n (cpsr p') = bit (read_value p rn - b) 31" "flag_z (cpsr p') = (read_value p rn = b)"
    "flag_c (cpsr p') = (b \<le> read_value p rn)" "flag_v (cpsr p') = (read_value p rn < b)"
proof -
  let ?a = "read_value p rn"
  have f: "(?a - b, of_bool (b \<le> ?a), of_bool (?a < b)) =
      flag_args 10 ?a (read_value p rd) b co (carry_word p)"
    by (simp add: flag_args_def not_less Let_def)
  show thesis
    by (rule alu_flags_eval [OF assms _ _ _ f disjI2 [OF refl], of s], simp, simp add: is_test_def,
      simp add: is_test_def, rule that) (auto simp: of_bool_def)
qed

text \<open>
  After CMP, every following instruction with one of the conditions EQ, NE, CS, CC, HI, LS is
  executed exactly when the unsigned comparison it names holds between the operands of the CMP.
\<close>

lemma cmp_then_unsigned_conditions:
  assumes "core_wf p" "rn < 16" "rd < 16"
  shows "\<exists>p'. alu_dispatch p 10 s rn rd b co = Some (0, p') \<and>
    (\<forall>ins. cond_field ins \<in> {EQ, NE, CS, CC, HI, LS} \<longrightarrow>
      (\<exists>p''. arm_check_cond p' ins =
         Some (if cmp_order (cond_field ins) (read_value p rn) b then 1 else 0, p'')))"
proof -
  obtain p' where p': "alu_dispatch p 10 s rn rd b co = Some (0, p')" "core_wf p'"
    "flag_z (cpsr p') = (read_value p rn = b)" "flag_c (cpsr p') = (b \<le> read_value p rn)"
    by (rule cmp_eval [OF assms])
  then have "cond_value c (cpsr p') = (if cmp_order c (read_value p rn) b then 1 else 0)"
    if "c \<in> {EQ, NE, CS, CC, HI, LS}" for c
    using that by (elim insertE emptyE) (auto simp: cond_value_def cmp_order_def cond_spec_def cond_defs)
  then show ?thesis using p'(1,2) by (auto simp: arm_check_cond_eq)
qed

lemma cmp_then_unsigned_conditions_example:
  "\<exists>p'. alu_dispatch sample_core 10 0 1 0 5 0 = Some (0, p') \<and>
    (\<exists>p''. arm_check_cond p' 0x30000000 = Some (1, p''))"
proof -
  have "cond_field 0x30000000 = CC" by (simp add: cond_field_def CC_def)
  then show ?thesis
    using cmp_then_unsigned_conditions [of sample_core 1 0 0 5 0]
    by (auto simp: cmp_order_def read_value_def cond_defs)
qed

lemma sign_bit_iff: "bit (x :: u32) 31 \<longleftrightarrow> 2 ^ 31 \<le> unat x"
proof -
  have "unat x < 2 ^ LENGTH(32)" by (rule unsigned_less)
  then have "unat x div 2 ^ 31 < 2" by simp
  moreover have "odd n \<longleftrightarrow> 1 \<le> n" if "n < 2" for n :: nat using that by presburger
  ultimately have "odd (unat x div 2 ^ 31) \<longleftrightarrow> 1 \<le> unat x div 2 ^ 31" by blast
  moreover have "bit x 31 = bit (unat x) 31" by (simp add: bit_unsigned_iff)
  ultimately show ?thesis by (simp add: bit_iff_odd Suc_le_eq div_greater_zero_iff)
qed

lemma unat_sub_less:
  assumes "(a :: u32) < b"
  shows "unat (a - b) = 2 ^ 32 + unat a - unat b"
proof -
  have "unat b < 2 ^ LENGTH(32)" by (rule unsigned_less)
  then show ?thesis using assms by (simp add: unat_sub_if' word_less_nat_alt)
qed

text \<open>
  The signed conditions do not work after CMP: when both operands are below 2^31, so that the
  signed and the unsigned order agree, a following instruction with condition GE is always executed
  and one with condition LT never, whichever operand is larger.
\<close>

lemma cmp_then_signed_conditions_fail:
  assumes "core_wf p" "rn < 16" "rd < 16" "read_value p rn < 2 ^ 31" "b < 2 ^ 31"
  shows "\<exists>p'. alu_dispatch p 10 s rn rd b co = Some (0, p') \<and>
    (\<forall>ins. cond_field ins = GE \<longrightarrow> (\<exists>p''. arm_check_cond p' ins = Some (1, p''))) \<and>
    (\<forall>ins. cond_field ins = LT \<longrightarrow> (\<exists>p''. arm_check_cond p' ins = Some (0, p'')))"
proof -
  let ?a = "read_value p rn"
  obtain p' where p': "alu_dispatch p 10 s rn rd b co = Some (0, p')" "core_wf p'"
    "flag_n (cpsr p') = bit (?a - b) 31" "flag_v (cpsr p') = (?a < b)"
    by (rule cmp_eval [OF assms(1-3)])
  have lt: "unat ?a < 2 ^ 31" "unat b < 2 ^ 31" using assms(4,5) by (simp_all add: word_less_nat_alt)
  have "bit (?a - b) 31 = (?a < b)"
  proof (cases "?a < b")
    case True
    with lt show ?thesis by (simp add: sign_bit_iff unat_sub_less)
  next
    case False
    with lt show ?thesis by (simp add: sign_bit_iff unat_sub_if' word_less_nat_alt)
  qed
  with p'(3,4) have "flag_n (cpsr p') = flag_v (cpsr p')" by simp
  then show ?thesis using p'(1,2)
    by (simp add: arm_check_cond_eq cond_value_def cond_spec_def cond_defs)
qed

lemma cmp_then_signed_conditions_fail_example:
  "\<exists>p'. alu_dispatch (set_reg sample_core 1 1) 10 0 1 0 2 0 = Some (0, p') \<and>
    (\<exists>p''. arm_check_cond p' 0xA0000000 = Some (1, p''))"
proof -
  have "cond_field 0xA0000000 = GE" by (simp add: cond_field_def GE_def)
  then show ?thesis
    using cmp_then_signed_conditions_fail [of "set_reg sample_core 1 1" 1 0 2 0 0]
    by (auto simp: read_value_def)
qed


end
