(* ===== verification/Arm_Shifter_Facts.thy ===== *)
theory Arm_Shifter_Facts
  imports Arm_Alu_Facts
begin

text \<open>
  What the shifter operand of a data-processing instruction is, against the ARM manual, and the
  properties of the two decoders.
\<close>

lemma same_view_carry: "same_view p q \<Longrightarrow> carry_word q = carry_word p"
  by (simp add: carry_word_def same_viewD)

section \<open>Fields of an instruction\<close>

lemma and_mask_less:
  "unat (x AND 0x0F :: u32) < 16" "unat (x AND 0x1F :: u32) < 32" "unat (x AND 0x03 :: u32) < 4"
  using and_bit_mask_less [of x 4] and_bit_mask_less [of x 5] and_bit_mask_less [of x 2]
  by (simp_all add: mask_eq_exp_minus_1)

lemma unat_ucast_small: "unat (x :: u32) < 256 \<Longrightarrow> unat (ucast x :: u8) = unat x"
  by (simp add: unsigned_ucast_eq take_bit_nat_eq_self)

lemma field4_less: "(ucast (x AND 0x0F :: u32) :: u8) < 16"
  using and_mask_less(1) [of x] by (simp add: word_less_nat_alt unat_ucast_small)

lemma mode_cases:
  "(ucast (x AND 0x03 :: u32) :: u8) = LSL \<or> (ucast (x AND 0x03 :: u32) :: u8) = LSR \<or>
   (ucast (x AND 0x03 :: u32) :: u8) = ASR \<or> (ucast (x AND 0x03 :: u32) :: u8) = ROR"
proof -
  have "unat (ucast (x AND 0x03) :: u8) < 4"
    using and_mask_less(3) [of x] by (simp add: unat_ucast_small)
  then show ?thesis
    by (elim less_4E) (simp_all add: word_unat_eq_iff LSL_def LSR_def ASR_def ROR_def)
qed

text \<open>The shift of the manual, for an amount given in the instruction.\<close>

definition manual_shift :: "u8 \<Rightarrow> nat \<Rightarrow> u32 \<Rightarrow> bool \<Rightarrow> u32 \<times> bool" where
  "manual_shift mode n x c = (
     if mode = LSL then (if n = 0 then (x, c) else (push_bit n x, bit x (32 - n)))
     else if mode = LSR then (if n = 0 then (0, bit x 31) else (drop_bit n x, bit x (n - 1)))
     else if mode = ASR then
       (if n = 0 then (if bit x 31 then 0xFFFFFFFF else 0, bit x 31) else (signed_drop_bit n x, bit x (n - 1)))
     else (if n = 0 then (drop_bit 1 x OR push_bit 31 (of_bool c), bit x 0) else (word_rotr n x, bit x (n - 1))))"

definition shift_mode :: "u32 \<Rightarrow> u8" where
  "shift_mode ins = ucast (drop_bit 5 ins AND 0x03)"

definition shift_amount :: "u32 \<Rightarrow> nat" where
  "shift_amount ins = unat (drop_bit 7 ins AND 0x1F)"

definition operand_value :: "arm_core \<Rightarrow> u32 \<Rightarrow> u32" where
  "operand_value p ins = read_value p (ucast (ins AND 0x0F))"

lemma operand_value_log [simp]: "operand_value (log_call p c) ins = operand_value p ins"
  by (simp add: operand_value_def)

lemma read_operand [core_simps]:
  "core_wf p \<Longrightarrow> arm_read_register p (ucast (ins AND 0x0F)) = Some (operand_value p ins,
     log_call p (Trace_register (cycle_count p) READ (ucast (ins AND 0x0F)) SVC (operand_value p ins)))"
  by (simp only: arm_read_register_wf field4_less operand_value_def)

lemma register_bit_eq [core_simps]:
  "core_wf p \<Longrightarrow> 0 \<le> i \<Longrightarrow> i < 32 \<Longrightarrow> register_bit p (ins AND 0x0F) i =
     Some (of_bool (bit (operand_value p ins) (nat i)),
       log_call p (Trace_register (cycle_count p) READ (ucast (ins AND 0x0F)) SVC (operand_value p ins)))"
  by (simp add: register_bit_def read_operand)

lemma register_bit_None:
  "core_wf p \<Longrightarrow> i < 0 \<Longrightarrow> register_bit p (ins AND 0x0F) i = None"
  by (simp add: register_bit_def read_operand)

lemma register_bit_pred:
  "core_wf p \<Longrightarrow> 0 < m \<Longrightarrow> m \<le> 32 \<Longrightarrow> register_bit p (ins AND 0x0F) (int m - 1) =
     Some (of_bool (bit (operand_value p ins) (m - 1)),
       log_call p (Trace_register (cycle_count p) READ (ucast (ins AND 0x0F)) SVC (operand_value p ins)))"
  by (simp add: register_bit_eq nat_diff_distrib')

text \<open>The shift by an immediate amount, as the code computes it.\<close>

definition code_shift :: "u8 \<Rightarrow> nat \<Rightarrow> u32 \<Rightarrow> bool \<Rightarrow> (u32 \<times> bool) option" where
  "code_shift mode n x c = (
     if mode = LSR \<and> n = 0 then Some (x, bit x 31)
     else if mode = ASR \<and> n = 0 then (if bit x 31 then None else Some (0, False))
     else Some (manual_shift mode n x c))"

lemma shift_immediate_eval:
  assumes wf: "core_wf p"
  shows "\<exists>q. shift_immediate p ins (ins AND 0x0F) (of_bool c) =
      map_option (\<lambda>(v, co). (v, of_bool co, q))
        (code_shift (shift_mode ins) (shift_amount ins) (operand_value p ins) c) \<and>
    core_wf q \<and> same_view p q"
proof -
  let ?n = "ucast (drop_bit 7 ins AND 0x1F) :: u8"
  have n: "unat ?n = shift_amount ins" "unat ?n < 32" "shift_amount ins < 32"
    using and_mask_less(2) [of "drop_bit 7 ins"] by (simp_all add: shift_amount_def unat_ucast_small)
  have z: "?n = 0 \<longleftrightarrow> shift_amount ins = 0" using n(1) by (metis unat_0 word_unat_eq_iff)
  have m: "shift_mode ins \<in> {LSL, LSR, ASR, ROR}" "ucast (drop_bit 5 ins AND 0x03) = shift_mode ins"
    using mode_cases [of "drop_bit 5 ins"] by (auto simp: shift_mode_def)
  define k where "k = ?n"
  have k0: "k = 0 \<or> 0 < unat k" by (metis gr0I unat_0_iff)
  have k1: "nat (uint k - 1) = unat k - 1" by (simp add: nat_diff_distrib')
  show ?thesis
    using m(1) k0 wf n z unfolding shift_immediate_def m(2) k_def [symmetric] Let_def
    by (elim insertE emptyE disjE)
      (auto simp: core_simps code_shift_def manual_shift_def shift_defs uint_conv k1
        asr_0 asr_eq ror_eq intro: exI [of _ p])
qed

text \<open>The shift by the low byte of a register, as the code computes it.\<close>

definition register_amount :: "arm_core \<Rightarrow> u32 \<Rightarrow> nat" where
  "register_amount p ins =
     unat (ucast (read_value p (ucast (drop_bit 8 ins AND 0x0F))) :: u8)"

definition code_shift_register :: "u8 \<Rightarrow> nat \<Rightarrow> u32 \<Rightarrow> bool \<Rightarrow> (u32 \<times> bool) option" where
  "code_shift_register mode n x c = (
     if 32 \<le> n then None
     else if n = 0 then (if mode = ROR \<or> mode = ASR \<and> bit x 31 then None else Some (x, c))
     else if mode = ROR then
       (if n = 16 then None else Some (word_rotr n x, bit x (n mod 16 - 1)))
     else Some (manual_shift mode n x c))"

lemma shift_register_eval:
  assumes wf: "core_wf p"
  shows "\<exists>q. shift_register p ins (ins AND 0x0F) (of_bool c) =
      map_option (\<lambda>(v, co). (v, of_bool co, q))
        (code_shift_register (shift_mode ins) (register_amount p ins) (operand_value p ins) c) \<and>
    core_wf q \<and> same_view p q"
proof -
  define rs where "rs = (ucast (drop_bit 8 ins AND 0x0F) :: u8)"
  define k where "k = (ucast (read_value p rs) :: u8)"
  have rs: "rs < 16" by (simp add: rs_def field4_less)
  have n: "register_amount p ins = unat k" by (simp add: register_amount_def k_def rs_def)
  have m: "shift_mode ins \<in> {LSL, LSR, ASR, ROR}" "ucast (drop_bit 5 ins AND 0x03) = shift_mode ins"
    using mode_cases [of "drop_bit 5 ins"] by (auto simp: shift_mode_def)
  have k1: "nat (uint k - 1) = unat k - 1" by (simp add: nat_diff_distrib')
  have low: "uint (k AND 0x0F) = int (unat k mod 16)"
  proof -
    have "uint (k AND 0x0F) = uint k AND 0x0F" by (simp only: unsigned_and_eq) simp
    also have "\<dots> = take_bit 4 (uint k)" by (simp only: take_bit_eq_mask mask_eq_exp_minus_1) simp
    finally show ?thesis by (simp add: take_bit_eq_mod of_nat_mod)
  qed
  have k2: "nat (int a - 1) = a - 1" for a by simp
  have d16: "16 dvd unat k \<longleftrightarrow> unat k = 16" if "0 < unat k" "unat k < 32" using that by presburger
  have m32: "a mod 16 \<le> 32" for a :: nat
    by (rule order_trans [of _ 16]) simp_all
  have m16: "0 < unat k mod 16 \<longleftrightarrow> unat k \<noteq> 16" if "0 < unat k" "unat k < 32" using that by presburger
  have k0: "k = 0 \<or> 0 < unat k \<and> k \<noteq> 0 \<and> unat k < 32 \<and> k < 32 \<or> 32 \<le> unat k \<and> \<not> k < 32 \<and> k \<noteq> 0" 
    by (auto simp: word_less_nat_alt word_unat_eq_iff)
  show ?thesis
    using m(1) k0 wf rs unfolding shift_register_def m(2) rs_def [symmetric] Let_def n
    by (elim insertE emptyE disjE; cases "unat k = 16")
     (auto simp: core_simps code_shift_register_def manual_shift_def shift_defs uint_conv k1 k2 low
        asr_0 asr_eq ror_eq asr_None ror_None d16 m16 m32 register_bit_None register_bit_pred intro: exI [of _ p] simp flip: k_def)
qed

section \<open>The shifter operand\<close>

text \<open>The operand of a register instruction, with the choice between the two forms (bit 4).\<close>

definition code_operand :: "arm_core \<Rightarrow> u32 \<Rightarrow> (u32 \<times> bool) option" where
  "code_operand p ins = (
     if bit ins 4 then code_shift_register (shift_mode ins) (register_amount p ins) (operand_value p ins)
       (flag_c (cpsr p))
     else code_shift (shift_mode ins) (shift_amount ins) (operand_value p ins) (flag_c (cpsr p)))"

lemma register_amount_log [simp]: "register_amount (log_call p c) ins = register_amount p ins"
  by (simp add: register_amount_def)

lemma shift_eval:
  assumes wf: "core_wf p"
  shows "\<exists>q. shift p ins = map_option (\<lambda>(v, co). (v, of_bool co, q)) (code_operand p ins) \<and>
    core_wf q \<and> same_view p q"
proof -
  let ?q = "log_call p (Trace_register (cycle_count p) READ CPSR 0 (cpsr p))"
  have wq: "core_wf ?q" and q: "same_view ?q r \<longleftrightarrow> same_view p r" for r
    using wf by (simp_all add: same_view_def)
  have "shift p ins = (if bit ins 4 then shift_register ?q ins (ins AND 0x0F) (of_bool (flag_c (cpsr p)))
      else shift_immediate ?q ins (ins AND 0x0F) (of_bool (flag_c (cpsr p))))"
    using wf by (simp add: shift_def core_simps flag_defs and_1_bit Let_def)
  then show ?thesis
    using shift_immediate_eval [OF wq, of ins "flag_c (cpsr p)"]
      shift_register_eval [OF wq, of ins "flag_c (cpsr p)"]
    by (simp add: code_operand_def q)
qed

text \<open>The rotated immediate of the manual.\<close>

definition manual_immediate :: "u32 \<Rightarrow> u32" where
  "manual_immediate ins = word_rotr (2 * unat (drop_bit 8 ins AND 0x0F)) (ins AND 0xFF)"

lemma rotate_immediate_eval:
  assumes wf: "core_wf p"
  shows "rotate_immediate p ins = (
    if drop_bit 8 ins AND 0x0F = 0 then None
    else Some (manual_immediate ins, of_bool (bit (manual_immediate ins) 31), p))"
proof -
  define r where "r = unat (drop_bit 8 ins AND 0x0F)"
  define R where "R = (ucast (drop_bit 8 ins AND 0x0F) :: u8)"
  define i where "i = ins AND 0xFF"
  have r: "r < 16" using and_mask_less(1) [of "drop_bit 8 ins"] by (simp add: r_def)
  then have "unat R = r" by (simp add: R_def r_def unat_ucast_small)
  then have ur: "uint R = int r" by (metis uint_nat)
  have z: "drop_bit 8 ins AND 0x0F = 0 \<longleftrightarrow> r = 0" by (simp add: r_def unat_eq_0)
  have z': "R = 0 \<longleftrightarrow> r = 0" using ur by (metis of_nat_eq_0_iff uint_0_iff)
  have i: "ucast (ucast i :: u8) = i"
    by (rule bit_word_eqI) (auto simp: i_def and_0xFF bit_simps)
  have n: "nat (2 * int r) = 2 * r" "nat (32 - 2 * int r) = 32 - 2 * r" by simp_all
  have m: "manual_immediate ins = word_rotr (2 * r) i" by (simp add: manual_immediate_def r_def i_def)
  show ?thesis
  proof (cases "r = 0")
    case True
    then show ?thesis
      unfolding rotate_immediate_def R_def [symmetric] i_def [symmetric] z z' i m Let_def ur by simp
  next
    case False
    with r have "0 < 2 * r" "2 * r < 32" by simp_all
    then show ?thesis using False
      unfolding rotate_immediate_def R_def [symmetric] i_def [symmetric] z z' i m Let_def ur
      by (simp add: n shifts_rotr)
  qed
qed

section \<open>Properties of the shifter\<close>

text \<open>
  (C17) A shift by an amount given in the instruction produces the operand and the carry output of the
  ARM manual, for all four kinds of shift, RRX included; only LSR and ASR by 32, encoded
  as 0, are different. Registers, memory and cycle counter are not changed.
\<close>

theorem shift_by_immediate_correct:
  assumes "core_wf p" "\<not> bit ins 4" "shift_amount ins = 0 \<longrightarrow> shift_mode ins \<notin> {LSR, ASR}"
  shows "\<exists>q. shift p ins = Some
      (fst (manual_shift (shift_mode ins) (shift_amount ins) (operand_value p ins) (flag_c (cpsr p))),
       of_bool (snd (manual_shift (shift_mode ins) (shift_amount ins) (operand_value p ins) (flag_c (cpsr p)))), q) \<and>
    same_view p q"
  using shift_eval [OF assms(1), of ins] assms(2,3)
  by (auto simp: code_operand_def code_shift_def split: prod.splits)

theorem shift_by_immediate_correct_witness:
  "\<exists>q. shift (set_reg sample_core 1 5) 0xE1A00081 = Some (10, 0, q)"
proof -
  have "shift_amount 0xE1A00081 = 1" "shift_mode 0xE1A00081 = LSL" "\<not> bit (0xE1A00081 :: u32) 4"
    by (simp_all add: shift_amount_def shift_mode_def LSL_def bit_numeral_rec)
  moreover have "operand_value (set_reg sample_core 1 5) 0xE1A00081 = 5"
    by (simp add: operand_value_def read_value_def)
  ultimately show ?thesis
    using shift_by_immediate_correct [of "set_reg sample_core 1 5" "0xE1A00081"]
    by (auto simp: manual_shift_def bit_numeral_rec)
qed

text \<open>
  The two encodings with amount 0 that mean "by 32": LSR gives the unshifted value where the
  manual gives 0 (with the right carry), and ASR of a negative value runs into a shift by 32, whose
  behaviour C leaves undefined.
\<close>

theorem shift_by_32_divergence:
  assumes "core_wf p" "\<not> bit ins 4" "shift_amount ins = 0"
  shows "(shift_mode ins = LSR \<longrightarrow> (\<exists>q. shift p ins =
      Some (operand_value p ins, of_bool (bit (operand_value p ins) 31), q))) \<and>
    (shift_mode ins = ASR \<and> bit (operand_value p ins) 31 \<longrightarrow> shift p ins = None) \<and>
    (shift_mode ins = ASR \<and> \<not> bit (operand_value p ins) 31 \<longrightarrow> (\<exists>q. shift p ins = Some (0, 0, q)))"
  using shift_eval [OF assms(1), of ins] assms(2,3)
  by (auto simp: code_operand_def code_shift_def shift_defs)

theorem shift_by_32_divergence_witness:
  "(\<exists>q. shift (set_reg sample_core 1 5) 0xE1A00021 = Some (5, 0, q)) \<and>
   shift (set_reg sample_core 1 0x80000000) 0xE1A00041 = None"
proof -
  have a: "shift_amount 0xE1A00021 = 0" "shift_mode 0xE1A00021 = LSR" "\<not> bit (0xE1A00021 :: u32) 4"
    "shift_amount 0xE1A00041 = 0" "shift_mode 0xE1A00041 = ASR" "\<not> bit (0xE1A00041 :: u32) 4"
    by (simp_all add: shift_amount_def shift_mode_def LSR_def ASR_def bit_numeral_rec)
  have v: "operand_value (set_reg sample_core 1 v) 0xE1A00021 = v"
    "operand_value (set_reg sample_core 1 v) 0xE1A00041 = v" for v
    by (simp_all add: operand_value_def read_value_def)
  have b: "\<not> bit (5 :: u32) 31" "bit (0x80000000 :: u32) 31" by (simp_all add: bit_numeral_rec)
  show ?thesis
    using shift_by_32_divergence [of "set_reg sample_core 1 5" "0xE1A00021"]
      shift_by_32_divergence [of "set_reg sample_core 1 0x80000000" "0xE1A00041"] a v b
    by simp
qed

text \<open>
  (C39) A shift by the low byte of a register: LSL, LSR and ASR by 1 to 31 and ROR by 1 to 15 agree
  with the manual; amount 0 leaves operand and carry alone for LSL, LSR and ASR of a value that is not negative, but is undefined for ROR
  and for ASR of a negative value; ROR by 17 to 31 rotates correctly but takes its carry 16 bits too
  low; ROR by 16 and every amount of 32 or more are undefined, where the manual defines them.
\<close>

theorem shift_by_register_behaviour:
  assumes "core_wf p" "bit ins 4"
  shows "let n = register_amount p ins; x = operand_value p ins; m = shift_mode ins in
    (0 < n \<and> n < 32 \<and> (m = ROR \<longrightarrow> n < 16) \<longrightarrow>
      (\<exists>q. shift p ins = Some (fst (manual_shift m n x (flag_c (cpsr p))),
         of_bool (snd (manual_shift m n x (flag_c (cpsr p)))), q) \<and> same_view p q)) \<and>
    (n = 0 \<and> (m \<in> {LSL, LSR} \<or> m = ASR \<and> \<not> bit x 31) \<longrightarrow>
      (\<exists>q. shift p ins = Some (x, of_bool (flag_c (cpsr p)), q) \<and> same_view p q)) \<and>
    (m = ROR \<and> 16 < n \<and> n < 32 \<longrightarrow>
      (\<exists>q. shift p ins = Some (word_rotr n x, of_bool (bit x (n - 17)), q) \<and> same_view p q)) \<and>
    (m = ROR \<and> n \<in> {0, 16} \<or> m = ASR \<and> n = 0 \<and> bit x 31 \<or> 32 \<le> n \<longrightarrow> shift p ins = None)"
proof -
  define n where "n = register_amount p ins"
  define x where "x = operand_value p ins"
  define m where "m = shift_mode ins"
  have "n mod 16 - 1 = n - 17" if "16 < n" "n < 32"
    using that by (simp add: mod_if)
  then show ?thesis
    using shift_eval [OF assms(1), of ins] assms(2)
    unfolding Let_def n_def [symmetric] x_def [symmetric] m_def [symmetric] code_operand_def
    by (auto simp: code_shift_register_def manual_shift_def shift_defs split: prod.splits)
qed

theorem shift_by_register_behaviour_witness:
  "shift (set_reg (set_reg sample_core 1 5) 2 16) 0xE1A00271 = None \<and>
   (\<exists>q. shift (set_reg (set_reg sample_core 1 5) 2 1) 0xE1A00231 = Some (2, 1, q))"
proof -
  let ?p = "\<lambda>n. set_reg (set_reg sample_core 1 5) 2 n"
  have a: "shift_mode 0xE1A00271 = ROR" "shift_mode 0xE1A00231 = LSR"
    "bit (0xE1A00271 :: u32) 4" "bit (0xE1A00231 :: u32) 4"
    by (simp_all add: shift_mode_def shift_defs bit_numeral_rec)
  have v: "operand_value (?p n) 0xE1A00271 = 5" "operand_value (?p n) 0xE1A00231 = 5"
    "register_amount (?p n) 0xE1A00271 = unat (ucast n :: u8)"
    "register_amount (?p n) 0xE1A00231 = unat (ucast n :: u8)" for n
    by (simp_all add: operand_value_def register_amount_def read_value_def)
  show ?thesis
    using shift_by_register_behaviour [of "?p 16" "0xE1A00271"]
      shift_by_register_behaviour [of "?p 1" "0xE1A00231"] a v
    by (auto simp: Let_def manual_shift_def shift_defs bit_numeral_rec)
qed

text \<open>
  The immediate operand is the 8-bit constant rotated right by twice the rotation field, with
  the top bit of the result as carry, as in the manual, whenever the field is not 0. When it is 0,
  the common case of a plain 8-bit constant, the code shifts by 32 and its behaviour is undefined.
\<close>

theorem immediate_operand_behaviour:
  assumes "core_wf p"
  shows "rotate_immediate p ins = (
    if drop_bit 8 ins AND 0x0F = 0 then None
    else Some (word_rotr (2 * unat (drop_bit 8 ins AND 0x0F)) (ins AND 0xFF),
      of_bool (bit (word_rotr (2 * unat (drop_bit 8 ins AND 0x0F)) (ins AND 0xFF)) 31), p))"
  using rotate_immediate_eval [OF assms, of ins] by (simp add: manual_immediate_def)

theorem immediate_operand_behaviour_witness:
  "rotate_immediate sample_core 0xE3A00001 = None \<and>
   (\<exists>v c. rotate_immediate sample_core 0xE3A00101 = Some (v, c, sample_core))"
  using immediate_operand_behaviour [of sample_core "0xE3A00001"]
    immediate_operand_behaviour [of sample_core "0xE3A00101"] by simp

section \<open>Properties of the two decoders\<close>

definition opcode_of :: "u32 \<Rightarrow> u8" where "opcode_of ins = ucast (drop_bit 21 ins AND 0x0F)"
definition rn_of :: "u32 \<Rightarrow> u8" where "rn_of ins = ucast (drop_bit 16 ins AND 0x0F)"
definition rd_of :: "u32 \<Rightarrow> u8" where "rd_of ins = ucast (drop_bit 12 ins AND 0x0F)"
definition s_of :: "u32 \<Rightarrow> u8" where "s_of ins = ucast (drop_bit 20 ins AND 0x01)"

lemma fields_less [simp]: "opcode_of ins < 16" "rn_of ins < 16" "rd_of ins < 16"
  by (simp_all add: opcode_of_def rn_of_def rd_of_def field4_less)

text \<open>
  What both decoders do once the operand \<open>b\<close> and the carry \<open>co\<close> of the shifter are known: the well-formed next state,
  with at most the destination register, the status register and the trace changed. The four tests set the flags even
  when the S bit is 0.
\<close>

definition alu_step :: "arm_core \<Rightarrow> u32 \<Rightarrow> u32 \<Rightarrow> bool \<Rightarrow> arm_core \<Rightarrow> bool" where
  "alu_step p ins b co p' \<longleftrightarrow> core_wf p' \<and> mem p' = mem p \<and> cycle_count p' = cycle_count p \<and>
    console p' = console p \<and>
    (let a = read_value p (rn_of ins); r = manual_result (opcode_of ins) a b (carry_word p) in
      (\<forall>i < 16. gpr p' i = (if i = unat (rd_of ins) \<and> \<not> is_test (opcode_of ins) then r else gpr p i)) \<and>
      (if is_test (opcode_of ins)
       then flag_n (cpsr p') = bit r 31 \<and> flag_z (cpsr p') = (r = 0) \<and>
         flag_c (cpsr p') = manual_carry (opcode_of ins) a b (of_bool co) \<and> (\<forall>n < 28. bit (cpsr p') n = bit (cpsr p) n)
       else s_of ins = 0 \<longrightarrow> cpsr p' = cpsr p))"

lemma test_flags:
  assumes "core_wf q" "opcode < 16" "is_test opcode" "(dest, c, v) = flag_args opcode a d b (of_bool co) k"
  shows "flag_n (status_word (cpsr q) dest c v) = bit (manual_result opcode a b k) 31"
    "flag_z (status_word (cpsr q) dest c v) = (manual_result opcode a b k = 0)"
    "flag_c (status_word (cpsr q) dest c v) = manual_carry opcode a b (of_bool co)"
    "n < 28 \<Longrightarrow> bit (status_word (cpsr q) dest c v) n = bit (cpsr q) n"
proof -
  have op: "opcode \<in> flag_opcodes"
    using opcode_cases [OF assms(2)] assms(3) by (elim disjE; simp add: is_test_def flag_opcodes_def)
  have co: "(of_bool co :: u8) = of_bool ((of_bool co :: u8) = 1)" by simp
  have c: "dest = manual_result opcode a b k" "c = of_bool (manual_carry opcode a b (of_bool co))"
    using trans [OF assms(4) flag_args_manual [OF op co, of a b k d, symmetric]] by (simp_all only: prod.inject)
  have v: "v = 255 \<or> v = of_bool (code_overflow opcode a b (of_bool co))"
    using flag_args_v [OF op, of a d b "of_bool co" k] assms(4) by (metis snd_conv)
  have r: "cpsr q AND CPSR_Reserved_Mask = 0" using assms(1) cpsr_reserved [of "reg q"] by (simp add: cpsr_def)
  show "flag_n (status_word (cpsr q) dest c v) = bit (manual_result opcode a b k) 31"
    "flag_z (status_word (cpsr q) dest c v) = (manual_result opcode a b k = 0)"
    "flag_c (status_word (cpsr q) dest c v) = manual_carry opcode a b (of_bool co)"
    unfolding c(2) status_word_flags [OF v] c(1) by (rule refl)+
  show "n < 28 \<Longrightarrow> bit (status_word (cpsr q) dest c v) n = bit (cpsr q) n"
    unfolding c(2) by (rule status_word_low [OF r _ v])
qed

lemma alu_dispatch_step:
  assumes "core_wf q" "same_view p q"
  shows "\<exists>p'. alu_dispatch q (opcode_of ins) (s_of ins) (rn_of ins) (rd_of ins) b (of_bool co) = Some (0, p') \<and>
    alu_step p ins b co p'"
proof -
  obtain dest c v where f: "(dest, c, v) = flag_args (opcode_of ins) (read_value q (rn_of ins))
      (read_value q (rd_of ins)) b (of_bool co) (carry_word q)"
    by (metis prod_cases3)
  obtain p' where p': "alu_dispatch q (opcode_of ins) (s_of ins) (rn_of ins) (rd_of ins) b (of_bool co) = Some (0, p')"
    "core_wf p'" "mem p' = mem q" "cycle_count p' = cycle_count q" "console p' = console q"
    "\<forall>i < 16. gpr p' i = (if i = unat (rd_of ins) \<and> \<not> is_test (opcode_of ins)
       then manual_result (opcode_of ins) (read_value q (rn_of ins)) b (carry_word q) else gpr q i)"
    "cpsr p' = cpsr_after (cpsr q) dest (if is_test (opcode_of ins) then 1 else s_of ins)
      (if is_test (opcode_of ins) then 0 else rd_of ins) c v"
    using alu_dispatch_eval [OF assms(1) _ _ _ f, of "s_of ins"] by auto
  note same = same_viewD [OF assms(2)] same_view_carry [OF assms(2)]
  show ?thesis
  proof (cases "is_test (opcode_of ins)")
    case True
    then have "cpsr p' = status_word (cpsr q) dest c v" using p'(7) by (simp add: cpsr_after_def)
    with True p'(1-6) same test_flags [OF assms(1) _ True f] show ?thesis
      by (intro exI [of _ p']) (simp add: alu_step_def Let_def)
  next
    case False
    with p' same show ?thesis by (intro exI [of _ p']) (simp add: alu_step_def Let_def cpsr_after_def)
  qed
qed

text \<open>
  (C15) Every data-processing instruction with a register operand, for all sixteen opcodes and every
  operand the shifter defines, returns 0 and puts the value of the manual in the destination
  register; the test operations write no register; no other register, no memory, no cycle and no output
  changes. Without the S bit an operation that is no test leaves the CPSR alone; TST, TEQ, CMP and CMN set it whether the
  S bit is set or not: N, Z and C to those of the manual, and the bits below the flags are kept.
\<close>

theorem data_processing_register_result:
  assumes "core_wf p" "code_operand p ins = Some (b, co)"
  shows "\<exists>p'. arm_data_processing_shift p ins = Some (0, p') \<and> alu_step p ins b co p'"
proof -
  obtain q where q: "shift p ins = Some (b, of_bool co, q)" "core_wf q" "same_view p q"
    using shift_eval [OF assms(1), of ins] assms(2) by auto
  from alu_dispatch_step [OF q(2,3), of ins b co] q(1)
  show ?thesis
    by (simp add: arm_data_processing_shift_def opcode_of_def rn_of_def rd_of_def s_of_def Let_def)
qed

theorem data_processing_register_result_witness:
  "\<exists>p'. arm_data_processing_shift (set_reg sample_core 1 5) 0xE0810001 = Some (0, p') \<and> gpr p' 0 = 10"
proof -
  have v: "operand_value (set_reg sample_core 1 5) 0xE0810001 = 5"
    "read_value (set_reg sample_core 1 5) 1 = 5"
    by (simp_all add: operand_value_def read_value_def)
  have f: "opcode_of 0xE0810001 = 4" "rn_of 0xE0810001 = 1" "rd_of 0xE0810001 = 0"
    by (simp_all add: opcode_of_def rn_of_def rd_of_def)
  have "code_operand (set_reg sample_core 1 5) 0xE0810001 = Some (5, False)"
    unfolding code_operand_def v
    by (simp add: code_shift_def manual_shift_def shift_mode_def shift_amount_def
        shift_defs flag_defs bit_numeral_rec)
  from data_processing_register_result [OF _ this] v f show ?thesis
    by (auto simp: alu_step_def Let_def is_test_def manual_result_def)
qed

text \<open>
  (C37) The same for an immediate operand, for every rotation field other than 0: the value of the manual in the
  destination register, no other register, no memory, no cycle and no output changed, and with the S bit 0 the CPSR changed only by the
  four tests, which set N, Z and C to those of the manual and keep the bits below the flags. The carry of the shifter is the top
  bit of the operand.
\<close>

theorem data_processing_immediate_result:
  assumes "core_wf p" "drop_bit 8 ins AND 0x0F \<noteq> 0"
  shows "\<exists>p'. arm_data_processing_immediate_msr p ins = Some (0, p') \<and>
    alu_step p ins (manual_immediate ins) (bit (manual_immediate ins) 31) p'"
  using alu_dispatch_step [OF assms(1) same_view_refl, of ins "manual_immediate ins" "bit (manual_immediate ins) 31"] assms
  by (simp add: arm_data_processing_immediate_msr_def rotate_immediate_eval opcode_of_def rn_of_def
      rd_of_def s_of_def Let_def)

theorem data_processing_immediate_result_witness:
  "\<exists>p'. arm_data_processing_immediate_msr sample_core 0xE2810401 = Some (0, p') \<and>
     gpr p' 0 = 0x01000000"
proof -
  have f: "opcode_of 0xE2810401 = 4" "rn_of 0xE2810401 = 1" "rd_of 0xE2810401 = 0"
    "read_value sample_core 1 = 0"
    by (simp_all add: opcode_of_def rn_of_def rd_of_def read_value_def)
  have "manual_immediate 0xE2810401 = 0x01000000" by code_simp
  then show ?thesis
    using data_processing_immediate_result [of sample_core "0xE2810401"] f
    by (auto simp: alu_step_def Let_def is_test_def manual_result_def)
qed

end
