(* ===== verification/Arm_Branch_Other.thy ===== *)
theory Arm_Branch_Other
  imports Arm_Conditions
begin

text \<open>
  \<^verbatim>\<open>arm_branch_other.c\<close>: branches, and the two instruction classes that only answer
  with an exception number; with what the branch computes.
\<close>

text \<open>
  The offset is computed on \<open>int32_t\<close> values below 2^24, so nothing overflows and the words carry the
  same bits.
\<close>

definition arm_branch :: "arm_core \<Rightarrow> u32 \<Rightarrow> (int \<times> arm_core) option" where
  "arm_branch p ins = do {
     let linked = drop_bit 24 ins AND 1;
     let mask = push_bit 24 1 - 1;
     let offset_masked = ins AND mask;
     let b_offset = (offset_masked XOR mask) - mask;
     (pc, p) \<leftarrow> arm_read_register p 15;
     (c, p) \<leftarrow> arm_check_cond p ins;
     if c = 1 then do {
       p \<leftarrow> (if linked \<noteq> 0 then arm_write_register p 14 (pc + 4) else Some p);
       let pc = pc + b_offset;
       p \<leftarrow> arm_write_register p 15 pc;
       Some (0, p)
     } else Some (-1, p)
   }"

definition arm_coprocessor_others_swi :: "arm_core \<Rightarrow> u32 \<Rightarrow> (int \<times> arm_core) option" where
  "arm_coprocessor_others_swi p ins = do {
     b \<leftarrow> get_bit ins 24;
     if b \<noteq> 0 then Some (SOFTWARE_INTERRUPT, p) else Some (UNDEFINED_INSTRUCTION, p)
   }"

definition arm_miscellaneous :: "arm_core \<Rightarrow> u32 \<Rightarrow> (int \<times> arm_core) option" where
  "arm_miscellaneous p ins = Some (UNDEFINED_INSTRUCTION, p)"

section \<open>What a branch does\<close>

lemma branch_offset:
  "((ins AND 0xFFFFFF) XOR 0xFFFFFF) - 0xFFFFFF = - (ins AND 0xFFFFFF :: u32)"
proof -
  define x where "x = ins AND 0xFFFFFF"
  define m where "m = (0xFFFFFF :: u32)"
  have mm: "m = mask 24" by (simp add: m_def mask_eq_exp_minus_1)
  have "(x XOR m) AND x = 0" "(x XOR m) OR x = m"
    unfolding x_def m_def [symmetric] unfolding mm by (rule bit_word_eqI; auto simp: bit_simps)+
  with word_plus_and_or [of "x XOR m" x] have h: "(x XOR m) + x = m" by simp
  have "(x XOR m) - ((x XOR m) + x) = - x" by simp
  then have "(x XOR m) - m = - x" by (simp only: h)
  then show ?thesis by (simp add: x_def m_def)
qed

text \<open>What the branch computes, when its condition holds.\<close>

lemma arm_branch_eval:
  assumes wf: "core_wf p"
  shows "\<exists>q. arm_branch p ins =
      Some (if cond_value (cond_field ins) (cpsr p) = 1 then 0 else -1, q) \<and>
    core_wf q \<and> mem q = mem p \<and> cycle_count q = cycle_count p \<and> console q = console p \<and> cpsr q = cpsr p \<and>
    (\<forall>i < 16. gpr q i = (if cond_value (cond_field ins) (cpsr p) \<noteq> 1 then gpr p i
      else if i = 15 then read_value p 15 - (ins AND 0xFFFFFF)
      else if i = 14 \<and> bit ins 24 then read_value p 15 + 4 else gpr p i))"
proof -
  have l: "drop_bit 24 ins AND 1 \<noteq> 0 \<longleftrightarrow> bit ins 24" by (simp add: and_1_bit)
  have m: "(push_bit 24 1 - 1 :: u32) = 0xFFFFFF" by simp
  show ?thesis
    unfolding arm_branch_def Let_def m branch_offset l
    using wf by (simp add: core_simps)
qed

end
