(* ===== verification/Arm_Logged.thy ===== *)
theory Arm_Logged
  imports Arm_Shifter_Facts Arm_Branch_Other
begin

text \<open>
  Data-processing instructions and branches keep what \<open>kept\<close> says, in particular that the calls of the
  trace they make are well typed: the rules of \<^verbatim>\<open>Arm_Core\<close> followed through the operations.
\<close>

text \<open>The same for a computation that returns only the processor.\<close>

definition keeps_state :: "arm_core \<Rightarrow> arm_core option \<Rightarrow> bool" where
  "keeps_state p m \<longleftrightarrow> (\<forall>q. m = Some q \<longrightarrow> kept p q)"

lemma keeps_state_None [keeps_rules]: "keeps_state p None"
  by (simp add: keeps_state_def)

lemma keeps_state_Some [keeps_rules]: "kept p q \<Longrightarrow> keeps_state p (Some q)"
  by (simp add: keeps_state_def)

lemma keeps_state_if [keeps_rules]:
  "keeps_state p m \<Longrightarrow> keeps_state p m' \<Longrightarrow> keeps_state p (if b then m else m')"
  by simp

lemma keeps_bind_state:
  assumes "keeps_state p m" "\<And>q. kept p q \<Longrightarrow> keeps p (f q)"
  shows "keeps p (Option.bind m f)"
  using assms by (auto simp: keeps_def keeps_state_def bind_eq_Some_conv)

lemma keeps_state_bind:
  assumes "keeps p m" "\<And>r q. kept p q \<Longrightarrow> keeps_state p (f (r, q))"
  shows "keeps_state p (Option.bind m f)"
  using assms by (auto simp: keeps_def keeps_state_def bind_eq_Some_conv)

lemma read_register_keeps: "kept p q \<Longrightarrow> keeps p (arm_read_register q r)"
  by (auto simp: keeps_def intro: kept_trans kept_wf read_register_kept)

lemma write_register_keeps: "kept p q \<Longrightarrow> r < 16 \<Longrightarrow> keeps_state p (arm_write_register q r v)"
  by (auto simp: keeps_state_def intro: kept_trans kept_wf write_register_kept)

lemma status_keeps:
  assumes "kept p q"
  shows "keeps p (arm_read_cpsr q)" "keeps p (arm_read_spsr q)" "keeps_state p (arm_write_cpsr q v)"
proof -
  have wf: "core_wf q" using assms by (rule kept_wf)
  have "kept q (log_call q (Trace_register (cycle_count q) READ CPSR 0 (cpsr q)))"
    "kept q (log_call q (Trace_register (cycle_count q) READ SPSR SVC (-1)))"
    "kept q (log_call (set_cpsr q v) (Trace_register (cycle_count q) WRITE CPSR 0 v))"
    using wf by (simp_all add: kept_def)
  with assms show "keeps p (arm_read_cpsr q)" "keeps p (arm_read_spsr q)" "keeps_state p (arm_write_cpsr q v)"
    by (auto simp: keeps_def keeps_state_def arm_read_cpsr_wf [OF wf] arm_read_spsr_wf [OF wf]
        arm_write_cpsr_wf [OF wf] intro: kept_trans)
qed

section \<open>Data processing\<close>

lemma UpdateCpsr_keeps: "kept p q \<Longrightarrow> keeps_state p (UpdateCpsr q dest s rd c v)"
  unfolding UpdateCpsr_def Let_def
  by (auto intro!: keeps_rules keeps_state_bind status_keeps)

lemmas operation_rules = keeps_rules keeps_bind keeps_bind_state keeps_state_bind read_register_keeps status_keeps
  UpdateCpsr_keeps

lemma operations_keep:
  assumes "kept p q"
  shows "keeps p (And q s rn rd b co)" "keeps p (Eor q s rn rd b co)" "keeps p (Sub q s rn rd b co)"
    "keeps p (Rsb q s rn rd b co)" "keeps p (Add q s rn rd b co)" "keeps p (Adc q s rn rd b co)"
    "keeps p (Sbc q s rn rd b co)" "keeps p (Rsc q s rn rd b co)" "keeps_state p (Tst q s rn rd b co)"
    "keeps_state p (Teq q s rn rd b co)" "keeps_state p (Cmp q s rn rd b co)" "keeps_state p (Cmn q s rn rd b co)"
    "keeps p (Orr q s rn rd b co)" "keeps p (Mov q s rn rd b co)" "keeps p (Bic q s rn rd b co)"
    "keeps p (Mvn q s rn rd b co)"
  unfolding And_def Eor_def Sub_def Rsb_def Add_def Adc_def Sbc_def Rsc_def Tst_def Teq_def Cmp_def Cmn_def
    Orr_def Mov_def Bic_def Mvn_def Let_def builtin_add_overflow_def builtin_sub_overflow_def
  using assms by (auto intro!: operation_rules)

lemma write_result_keeps: "keeps p m \<Longrightarrow> rd < 16 \<Longrightarrow> keeps p (write_result rd m)"
  unfolding write_result_def by (auto intro!: keeps_rules keeps_bind)

lemma only_flags_keeps: "keeps_state p m \<Longrightarrow> keeps p (only_flags m)"
  unfolding only_flags_def by (auto intro!: keeps_rules keeps_bind_state)

lemma alu_dispatch_keeps: "kept p q \<Longrightarrow> rd < 16 \<Longrightarrow> keeps p (alu_dispatch q opcode s rn rd b co)"
  unfolding alu_dispatch_def
  by (auto intro!: write_result_keeps only_flags_keeps operations_keep keeps_rules)


section \<open>The shifter operand\<close>

text \<open>The same for a computation whose result is a value, a carry and the processor.\<close>

definition keeps_operand :: "arm_core \<Rightarrow> (u32 \<times> u8 \<times> arm_core) option \<Rightarrow> bool" where
  "keeps_operand p m \<longleftrightarrow> (\<forall>v co q. m = Some (v, co, q) \<longrightarrow> kept p q)"

lemma keeps_operand_None: "keeps_operand p None"
  by (simp add: keeps_operand_def)

lemma keeps_operand_Some: "kept p q \<Longrightarrow> keeps_operand p (Some (v, co, q))"
  by (simp add: keeps_operand_def)

lemma keeps_operand_if: "keeps_operand p m \<Longrightarrow> keeps_operand p m' \<Longrightarrow> keeps_operand p (if b then m else m')"
  by simp

lemma keeps_operand_bind:
  assumes "keeps p m" "\<And>r q. kept p q \<Longrightarrow> keeps_operand p (f (r, q))"
  shows "keeps_operand p (Option.bind m f)"
  using assms by (auto simp: keeps_def keeps_operand_def bind_eq_Some_conv)

lemma keeps_operand_value:
  assumes "\<And>v. m = Some v \<Longrightarrow> keeps_operand p (f (v :: u32))"
  shows "keeps_operand p (Option.bind m f)"
  using assms by (cases m) (auto simp: keeps_operand_def)

lemma keeps_bind_operand:
  assumes "keeps_operand p m" "\<And>v co q. kept p q \<Longrightarrow> keeps p (f (v, co, q))"
  shows "keeps p (Option.bind m f)"
  using assms by (auto simp: keeps_def keeps_operand_def bind_eq_Some_conv)

lemmas operand_rules = keeps_operand_None keeps_operand_Some keeps_operand_if keeps_operand_value keeps_operand_bind

lemma register_bit_keeps: "kept p q \<Longrightarrow> keeps p (register_bit q rm i)"
  unfolding register_bit_def
  by (rule keeps_bind, erule read_register_keeps) (auto intro!: keeps_bind_value keeps_Some)

lemma shift_keeps_operand: "kept p q \<Longrightarrow> keeps_operand p (shift q ins)"
  unfolding shift_def shift_immediate_def shift_register_def Let_def
  by (auto intro!: operand_rules status_keeps read_register_keeps register_bit_keeps keeps_rules)

lemma rotate_keeps_operand: "kept p q \<Longrightarrow> keeps_operand p (rotate_immediate q ins)"
  unfolding rotate_immediate_def Let_def
  by (auto intro!: operand_rules status_keeps keeps_rules)

lemma data_processing_keeps:
  assumes "kept p q"
  shows "keeps p (arm_data_processing_shift q ins)" "keeps p (arm_data_processing_immediate_msr q ins)"
  unfolding arm_data_processing_shift_def arm_data_processing_immediate_msr_def Let_def
  using assms by (auto intro!: keeps_bind_operand shift_keeps_operand rotate_keeps_operand alu_dispatch_keeps field4_less)

section \<open>Branches\<close>

lemma check_cond_keeps: "kept p q \<Longrightarrow> keeps p (arm_check_cond q ins)"
  unfolding arm_check_cond_def Let_def
  by (auto intro!: keeps_rules keeps_bind status_keeps)

lemma arm_branch_keeps: "kept p q \<Longrightarrow> keeps p (arm_branch q ins)"
  unfolding arm_branch_def Let_def
  by (auto intro!: keeps_rules keeps_bind keeps_bind_state read_register_keeps
      write_register_keeps check_cond_keeps)

end
