(* ===== verification/Arm_Load_Store.thy ===== *)
theory Arm_Load_Store
  imports Arm_Exception
begin

text \<open>
  \<^verbatim>\<open>arm_load_store.c\<close>: the load and store instructions for words, bytes and
  halfwords, the multiple ones and the coprocessor ones. The processor pointer is not null; the test
  \<open>ins == 0\<close> is kept. As in the code, the dispatchers ignore what the instruction they call returns.
\<close>

section \<open>Uninitialised locals\<close>

text \<open>
  The contents of the local variables that the code passes to a memory read before it has assigned
  them: they reach the trace (and in \<open>arm_exception\<close> the result) when the memory refuses the access.
\<close>

record stack_junk =
  junk_word :: u32
  junk_half :: u16
  junk_byte :: u8

definition no_junk :: stack_junk where
  "no_junk = \<lparr>junk_word = 0, junk_half = 0, junk_byte = 0\<rparr>"

text \<open>\<open>(ins >> n) & m\<close> stored in a byte, and one bit of an instruction.\<close>

definition ins_byte :: "u32 \<Rightarrow> nat \<Rightarrow> u32 \<Rightarrow> u8" where
  "ins_byte ins n m = ucast (drop_bit n ins AND m)"

definition ins_bit :: "u32 \<Rightarrow> nat \<Rightarrow> u32" where
  "ins_bit ins n = drop_bit n ins AND 1"

section \<open>Store word\<close>

text \<open>
  The three \<open>switch\<close> statements on the kind of shift; a value other than the four cases leaves
  \<open>index\<close> uninitialised. The third copy shifts the register number in its last case.
\<close>

definition str_index_post :: "u32 \<Rightarrow> u32 \<Rightarrow> u32 \<Rightarrow> u32 option" where
  "str_index_post offset kind shift_imm = (
     if kind = 0 then shl32 offset (uint shift_imm)
     else if kind = 1 then (if shift_imm = 0 then Some 0 else shr32 offset (uint shift_imm))
     else if kind = 2 then
       (if shift_imm = 0 then
          let g = (ucast (drop_bit 31 offset AND 1) :: u8)
          in Some (if g = 1 then 0xFFFFFFFF else 0)
        else asr offset (ucast shift_imm))
     else if kind = 3 then (if shift_imm = 0 then Some (drop_bit 1 offset) else ror offset (ucast shift_imm))
     else None)"

definition str_index_offset :: "u32 \<Rightarrow> u32 \<Rightarrow> u32 \<Rightarrow> u32 option" where
  "str_index_offset offset kind shift_imm = (
     if kind = 0 then shl32 offset (uint shift_imm)
     else if kind = 1 then (if shift_imm = 0 then Some 0 else shr32 offset (uint shift_imm))
     else if kind = 2 then
       (if shift_imm = 0 then
          let g = (ucast (drop_bit 31 offset AND 1) :: u8)
          in Some (if g = 1 then 0xFFFFFFFF else 0)
        else asr offset (ucast shift_imm))
     else if kind = 3 then (if shift_imm = 0 then Some (drop_bit 1 offset) else ror offset (ucast shift_imm))
     else None)"

definition str_index_pre :: "u8 \<Rightarrow> u32 \<Rightarrow> u32 \<Rightarrow> u32 \<Rightarrow> u32 option" where
  "str_index_pre Rm offset kind shift_imm = (
     if kind = 0 then shl32 offset (uint shift_imm)
     else if kind = 1 then (if shift_imm = 0 then Some 0 else shr32 offset (uint shift_imm))
     else if kind = 2 then
       (if shift_imm = 0 then
          let g = (ucast (drop_bit 31 offset AND 1) :: u8)
          in Some (if g = 1 then 0xFFFFFFFF else 0)
        else asr offset (ucast shift_imm))
     else if kind = 3 then
       (if shift_imm = 0 then Some (ucast (drop_bit 1 Rm)) else ror offset (ucast shift_imm))
     else None)"

text \<open>
  The addressing modes. The result is the local \<open>address\<close> (\<open>None\<close> where no branch assigns it), the
  local \<open>v_source\<close> and the processor.
\<close>

definition plus_or_minus :: "u32 \<Rightarrow> u32 \<Rightarrow> u32 \<Rightarrow> u32" where
  "plus_or_minus bitU a b = (if bitU = 1 then a + b else a - b)"

definition str_immediate ::
  "arm_core \<Rightarrow> u8 \<Rightarrow> u8 \<Rightarrow> u32 \<Rightarrow> u32 \<Rightarrow> u32 \<Rightarrow> u32 \<Rightarrow> (u32 option \<times> u32 \<times> arm_core) option" where
  "str_immediate p source offset v_source bitP bitW bitU = (
     let b = ucast offset in
     if bitP = 0 then
       (if bitW = 0 then Some (Some v_source, plus_or_minus bitU v_source b, p)
        else Some (None, v_source, p))
     else if bitW = 0 then Some (Some (plus_or_minus bitU v_source b), v_source, p)
     else do {
       let address = plus_or_minus bitU v_source b;
       p \<leftarrow> arm_write_register p source address;
       Some (Some address, address, p)
     })"

definition str_scaled ::
  "arm_core \<Rightarrow> u8 \<Rightarrow> u32 \<Rightarrow> u32 \<Rightarrow> u32 \<Rightarrow> u32 \<Rightarrow> u32 \<Rightarrow> u32 \<Rightarrow> u32 \<Rightarrow> (u32 option \<times> u32 \<times> arm_core) option" where
  "str_scaled p Rm offset v_source bitP bitW bitU kind shift_imm = (
     if bitP = 0 then
       (if bitW = 0 then do {
          index \<leftarrow> str_index_post offset kind shift_imm;
          Some (Some v_source, plus_or_minus bitU v_source index, p)
        } else Some (None, v_source, p))
     else if bitW = 0 then do {
       index \<leftarrow> str_index_offset offset kind shift_imm;
       Some (Some (plus_or_minus bitU v_source index), v_source, p)
     } else do {
       index \<leftarrow> str_index_pre Rm offset kind shift_imm;
       Some (Some (plus_or_minus bitU v_source index), v_source, p)
     })"

definition str_register ::
  "arm_core \<Rightarrow> u32 \<Rightarrow> u32 \<Rightarrow> u32 \<Rightarrow> u32 \<Rightarrow> u32 \<Rightarrow> (u32 option \<times> u32 \<times> arm_core) option" where
  "str_register p offset v_source bitP bitW bitU = (
     if bitP = 0 then
       (if bitW = 0 then Some (Some (plus_or_minus bitU v_source offset), v_source, p)
        else Some (None, v_source, p))
     else if bitW = 0 then Some (Some (plus_or_minus bitU v_source offset), v_source, p)
     else
       (let address = plus_or_minus bitU v_source offset in Some (Some address, address, p)))"

definition str :: "arm_core \<Rightarrow> u32 \<Rightarrow> (int \<times> arm_core) option" where
  "str p ins = (
     if ins = 0 then Some (-1, p)
     else do {
       let source = ins_byte ins 16 0x04;
       let dest = ins_byte ins 12 0x04;
       let offset = ins_byte ins 0 0x0C;
       (v_dest, p) \<leftarrow> arm_read_register p dest;
       (v_source, p) \<leftarrow> arm_read_register p source;
       let immediat = ins_bit ins 25;
       let bitP = ins_bit ins 24;
       let bitW = ins_bit ins 21;
       let bitU = ins_bit ins 23;
       let scaled = drop_bit 4 ins AND 8;
       (address, v_source, p) \<leftarrow>
         (if immediat = 0 then str_immediate p source offset v_source bitP bitW bitU
          else do {
            let Rm = ins_byte ins 0 0x04;
            (offset, p) \<leftarrow> arm_read_register p Rm;
            if scaled \<noteq> 0 then
              str_scaled p Rm offset v_source bitP bitW bitU (drop_bit 5 ins AND 2) (drop_bit 7 ins AND 5)
            else str_register p offset v_source bitP bitW bitU
          });
       (result, v_source, p) \<leftarrow> arm_read_word p v_dest v_source;
       if result \<noteq> 0 then Some (-1, p) else Some (0, p)
     })"

section \<open>Store byte and halfword\<close>

definition strb :: "arm_core \<Rightarrow> u32 \<Rightarrow> (int \<times> arm_core) option" where
  "strb p ins = (
     if ins = 0 then Some (-1, p)
     else do {
       let source = ins_byte ins 16 0x04;
       let dest = ins_byte ins 12 0x04;
       (v_dest, p) \<leftarrow> arm_read_register p dest;
       (v_source, p) \<leftarrow> arm_read_register p source;
       (result, p) \<leftarrow> arm_write_byte p v_dest (ucast v_source);
       if result \<noteq> 0 then Some (-1, p) else Some (0, p)
     })"

definition strh :: "arm_core \<Rightarrow> u32 \<Rightarrow> (int \<times> arm_core) option" where
  "strh p ins = (
     if ins = 0 then Some (-1, p)
     else do {
       let source = ins_byte ins 16 0x04;
       let dest = ins_byte ins 12 0x04;
       (v_dest, p) \<leftarrow> arm_read_register p dest;
       (v_source, p) \<leftarrow> arm_read_register p source;
       (result, p) \<leftarrow> arm_write_half p v_dest (ucast v_source);
       if result \<noteq> 0 then Some (-1, p) else Some (0, p)
     })"

definition strb_strh :: "arm_core \<Rightarrow> u32 \<Rightarrow> (int \<times> arm_core) option" where
  "strb_strh p ins = (
     let x = ins_bit ins 26 in
     if x = 0 then do { (_, p) \<leftarrow> strb p ins; Some (0, p) }
     else if x = 1 then do { (_, p) \<leftarrow> strh p ins; Some (0, p) }
     else Some (0, p))"

section \<open>Loads\<close>

definition ldr :: "stack_junk \<Rightarrow> arm_core \<Rightarrow> u32 \<Rightarrow> (int \<times> arm_core) option" where
  "ldr u p ins = (
     if ins = 0 then Some (-1, p)
     else do {
       let source = ins_byte ins 16 0x04;
       let dest = ins_byte ins 12 0x04;
       (v_source, p) \<leftarrow> arm_read_register p source;
       (result, v, p) \<leftarrow> arm_read_word p v_source (junk_word u);
       if result \<noteq> 0 then Some (-1, p)
       else do { p \<leftarrow> arm_write_register p dest v; Some (0, p) }
     })"

definition ldrb :: "stack_junk \<Rightarrow> arm_core \<Rightarrow> u32 \<Rightarrow> (int \<times> arm_core) option" where
  "ldrb u p ins = (
     if ins = 0 then Some (-1, p)
     else do {
       let source = ins_byte ins 16 0x04;
       let dest = ins_byte ins 12 0x04;
       (v_source, p) \<leftarrow> arm_read_register p source;
       (result, v, p) \<leftarrow> arm_read_byte p v_source (junk_byte u);
       if result \<noteq> 0 then Some (-1, p)
       else do { p \<leftarrow> arm_write_register p dest (ucast v); Some (0, p) }
     })"

definition ldrh :: "stack_junk \<Rightarrow> arm_core \<Rightarrow> u32 \<Rightarrow> (int \<times> arm_core) option" where
  "ldrh u p ins = (
     if ins = 0 then Some (-1, p)
     else do {
       let source = ins_byte ins 16 0x04;
       let dest = ins_byte ins 12 0x04;
       (v_source, p) \<leftarrow> arm_read_register p source;
       (result, v, p) \<leftarrow> arm_read_half p v_source (junk_half u);
       if result \<noteq> 0 then Some (-1, p)
       else do { p \<leftarrow> arm_write_register p dest (ucast v); Some (0, p) }
     })"

definition ldrb_ldrh :: "stack_junk \<Rightarrow> arm_core \<Rightarrow> u32 \<Rightarrow> (int \<times> arm_core) option" where
  "ldrb_ldrh u p ins = (
     if ins = 0 then Some (-1, p)
     else
       let x = ins_bit ins 26 in
       if x = 1 then do { (_, p) \<leftarrow> ldrb u p ins; Some (0, p) }
       else if x = 0 then do { (_, p) \<leftarrow> ldrh u p ins; Some (0, p) }
       else Some (0, p))"

section \<open>Dispatch\<close>

definition ARM_INS_STORE :: u32 where "ARM_INS_STORE = 0"
definition ARM_INS_LOAD :: u32 where "ARM_INS_LOAD = 1"
definition ARM_INS_STR :: u32 where "ARM_INS_STR = 0"
definition ARM_INS_STRB_STRH :: u32 where "ARM_INS_STRB_STRH = 1"

lemmas ls_defs = ARM_INS_STORE_def ARM_INS_LOAD_def ARM_INS_STR_def ARM_INS_STRB_STRH_def

definition store :: "arm_core \<Rightarrow> u32 \<Rightarrow> (int \<times> arm_core) option" where
  "store p ins = (
     if ins = 0 then Some (-1, p)
     else
       let x = ins_bit ins 22 in
       if x = ARM_INS_STR then do { (_, p) \<leftarrow> str p ins; Some (0, p) }
       else if x = ARM_INS_STRB_STRH then do { (_, p) \<leftarrow> strb_strh p ins; Some (0, p) }
       else Some (0, p))"

definition load :: "stack_junk \<Rightarrow> arm_core \<Rightarrow> u32 \<Rightarrow> (int \<times> arm_core) option" where
  "load u p ins = (
     if ins = 0 then Some (-1, p)
     else
       let x = ins_bit ins 22 in
       if x = 0 then do { (_, p) \<leftarrow> ldr u p ins; Some (0, p) }
       else if x = 1 then do { (_, p) \<leftarrow> ldrb_ldrh u p ins; Some (0, p) }
       else Some (0, p))"

definition arm_load_store :: "stack_junk \<Rightarrow> arm_core \<Rightarrow> u32 \<Rightarrow> (int \<times> arm_core) option" where
  "arm_load_store u p ins = (
     if ins = 0 then Some (-1, p)
     else
       let ls = ins_bit ins 20 in
       if ls = ARM_INS_STORE then do { (_, p) \<leftarrow> store p ins; Some (0, p) }
       else if ls = ARM_INS_LOAD then do { (_, p) \<leftarrow> load u p ins; Some (0, p) }
       else Some (0, p))"

section \<open>Multiple\<close>

text \<open>The loops over the registers 0 to 14, on the list of the numbers still to come.\<close>

fun stm_loop :: "arm_core \<Rightarrow> u32 \<Rightarrow> u32 \<Rightarrow> nat list \<Rightarrow> (int \<times> arm_core) option" where
  "stm_loop p ins addr [] = Some (0, p)"
| "stm_loop p ins addr (i # is) = (
     if ins_bit ins i = 1 then
       let bitP = ins_byte ins 24 1; bitU = ins_byte ins 23 1 in
       if bitP = 0 \<and> bitU = 0 then do {
         (v, p) \<leftarrow> arm_read_register p (of_nat i);
         (result, p) \<leftarrow> arm_write_byte p addr (ucast v);
         if result \<noteq> 0 then Some (-1, p) else stm_loop p ins (addr - 1) is
       } else if bitP = 0 \<and> bitU = 1 then do {
         (v, p) \<leftarrow> arm_read_register p (of_nat i);
         (result, p) \<leftarrow> arm_write_byte p addr (ucast v);
         if result \<noteq> 0 then Some (-1, p) else stm_loop p ins (addr + 1) is
       } else if bitP = 1 \<and> bitU = 0 then do {
         let addr = addr - 1;
         (v, p) \<leftarrow> arm_read_register p (of_nat i);
         (result, p) \<leftarrow> arm_write_byte p addr (ucast v);
         if result \<noteq> 0 then Some (-1, p) else stm_loop p ins addr is
       } else do {
         let addr = addr + 1;
         (v, p) \<leftarrow> arm_read_register p (of_nat i);
         (result, p) \<leftarrow> arm_write_byte p addr (ucast v);
         if result \<noteq> 0 then Some (-1, p) else stm_loop p ins addr is
       }
     else stm_loop p ins addr is)"

definition stm :: "arm_core \<Rightarrow> u32 \<Rightarrow> (int \<times> arm_core) option" where
  "stm p ins = (
     if ins = 0 then Some (-1, p)
     else
       let b = ins_bit ins 22 in
       if b = 0 then do {
         let dest = ins_byte ins 16 0x04;
         (addr, p) \<leftarrow> arm_read_register p dest;
         stm_loop p ins addr [0..<15]
       } else Some (0, p))"

fun ldm_loop :: "arm_core \<Rightarrow> u32 \<Rightarrow> u32 \<Rightarrow> u8 \<Rightarrow> nat list \<Rightarrow> (int \<times> arm_core) option" where
  "ldm_loop p ins addr v [] = Some (0, p)"
| "ldm_loop p ins addr v (i # is) = (
     if ins_bit ins i = 1 then
       let bitP = ins_byte ins 24 1; bitU = ins_byte ins 23 1 in
       if bitP = 0 \<and> bitU = 0 then do {
         p \<leftarrow> arm_write_register p (of_nat i) (ucast v);
         ldm_loop p ins (addr - 1) v is
       } else if bitP = 0 \<and> bitU = 1 then do {
         p \<leftarrow> arm_write_register p (of_nat i) (ucast v);
         ldm_loop p ins (addr + 1) v is
       } else if bitP = 1 \<and> bitU = 0 then do {
         let addr = addr - 1;
         p \<leftarrow> arm_write_register p (of_nat i) (ucast v);
         ldm_loop p ins addr v is
       } else do {
         let addr = addr + 1;
         p \<leftarrow> arm_write_register p (of_nat i) (ucast v);
         ldm_loop p ins addr v is
       }
     else ldm_loop p ins addr v is)"

definition ldm :: "stack_junk \<Rightarrow> arm_core \<Rightarrow> u32 \<Rightarrow> (int \<times> arm_core) option" where
  "ldm u p ins = (
     if ins = 0 then Some (-1, p)
     else
       let b = ins_bit ins 22 in
       if b = 0 then do {
         let source = ins_byte ins 16 0x04;
         (addr, p) \<leftarrow> arm_read_register p source;
         (result, v, p) \<leftarrow> arm_read_byte p addr (junk_byte u);
         if result \<noteq> 0 then Some (-1, p) else ldm_loop p ins addr v [0..<15]
       } else Some (0, p))"

definition arm_load_store_multiple :: "stack_junk \<Rightarrow> arm_core \<Rightarrow> u32 \<Rightarrow> (int \<times> arm_core) option" where
  "arm_load_store_multiple u p ins = (
     if ins = 0 then Some (-1, p)
     else
       let ls = ins_bit ins 20 in
       if ls = ARM_INS_STORE then do { (_, p) \<leftarrow> stm p ins; Some (0, p) }
       else if ls = ARM_INS_LOAD then do { (_, p) \<leftarrow> ldm u p ins; Some (0, p) }
       else Some (0, p))"

definition arm_coprocessor_load_store :: "arm_core \<Rightarrow> u32 \<Rightarrow> (int \<times> arm_core) option" where
  "arm_coprocessor_load_store p ins = Some (UNDEFINED_INSTRUCTION, p)"

end
