(* ===== verification/Arm_Load_Store_Facts.thy ===== *)
theory Arm_Load_Store_Facts
  imports Arm_Load_Store Arm_Conditions
begin

text \<open>
  What the load and store instructions do: they keep the invariant, and the properties that say
  where each one reads and writes.
\<close>

section \<open>The invariant\<close>

lemma ins_byte_4: "ins_byte ins n 4 = 0 \<or> ins_byte ins n 4 = 4"
proof -
  have m: "(4 :: u32) = push_bit 2 1" by simp
  have "(drop_bit n ins AND 4 :: u32) = (if bit ins (n + 2) then 4 else 0)"
    unfolding m by (rule bit_word_eqI) (auto simp: bit_simps add.commute simp del: push_bit_of_1)
  then show ?thesis by (simp add: ins_byte_def)
qed

lemma ins_byte_4_less [simp]: "ins_byte ins n 4 < 16" "unat (ins_byte ins n 4) < 16"
  using ins_byte_4 [of ins n] by (auto simp: word_less_nat_alt)

lemma keeps_str_immediate [keeps_rules]:
  assumes "kept p q" "source < 16" "\<And>a v q'. kept p q' \<Longrightarrow> keeps p (f (a, v, q'))"
  shows "keeps p (Option.bind (str_immediate q source offset v_source bitP bitW bitU) f)"
  unfolding str_immediate_def Let_def using assms
  by (auto simp: bind_assoc intro!: keeps_rules)

lemma keeps_str_scaled [keeps_rules]:
  assumes "kept p q" "\<And>a v q'. kept p q' \<Longrightarrow> keeps p (f (a, v, q'))"
  shows "keeps p (Option.bind (str_scaled q Rm offset v_source bitP bitW bitU kind n) f)"
  unfolding str_scaled_def Let_def using assms
  by (auto simp: bind_assoc intro!: keeps_rules keeps_bind_value)

lemma keeps_str_register [keeps_rules]:
  assumes "kept p q" "\<And>a v q'. kept p q' \<Longrightarrow> keeps p (f (a, v, q'))"
  shows "keeps p (Option.bind (str_register q offset v_source bitP bitW bitU) f)"
  unfolding str_register_def Let_def using assms by auto

lemma str_keeps: "kept p q \<Longrightarrow> keeps p (str q ins)"
  unfolding str_def Let_def by (auto simp: bind_assoc intro!: keeps_rules)

lemma strb_keeps: "kept p q \<Longrightarrow> keeps p (strb q ins)"
  unfolding strb_def Let_def by (auto intro!: keeps_rules)

lemma strh_keeps: "kept p q \<Longrightarrow> keeps p (strh q ins)"
  unfolding strh_def Let_def by (auto intro!: keeps_rules)

lemma strb_strh_keeps: "kept p q \<Longrightarrow> keeps p (strb_strh q ins)"
  unfolding strb_strh_def Let_def by (auto intro!: keeps_rules keeps_bind strb_keeps strh_keeps)

lemma ldr_keeps: "kept p q \<Longrightarrow> keeps p (ldr u q ins)"
  unfolding ldr_def Let_def by (auto intro!: keeps_rules)

lemma ldrb_keeps: "kept p q \<Longrightarrow> keeps p (ldrb u q ins)"
  unfolding ldrb_def Let_def by (auto intro!: keeps_rules)

lemma ldrh_keeps: "kept p q \<Longrightarrow> keeps p (ldrh u q ins)"
  unfolding ldrh_def Let_def by (auto intro!: keeps_rules)

lemma ldrb_ldrh_keeps: "kept p q \<Longrightarrow> keeps p (ldrb_ldrh u q ins)"
  unfolding ldrb_ldrh_def Let_def by (auto intro!: keeps_rules keeps_bind ldrb_keeps ldrh_keeps)

lemma store_keeps: "kept p q \<Longrightarrow> keeps p (store q ins)"
  unfolding store_def Let_def by (auto intro!: keeps_rules keeps_bind str_keeps strb_strh_keeps)

lemma load_keeps: "kept p q \<Longrightarrow> keeps p (load u q ins)"
  unfolding load_def Let_def by (auto intro!: keeps_rules keeps_bind ldr_keeps ldrb_ldrh_keeps)

lemma arm_load_store_keeps: "kept p q \<Longrightarrow> keeps p (arm_load_store u q ins)"
  unfolding arm_load_store_def Let_def by (auto intro!: keeps_rules keeps_bind store_keeps load_keeps)

lemma stm_loop_keeps: "kept p q \<Longrightarrow> \<forall>i \<in> set is. i < 15 \<Longrightarrow> keeps p (stm_loop q ins addr is)"
  by (induction "is" arbitrary: q addr) (auto simp: Let_def intro!: keeps_rules)

lemma of_nat_reg_less: "i < 15 \<Longrightarrow> (of_nat i :: u8) < 16"
  by (simp add: word_less_nat_alt unat_of_nat)

lemma ldm_loop_keeps: "kept p q \<Longrightarrow> \<forall>i \<in> set is. i < 15 \<Longrightarrow> keeps p (ldm_loop q ins addr v is)"
  by (induction "is" arbitrary: q addr) (auto simp: Let_def of_nat_reg_less intro!: keeps_rules)

lemma stm_keeps: "kept p q \<Longrightarrow> keeps p (stm q ins)"
  unfolding stm_def Let_def by (auto intro!: keeps_rules stm_loop_keeps)

lemma ldm_keeps: "kept p q \<Longrightarrow> keeps p (ldm u q ins)"
  unfolding ldm_def Let_def by (auto intro!: keeps_rules ldm_loop_keeps)

lemma arm_load_store_multiple_keeps: "kept p q \<Longrightarrow> keeps p (arm_load_store_multiple u q ins)"
  unfolding arm_load_store_multiple_def Let_def by (auto intro!: keeps_rules keeps_bind stm_keeps ldm_keeps)

section \<open>What the accesses do\<close>

lemma arm_write_register_4 [core_simps]:
  "core_wf p \<Longrightarrow> arm_write_register p (ins_byte ins n 4) v =
     Some (log_call (set_reg p (unat (ins_byte ins n 4)) v)
       (Trace_register (cycle_count p) WRITE (ins_byte ins n 4) SVC v))"
  by (rule arm_write_register_wf) simp_all

lemma read_value_4 [simp]: "read_value p (ins_byte ins n 4) = gpr p (unat (ins_byte ins n 4))"
proof -
  have "ins_byte ins n 4 \<noteq> 15" using ins_byte_4 [of ins n] by auto
  then show ?thesis by (simp add: read_value_def)
qed

text \<open>The registers the fields name in the code: the field with all but its bit 2 cleared.\<close>

abbreviation base_reg :: "u32 \<Rightarrow> nat" where "base_reg ins \<equiv> unat (ins_byte ins 16 4)"
abbreviation data_reg :: "u32 \<Rightarrow> nat" where "data_reg ins \<equiv> unat (ins_byte ins 12 4)"

lemma arm_read_word_view:
  "arm_read_word p a v = Some (r, w, q) \<Longrightarrow> mem q = mem p \<and> gpr q = gpr p"
  by (auto simp: arm_read_word_def bind_eq_Some_conv)

lemma str_addressing:
  assumes "core_wf p"
  shows "str_immediate p (ins_byte ins 16 4) off vs bitP bitW bitU = Some (a, v, q) \<Longrightarrow>
      core_wf q \<and> mem q = mem p \<and> (\<forall>i < 16. i \<noteq> base_reg ins \<longrightarrow> gpr q i = gpr p i)"
    and "str_scaled p Rm w vs bitP bitW bitU kind n = Some (a, v, q) \<Longrightarrow> q = p"
    and "str_register p w vs bitP bitW bitU = Some (a, v, q) \<Longrightarrow> q = p"
proof -
  have "base_reg ins \<noteq> 16" "base_reg ins < 18" using ins_byte_4_less(2) [of ins 16] by linarith+
  then show "str_immediate p (ins_byte ins 16 4) off vs bitP bitW bitU = Some (a, v, q) \<Longrightarrow>
      core_wf q \<and> mem q = mem p \<and> (\<forall>i < 16. i \<noteq> base_reg ins \<longrightarrow> gpr q i = gpr p i)"
    using assms by (auto simp: str_immediate_def Let_def core_simps split: if_splits)
qed (auto simp: str_scaled_def str_register_def Let_def bind_eq_Some_conv split: if_splits)

text \<open>
  A store-word instruction stores nothing: whatever its addressing mode, if it returns, the
  memory is unchanged; the code reads the word at the address held by the data register into a
  local instead. At most the base register changes, and the result is 0.
\<close>

lemma store_word_writes_nothing:
  assumes "core_wf p" "\<not> bit ins 20" "\<not> bit ins 22" "ins \<noteq> 0" "arm_load_store u p ins = Some (r, q)"
  shows "r = 0 \<and> mem q = mem p \<and> (\<forall>i < 16. i \<noteq> base_reg ins \<longrightarrow> gpr q i = gpr p i)"
proof -
  have "ins_bit ins 20 = 0" "ins_bit ins 22 = 0" using assms(2,3) by (simp_all add: ins_bit_def and_1_bit)
  with assms(1,4,5) show ?thesis
    by (auto simp: arm_load_store_def store_def str_def ls_defs Let_def bind_eq_Some_conv core_simps
        dest!: arm_read_word_view str_addressing [rotated] split: if_splits)
qed

lemma store_word_writes_nothing_example:
  "\<exists>r q. arm_load_store no_junk sample_core 0xE5801000 = Some (r, q) \<and> mem q = mem sample_core"
proof -
  have "\<exists>r q. arm_load_store no_junk sample_core 0xE5801000 = Some (r, q)"
  proof -
    have b: "ins_byte 0xE5801000 16 4 = 0" "ins_byte 0xE5801000 12 4 = 0" "ins_byte 0xE5801000 0 12 = 0"
      "ins_bit 0xE5801000 20 = 0" "ins_bit 0xE5801000 22 = 0" "ins_bit 0xE5801000 25 = 0"
      "ins_bit 0xE5801000 24 = 1" "ins_bit 0xE5801000 23 = 1" "ins_bit 0xE5801000 21 = 0"
      by (simp_all add: ins_byte_def ins_bit_def)
    have "in_mem (mem sample_core) 0 4" by (simp add: in_mem_def sample_core_def sample_mem_wf)
    then show ?thesis
      by (simp add: arm_load_store_def store_def str_def ls_defs Let_def b core_simps str_immediate_def
          read_value_def arm_read_word_def read_word_in sample_mem_wf)
  qed
  then show ?thesis
    using store_word_writes_nothing [of sample_core "0xE5801000" no_junk] by (auto simp: bit_numeral_rec)
qed

text \<open>
  A load-word or load-byte instruction whose cell lies in the memory puts the big-endian word,
  or the zero-extended byte, in the data register, changes no other register and no memory, and
  returns 0; but both registers are the fields of the instruction with all bits but bit 2 cleared, so
  only R0 and R4 are ever used, and the offset of the addressing mode is ignored.
\<close>

lemma load_word_and_byte:
  assumes "core_wf p" "bit ins 20" "bit ins 26" "in_mem (mem p) (gpr p (base_reg ins)) (if bit ins 22 then 1 else 4)"
  shows "\<exists>q. arm_load_store u p ins = Some (0, q) \<and> mem q = mem p \<and> cpsr q = cpsr p \<and>
    (let a = gpr p (base_reg ins); m = mem p in
     \<forall>i < 16. gpr q i = (if i \<noteq> data_reg ins then gpr p i
       else if bit ins 22 then ucast (byte_at m a)
       else word_of (byte_at m a) (byte_at m (a + 1)) (byte_at m (a + 2)) (byte_at m (a + 3)))) \<and>
    base_reg ins \<in> {0, 4} \<and> data_reg ins \<in> {0, 4}"
proof -
  have bits: "ins_bit ins 20 = 1" "ins_bit ins 26 = 1" "ins_bit ins 22 = of_bool (bit ins 22)" "ins \<noteq> 0"
    using assms(2,3) by (auto simp: ins_bit_def and_1_bit)
  have r: "data_reg ins < 18" "data_reg ins < 16" using ins_byte_4_less(2) [of ins 12] by linarith+
  have s: "base_reg ins \<in> {0, 4}" "data_reg ins \<in> {0, 4}"
    using ins_byte_4 [of ins 16] ins_byte_4 [of ins 12] by auto
  show ?thesis
  proof (cases "bit ins 22")
    case True
    with assms bits s r show ?thesis
      by (auto simp: arm_load_store_def load_def ldrb_ldrh_def ldrb_def ls_defs core_simps Let_def
          arm_read_byte_def read_byte_in)
  next
    case False
    with assms bits s r show ?thesis
      by (auto simp: arm_load_store_def load_def ldr_def ls_defs core_simps Let_def
          arm_read_word_def read_word_in ENDIANESS_def)
  qed
qed

lemma load_word_and_byte_example:
  "\<exists>q. arm_load_store no_junk (set_reg sample_core 4 1) 0xE5940000 = Some (0, q) \<and> gpr q 0 = 0x02030405"
proof -
  have b: "bit (0xE5940000 :: u32) 20" "bit (0xE5940000 :: u32) 26" "\<not> bit (0xE5940000 :: u32) 22"
    "ins_byte 0xE5940000 16 4 = 4" "ins_byte 0xE5940000 12 4 = 0"
    by (simp_all add: ins_byte_def bit_numeral_rec)
  have m: "in_mem sample_mem 1 4" by (simp add: in_mem_def sample_mem_wf)
  have w: "word_of (byte_at sample_mem 1) (byte_at sample_mem (1 + 1)) (byte_at sample_mem (1 + 2))
      (byte_at sample_mem (1 + 3)) = 0x02030405"
    by code_simp
  show ?thesis
    using load_word_and_byte [of "set_reg sample_core 4 1" "0xE5940000" no_junk] b m w
    by (auto simp: Let_def)
qed

text \<open>
  A load whose address the memory refuses still returns 0, so no exception is taken: the
  dispatchers drop the -1 of the instruction. Registers and memory are unchanged.
\<close>

theorem failed_load_reports_success:
  assumes "core_wf p" "bit ins 20" "bit ins 26" "\<not> bit ins 22"
    "unat (taille (mem p)) < unat (gpr p (base_reg ins) + 3)"
  shows "(\<exists>q. ldr u p ins = Some (-1, q)) \<and>
    (\<exists>q. arm_load_store u p ins = Some (0, q) \<and> same_view p q)"
proof -
  have bits: "ins_bit ins 20 = 1" "ins_bit ins 26 = 1" "ins_bit ins 22 = 0" "ins \<noteq> 0"
    using assms(2-4) by (auto simp: ins_bit_def and_1_bit)
  have "memory_get_size (mem p) < ucast (gpr p (base_reg ins) + 3)"
    using assms(5) size_check [of "mem p" "gpr p (base_reg ins) + 3"] by simp
  then have "memory_read_word (mem p) (gpr p (base_reg ins)) v ENDIANESS = Some (-1, v)" for v
    by (simp add: memory_read_word_def)
  with assms bits show ?thesis
    by (simp add: arm_load_store_def load_def ldr_def ls_defs core_simps Let_def arm_read_word_def same_view_def)
qed

theorem failed_load_reports_success_witness:
  "\<exists>q. arm_load_store no_junk (set_reg sample_core 4 100) 0xE5940000 = Some (0, q) \<and>
     same_view (set_reg sample_core 4 100) q"
proof -
  have b: "bit (0xE5940000 :: u32) 20" "bit (0xE5940000 :: u32) 26" "\<not> bit (0xE5940000 :: u32) 22"
    "ins_byte 0xE5940000 16 4 = 4"
    by (simp_all add: ins_byte_def bit_numeral_rec)
  then show ?thesis
    using failed_load_reports_success [of "set_reg sample_core 4 100" "0xE5940000" no_junk]
    by (simp add: sample_mem_wf)
qed

text \<open>
  A store-byte instruction reaches the halfword store, because the bit that is tested is part of
  the load/store class and always set, and with base and data register exchanged: it writes the low
  halfword of the base register, two bytes, at the address held by the data register.
\<close>

lemma store_byte_writes_halfword:
  assumes "core_wf p" "\<not> bit ins 20" "bit ins 22" "bit ins 26" "in_mem (mem p) (gpr p (data_reg ins)) 2"
  shows "\<exists>q. arm_load_store u p ins = Some (0, q) \<and> reg q = reg p \<and>
    (let a = gpr p (data_reg ins); v = gpr p (base_reg ins) in
     byte_at (mem q) a = ucast (drop_bit 8 v) \<and> byte_at (mem q) (a + 1) = ucast v \<and>
     (\<forall>x. x \<noteq> a \<and> x \<noteq> a + 1 \<longrightarrow> byte_at (mem q) x = byte_at (mem p) x))"
proof -
  let ?a = "gpr p (data_reg ins)" and ?v = "gpr p (base_reg ins)"
  have bits: "ins_bit ins 20 = 0" "ins_bit ins 26 = 1" "ins_bit ins 22 = 1" "ins \<noteq> 0"
    using assms(2-4) by (auto simp: ins_bit_def and_1_bit)
  have h: "ucast (drop_bit 8 (ucast ?v :: u16)) = (ucast (drop_bit 8 ?v) :: u8)"
    "ucast (ucast ?v :: u16) = (ucast ?v :: u8)"
    by (rule bit_word_eqI; auto simp: bit_simps)+
  show ?thesis
    using assms(1,5) bits in_mem_2 [OF _ assms(5)]
    by (simp add: arm_load_store_def store_def strb_strh_def strh_def ls_defs core_simps Let_def
        arm_write_half_def write_half_in ENDIANESS_def h)
qed

lemma store_byte_writes_halfword_example:
  "\<exists>q. arm_load_store no_junk (set_reg sample_core 4 0xABCD) 0xE5C40000 = Some (0, q) \<and>
     byte_at (mem q) 0 = 0xAB \<and> byte_at (mem q) 1 = 0xCD"
proof -
  have b: "\<not> bit (0xE5C40000 :: u32) 20" "bit (0xE5C40000 :: u32) 26" "bit (0xE5C40000 :: u32) 22"
    "ins_byte 0xE5C40000 16 4 = 4" "ins_byte 0xE5C40000 12 4 = 0"
    by (simp_all add: ins_byte_def bit_numeral_rec)
  have m: "in_mem sample_mem 0 2" by (simp add: in_mem_def sample_mem_wf)
  show ?thesis
    using store_byte_writes_halfword [of "set_reg sample_core 4 0xABCD" "0xE5C40000" no_junk] b m
    by (auto simp: Let_def)
qed

section \<open>Multiple loads and stores\<close>

definition listed :: "u32 \<Rightarrow> nat list \<Rightarrow> u8 list" where
  "listed ins is = map of_nat (filter (bit ins) is)"

text \<open>The loop of LDM writes the same byte to every listed register, in the vocabulary of the interface.\<close>

lemma ldm_loop_registers:
  assumes "core_wf p" "\<forall>i \<in> set is. i < 15"
  shows "\<exists>q. ldm_loop p ins addr v is = Some (0, q) \<and> core_wf q \<and> mem q = mem p \<and>
    regs.wr_all (reg p) (listed ins is) (ucast v) = Some (reg q)"
  using assms
proof (induction "is" arbitrary: p addr)
  case (Cons i "is")
  have i: "(of_nat i :: u8) < 16" "unat (of_nat i :: u8) = i" using Cons.prems(2)
    by (simp_all add: word_less_nat_alt unat_of_nat)
  then have i18: "(of_nat i :: u8) < 18" by (simp add: word_less_nat_alt)
  let ?p = "log_call (set_reg p i (ucast v)) (Trace_register (cycle_count p) WRITE (of_nat i) SVC (ucast v))"
  have wr: "arm_write_register p (of_nat i) (ucast v) = Some ?p"
    using Cons.prems i by (simp add: arm_write_register_wf)
  have "i \<noteq> 16" using Cons.prems(2) by simp
  then have wp: "core_wf ?p" using Cons.prems(1) by simp
  have rw: "registers_write (reg p) (of_nat i) SVC (ucast v) = Some (reg ?p)"
    using Cons.prems(1) i i18 by (simp add: registers_write_wf)
  have b: "ins_bit ins i = 1 \<longleftrightarrow> bit ins i" by (simp add: ins_bit_def and_1_bit)
  show ?case using Cons.IH [OF wp] Cons.prems(2) wr rw b Cons.IH [OF Cons.prems(1)]
    by (auto simp: Let_def listed_def)
qed (simp add: listed_def)

text \<open>
  LDM loads one byte, at the address held by the base register (R0 or R4), and writes it
  zero-extended to every register of its list; the list is taken without R15, and the other
  registers and the memory do not change.
\<close>

lemma ldm_same_byte_everywhere:
  assumes "core_wf p" "bit ins 20" "\<not> bit ins 22" "in_mem (mem p) (gpr p (base_reg ins)) 1"
  shows "\<exists>q. arm_load_store_multiple u p ins = Some (0, q) \<and> mem q = mem p \<and>
    (\<forall>i < 16. gpr q i = (if bit ins i \<and> i \<noteq> 15 then ucast (byte_at (mem p) (gpr p (base_reg ins))) else gpr p i))"
proof -
  let ?v = "byte_at (mem p) (gpr p (base_reg ins))"
  have bits: "ins_bit ins 20 = 1" "ins_bit ins 22 = 0" "ins \<noteq> 0"
    using assms(2,3) by (auto simp: ins_bit_def and_1_bit)
  define p1 where "p1 = log_call (log_call p
    (Trace_register (cycle_count p) READ (ins_byte ins 16 4) SVC (gpr p (base_reg ins))))
    (Trace_memory (cycle_count p) READ 1 OTHER_ACCESS (gpr p (base_reg ins)) (ucast ?v))"
  have p1: "core_wf p1" "mem p1 = mem p" "reg p1 = reg p"
    "ldm u p ins = ldm_loop p1 ins (gpr p (base_reg ins)) ?v [0..<15]"
    using assms(1,4) bits
    by (simp_all add: p1_def ldm_def core_simps Let_def arm_read_byte_def read_byte_in del: upt_rec_numeral)
  obtain q where q: "ldm_loop p1 ins (gpr p (base_reg ins)) ?v [0..<15] = Some (0, q)" "core_wf q"
    "mem q = mem p1" "regs.wr_all (reg p1) (listed ins [0..<15]) (ucast ?v) = Some (reg q)"
    using ldm_loop_registers [OF p1(1), of "[0..<15]" ins "gpr p (base_reg ins)" ?v] by auto
  have lt: "\<forall>i \<in> set (listed ins [0..<15]). i < 16"
    by (auto simp: listed_def word_less_nat_alt unat_of_nat)
  have "gpr q i = (if bit ins i \<and> i \<noteq> 15 then ucast ?v else gpr p i)" if i: "i < 16" for i
  proof -
    have n: "(of_nat i :: u8) < 16" "(of_nat i :: u8) < 18" "unat (of_nat i :: u8) = i"
      using i by (simp_all add: word_less_nat_alt unat_of_nat)
    have m: "(of_nat i :: u8) \<in> set (listed ins [0..<15]) \<longleftrightarrow> bit ins i \<and> i \<noteq> 15"
      using i by (auto simp: listed_def word_unat_eq_iff unat_of_nat)
    have "registers_read (reg q) (of_nat i) SVC =
        (if (of_nat i :: u8) \<in> set (listed ins [0..<15]) then Some (ucast ?v)
         else registers_read (reg p1) (of_nat i) SVC)"
      using regs.wr_all_defined [of "reg p1" "listed ins [0..<15]" "ucast ?v"] lt q(4) p1(1) n(1) by auto
    then show ?thesis using p1(3) assms(1) q(2) n m
      by (auto simp: registers_read_wf gpr_def split: if_splits)
  qed
  then show ?thesis using bits p1 q
    by (auto simp: arm_load_store_multiple_def ls_defs Let_def)
qed

lemma ldm_same_byte_everywhere_example:
  "\<exists>q. arm_load_store_multiple no_junk (set_reg sample_core 4 2) 0xE8940006 = Some (0, q) \<and>
     gpr q 1 = 3 \<and> gpr q 2 = 3 \<and> gpr q 3 = 0"
proof -
  have b: "bit (0xE8940006 :: u32) 20" "\<not> bit (0xE8940006 :: u32) 22" "ins_byte 0xE8940006 16 4 = 4"
    "bit (0xE8940006 :: u32) 1" "bit (0xE8940006 :: u32) 2" "\<not> bit (0xE8940006 :: u32) 3"
    by (simp_all add: ins_byte_def bit_numeral_rec)
  have m: "in_mem sample_mem 2 1" "byte_at sample_mem 2 = 3"
    by (simp_all add: in_mem_def sample_mem_wf) code_simp
  show ?thesis
    using ldm_same_byte_everywhere [of "set_reg sample_core 4 2" "0xE8940006" no_junk] b m by auto
qed

text \<open>The loop of STM in increment-after mode: one byte per listed register, at consecutive addresses.\<close>

lemma stm_loop_increment_after:
  assumes "core_wf p" "\<forall>i \<in> set is. i < 15" "ins_byte ins 24 1 = 0" "ins_byte ins 23 1 = 1"
    "in_mem (mem p) a (length (filter (bit ins) is))"
  shows "\<exists>q. stm_loop p ins a is = Some (0, q) \<and> core_wf q \<and> reg q = reg p \<and> taille (mem q) = taille (mem p) \<and>
    (\<forall>x. byte_at (mem q) x = (if unat (x - a) < length (filter (bit ins) is)
       then ucast (gpr p (filter (bit ins) is ! unat (x - a))) else byte_at (mem p) x))"
  using assms(1,2,5)
proof (induction "is" arbitrary: p a)
  case (Cons i "is")
  have b: "ins_bit ins i = 1 \<longleftrightarrow> bit ins i" by (simp add: ins_bit_def and_1_bit)
  show ?case
  proof (cases "bit ins i")
    case False
    with Cons.IH [of p a] Cons.prems b show ?thesis by auto
  next
    case True
    let ?rs = "filter (bit ins) is"
    have i: "(of_nat i :: u8) < 16" "unat (of_nat i :: u8) = i" "(of_nat i :: u8) \<noteq> 15" using Cons.prems(2)
      by (simp_all add: word_less_nat_alt unat_of_nat word_unat_eq_iff)
    have a: "in_mem (mem p) a 1" "unat a < unat (taille (mem p))"
      using Cons.prems(3) True by (simp_all add: in_mem_def)
    define v where "v = (ucast (gpr p i) :: u8)"
    define q where "q = (log_call p (Trace_register (cycle_count p) READ (of_nat i) SVC (gpr p i)))
        \<lparr>mem := mem_upd (mem p) a v\<rparr>"
    define q' where "q' = log_call q (Trace_memory (cycle_count p) WRITE 1 OTHER_ACCESS a (ucast v))"
    have step: "stm_loop p ins a (i # is) = stm_loop q' ins (a + 1) is"
      using True b i a Cons.prems(1) assms(3,4)
      by (simp add: arm_read_register_wf read_value_def arm_write_byte_def write_byte_in q_def q'_def v_def)
    have wq: "core_wf q'" using Cons.prems(1) by (simp add: q'_def q_def core_wf_mem_update)
    have view: "reg q' = reg p" "mem q' = mem_upd (mem p) a v" "gpr q' = gpr p"
      by (auto simp: q'_def q_def gpr_def)
    have "unat (taille (mem p)) < 2 ^ 32" using mem_wfE [OF core_wf_sel(2) [OF Cons.prems(1)]] .
    then have s: "unat (a + 1) = unat a + 1" using a(2) by (simp add: unat_word_ariths)
    have "in_mem (mem q') (a + 1) (length ?rs)"
      using Cons.prems(3) True by (simp add: view in_mem_def s)
    then obtain r where r: "stm_loop q' ins (a + 1) is = Some (0, r)" "core_wf r" "reg r = reg p"
      "taille (mem r) = taille (mem p)"
      "\<forall>x. byte_at (mem r) x = (if unat (x - (a + 1)) < length ?rs
         then ucast (gpr p (?rs ! unat (x - (a + 1)))) else byte_at (mem_upd (mem p) a v) x)"
      using Cons.IH [OF wq, of "a + 1"] Cons.prems(2) view by auto
    have all: "byte_at (mem r) x = (if unat (x - a) < length (i # ?rs)
       then ucast (gpr p ((i # ?rs) ! unat (x - a))) else byte_at (mem p) x)" for x
    proof (cases "x = a")
      case True
      have "unat (- 1 :: u32) = 2 ^ 32 - 1"
        by (simp only: unsigned_minus_1_eq_mask mask_eq_exp_minus_1) simp
      moreover have "length ?rs < 2 ^ 32 - 1"
        using length_filter_le [of "bit ins" "is"] Cons.prems(3) \<open>bit ins i\<close> \<open>unat (taille (mem p)) < 2 ^ 32\<close>
        by (simp add: in_mem_def)
      ultimately show ?thesis using r(5) True a(2) Cons.prems(1) by (simp add: v_def)
    next
      case False
      then have "unat (x - a) = Suc (unat (x - (a + 1)))"
        using unat_minus_one [of "x - a"] by (simp add: algebra_simps unat_gt_0)
      with r(5) False a(2) Cons.prems(1) show ?thesis by simp
    qed
    have filt: "filter (bit ins) (i # is) = i # ?rs" using True by simp
    show ?thesis unfolding step filt
      by (intro exI [of _ r] conjI allI) (fact r(1) r(2) r(3) r(4) all)+
  qed
qed simp

text \<open>
  STM in increment-after mode stores bytes, not words: the low byte of the n-th listed register
  goes to the address held by the base register plus n, every other byte and all registers are
  unchanged; R15 is left out of the list.
\<close>

lemma stm_stores_low_bytes:
  assumes "core_wf p" "\<not> bit ins 20" "\<not> bit ins 22" "bit ins 23" "\<not> bit ins 24"
    "in_mem (mem p) (gpr p (base_reg ins)) (length (filter (bit ins) [0..<15]))"
  shows "\<exists>q. arm_load_store_multiple u p ins = Some (0, q) \<and> reg q = reg p \<and>
    (let rs = filter (bit ins) [0..<15]; a = gpr p (base_reg ins) in
     \<forall>x. byte_at (mem q) x = (if unat (x - a) < length rs
       then ucast (gpr p (rs ! unat (x - a))) else byte_at (mem p) x))"
proof -
  have bits: "ins_bit ins 20 = 0" "ins_bit ins 22 = 0" "ins \<noteq> 0" "ins_byte ins 23 1 = 1" "ins_byte ins 24 1 = 0"
    using assms(2-5) by (auto simp: ins_bit_def ins_byte_def and_1_bit)
  define p1 where "p1 = log_call p
    (Trace_register (cycle_count p) READ (ins_byte ins 16 4) SVC (gpr p (base_reg ins)))"
  have p1: "core_wf p1" "mem p1 = mem p" "reg p1 = reg p" "gpr p1 = gpr p"
    using assms(1) by (auto simp: p1_def)
  have stm: "stm p ins = stm_loop p1 ins (gpr p (base_reg ins)) [0..<15]"
    using assms(1) bits by (simp add: stm_def core_simps Let_def p1_def del: upt_rec_numeral)
  obtain q where "stm_loop p1 ins (gpr p (base_reg ins)) [0..<15] = Some (0, q)" "reg q = reg p1"
    "\<forall>x. byte_at (mem q) x = (if unat (x - gpr p (base_reg ins)) < length (filter (bit ins) [0..<15])
       then ucast (gpr p1 (filter (bit ins) [0..<15] ! unat (x - gpr p (base_reg ins)))) else byte_at (mem p1) x)"
    using stm_loop_increment_after [OF p1(1), of "[0..<15]" ins "gpr p (base_reg ins)"] bits p1(2) assms(6)
    by (auto simp del: upt_rec_numeral)
  then show ?thesis
    using bits stm p1 by (simp add: arm_load_store_multiple_def ls_defs Let_def del: upt_rec_numeral)
qed

lemma stm_stores_low_bytes_example:
  "\<exists>q. arm_load_store_multiple no_junk (set_reg (set_reg sample_core 4 2) 1 0x1234) 0xE8840006 = Some (0, q) \<and>
     byte_at (mem q) 2 = 0x34 \<and> byte_at (mem q) 3 = 0 \<and> byte_at (mem q) 4 = 5"
proof -
  let ?p = "set_reg (set_reg sample_core 4 2) 1 0x1234"
  have b: "\<not> bit (0xE8840006 :: u32) 20" "\<not> bit (0xE8840006 :: u32) 22" "bit (0xE8840006 :: u32) 23"
    "\<not> bit (0xE8840006 :: u32) 24" "ins_byte 0xE8840006 16 4 = 4"
    by (simp_all add: ins_byte_def bit_numeral_rec)
  have f: "filter (bit (0xE8840006 :: u32)) [0..<15] = [1, 2]" by code_simp
  have m: "byte_at sample_mem 4 = 5" by code_simp
  show ?thesis
    using stm_stores_low_bytes [of ?p "0xE8840006" no_junk] b f m
    by (auto simp: Let_def in_mem_def sample_mem_wf simp del: upt_rec_numeral)
qed

end
