(* ===== verification/Arm_Instruction.thy ===== *)
theory Arm_Instruction
  imports Arm_Logged Arm_Load_Store_Facts
begin

text \<open>
  \<^verbatim>\<open>arm_instruction.c\<close>: fetch, condition check and dispatch on the type field of the
  instruction, and the step with its exception; with the properties of a whole step.
\<close>

section \<open>Dispatch\<close>

definition ARM_TYPE_DATA_PROCESSING :: u32 where "ARM_TYPE_DATA_PROCESSING = 0x0"
definition ARM_TYPE_DATA_IMMEDIATE_MSR :: u32 where "ARM_TYPE_DATA_IMMEDIATE_MSR = 0x1"
definition ARM_TYPE_LOAD_STORE :: u32 where "ARM_TYPE_LOAD_STORE = 0x2"
definition ARM_TYPE_LOAD_STORE_MULTIPLE :: u32 where "ARM_TYPE_LOAD_STORE_MULTIPLE = 0x4"
definition ARM_TYPE_BRANCH_OTHER :: u32 where "ARM_TYPE_BRANCH_OTHER = 0x5"
definition ARM_TYPE_COPROCESSOR_LOAD_STORE :: u32 where "ARM_TYPE_COPROCESSOR_LOAD_STORE = 0x6"

lemmas type_defs = ARM_TYPE_DATA_PROCESSING_def ARM_TYPE_DATA_IMMEDIATE_MSR_def
  ARM_TYPE_LOAD_STORE_def ARM_TYPE_LOAD_STORE_MULTIPLE_def ARM_TYPE_BRANCH_OTHER_def
  ARM_TYPE_COPROCESSOR_LOAD_STORE_def

text \<open>\<open>junk_word u\<close> is also the content of the locals \<open>instruction\<close> before the fetch.\<close>

definition arm_execute_instruction :: "stack_junk \<Rightarrow> arm_core \<Rightarrow> (int \<times> arm_core) option" where
  "arm_execute_instruction u p = do {
     (result, instruction, p) \<leftarrow> arm_fetch p (junk_word u);
     if result \<noteq> 0 then Some (result, p)
     else do {
       let type = drop_bit 25 instruction AND 0x07;
       (c, p) \<leftarrow> arm_check_cond p instruction;
       if c \<noteq> 0 then
         (if type = ARM_TYPE_DATA_PROCESSING then arm_data_processing_shift p instruction
          else if type = ARM_TYPE_DATA_IMMEDIATE_MSR then arm_data_processing_immediate_msr p instruction
          else if type = ARM_TYPE_LOAD_STORE then arm_load_store u p instruction
          else if type = ARM_TYPE_LOAD_STORE_MULTIPLE then arm_load_store_multiple u p instruction
          else if type = ARM_TYPE_COPROCESSOR_LOAD_STORE then arm_coprocessor_load_store p instruction
          else if type = ARM_TYPE_BRANCH_OTHER then arm_branch p instruction
          else Some (UNDEFINED_INSTRUCTION, p))
       else Some (result, p)
     }
   }"

text \<open>The result is narrowed to the byte that \<open>arm_exception\<close> takes.\<close>

definition arm_step :: "stack_junk \<Rightarrow> arm_core \<Rightarrow> (int \<times> arm_core) option" where
  "arm_step u p = do {
     (result, p) \<leftarrow> arm_execute_instruction u p;
     if result \<noteq> 0 then arm_exception (junk_word u) p (word_of_int result) else Some (result, p)
   }"

section \<open>What the parts of a step keep\<close>

lemma data_processing_shift_keeps:
  assumes "core_wf p" "arm_data_processing_shift p ins = Some (r, q)"
  shows "r = 0 \<and> kept p q"
proof (cases "code_operand p ins")
  case None
  then have "shift p ins = None" using shift_eval [OF assms(1), of ins] by auto
  then show ?thesis using assms(2) by (simp add: arm_data_processing_shift_def)
next
  case (Some vc)
  then obtain b co q1 where q: "shift p ins = Some (b, of_bool co, q1)" "core_wf q1" "same_view p q1"
    using shift_eval [OF assms(1), of ins] by (cases vc) auto
  then have "r = 0"
    using alu_dispatch_step [OF q(2,3), of ins b co] assms(2)
    by (auto simp: arm_data_processing_shift_def opcode_of_def rn_of_def rd_of_def s_of_def Let_def)
  with keepsD [OF data_processing_keeps(1) [OF kept_refl] assms(2)] assms(1) show ?thesis by simp
qed

lemma data_processing_immediate_keeps:
  assumes "core_wf p" "arm_data_processing_immediate_msr p ins = Some (r, q)"
  shows "r = 0 \<and> kept p q"
proof (cases "drop_bit 8 ins AND 0x0F = 0")
  case True
  then show ?thesis using assms
    by (simp add: arm_data_processing_immediate_msr_def rotate_immediate_eval)
next
  case False
  then have "r = 0"
    using alu_dispatch_step [OF assms(1) same_view_refl, of ins "manual_immediate ins"
        "bit (manual_immediate ins) 31"] assms
    by (auto simp: arm_data_processing_immediate_msr_def rotate_immediate_eval opcode_of_def rn_of_def
        rd_of_def s_of_def Let_def)
  with keepsD [OF data_processing_keeps(2) [OF kept_refl] assms(2)] assms(1) show ?thesis by simp
qed

lemma branch_keeps:
  assumes "core_wf p" "arm_branch p ins = Some (r, q)"
  shows "(r = 0 \<or> r = -1) \<and> kept p q"
  using arm_branch_eval [OF assms(1), of ins] assms(2) keepsD [OF arm_branch_keeps [OF kept_refl] assms(2)] assms(1)
  by auto

lemma load_store_results:
  "arm_load_store u p ins = Some (r, q) \<Longrightarrow> r = 0 \<or> r = -1"
  "arm_load_store_multiple u p ins = Some (r, q) \<Longrightarrow> r = 0 \<or> r = -1"
  by (auto simp: arm_load_store_def arm_load_store_multiple_def Let_def bind_eq_Some_conv split: if_splits)

section \<open>Fetch and dispatch\<close>

text \<open>The state after the fetch, up to the trace.\<close>

definition fetched :: "arm_core \<Rightarrow> arm_core" where
  "fetched p = (set_reg p 15 (gpr p 15 + 4))\<lparr>cycle_count := cycle_count p + 1\<rparr>"

lemma fetched_sel [simp]:
  "mem (fetched p) = mem p" "console (fetched p) = console p" "cycle_count (fetched p) = cycle_count p + 1"
  "reg (fetched p) = reg_upd (reg p) 15 (gpr p 15 + 4)" "trace (fetched p) = trace p"
  by (simp_all add: fetched_def)

lemma fetched_wf [simp]: "core_wf p \<Longrightarrow> core_wf (fetched p)"
  by (simp add: core_wf_def reg_upd_wf del: core_wf_sel)

lemma gpr_fetched [simp]:
  "core_wf p \<Longrightarrow> gpr (fetched p) i = (if i = 15 then gpr p 15 + 4 else gpr p i)"
  "core_wf p \<Longrightarrow> cpsr (fetched p) = cpsr p"
  by (simp_all add: gpr_def cpsr_def)

lemma arm_fetch_eval:
  assumes "core_wf p"
  shows "arm_fetch p v = map_option
    (\<lambda>(r, w). (r, w, log_call (fetched p) (Trace_memory (cycle_count p + 1) READ 4 OPCODE_FETCH (gpr p 15) w)))
    (memory_read_word (mem p) (gpr p 15) v ENDIANESS)"
  using assms
  by (cases "memory_read_word (mem p) (gpr p 15) v ENDIANESS")
    (auto simp: arm_fetch_def get_mode_wf registers_read_wf registers_write_wf gpr_def fetched_def
      set_reg_def Let_def)

text \<open>What happens to the fetched instruction, as a function of the state after fetch and check.\<close>

definition dispatch :: "stack_junk \<Rightarrow> arm_core \<Rightarrow> u32 \<Rightarrow> (int \<times> arm_core) option" where
  "dispatch u p ins = (
     let type = drop_bit 25 ins AND 0x07 in
     if type = ARM_TYPE_DATA_PROCESSING then arm_data_processing_shift p ins
     else if type = ARM_TYPE_DATA_IMMEDIATE_MSR then arm_data_processing_immediate_msr p ins
     else if type = ARM_TYPE_LOAD_STORE then arm_load_store u p ins
     else if type = ARM_TYPE_LOAD_STORE_MULTIPLE then arm_load_store_multiple u p ins
     else if type = ARM_TYPE_COPROCESSOR_LOAD_STORE then arm_coprocessor_load_store p ins
     else if type = ARM_TYPE_BRANCH_OTHER then arm_branch p ins
     else Some (UNDEFINED_INSTRUCTION, p))"

lemma dispatch_keeps:
  assumes "core_wf p" "dispatch u p ins = Some (r, q)"
  shows "r \<in> {0, -1, UNDEFINED_INSTRUCTION} \<and> kept p q"
  using assms
  by (auto simp: dispatch_def Let_def arm_coprocessor_load_store_def kept_refl split: if_splits
      dest: data_processing_shift_keeps data_processing_immediate_keeps branch_keeps load_store_results
        keepsD [OF arm_load_store_keeps [OF kept_refl]] keepsD [OF arm_load_store_multiple_keeps [OF kept_refl]])

lemma execute_eval:
  assumes "core_wf p"
  shows "arm_execute_instruction u p =
    (case memory_read_word (mem p) (gpr p 15) (junk_word u) ENDIANESS of
       None \<Rightarrow> None
     | Some (r, ins) \<Rightarrow>
         let q = log_call (fetched p) (Trace_memory (cycle_count p + 1) READ 4 OPCODE_FETCH (gpr p 15) ins) in
         if r \<noteq> 0 then Some (r, q)
         else let q' = log_call q (Trace_register (cycle_count p + 1) READ CPSR 0 (cpsr p)) in
           if cond_value (cond_field ins) (cpsr p) \<noteq> 0 then dispatch u q' ins else Some (0, q'))"
  using assms
  by (cases "memory_read_word (mem p) (gpr p 15) (junk_word u) ENDIANESS")
    (auto simp: arm_execute_instruction_def arm_fetch_eval core_simps dispatch_def Let_def)

lemma execute_keeps:
  assumes "core_wf p" "arm_execute_instruction u p = Some (r, q)"
  shows "r \<in> {0, -1, UNDEFINED_INSTRUCTION} \<and> kept (fetched p) q"
proof -
  let ?m = "memory_read_word (mem p) (gpr p 15) (junk_word u) ENDIANESS"
  obtain r1 ins where m: "?m = Some (r1, ins)" "r1 = 0 \<or> r1 = -1"
    using assms execute_eval [OF assms(1), of u] read_word_result
    by (cases ?m) (auto split: prod.splits dest: read_word_result)
  let ?q = "log_call (log_call (fetched p) (Trace_memory (cycle_count p + 1) READ 4 OPCODE_FETCH (gpr p 15) ins))
    (Trace_register (cycle_count p + 1) READ CPSR 0 (cpsr p))"
  have k: "core_wf ?q" "kept (fetched p) ?q" using assms(1) by (simp_all add: kept_def)
  show ?thesis
  proof (cases "r1 = 0 \<and> cond_value (cond_field ins) (cpsr p) \<noteq> 0")
    case True
    then have "dispatch u ?q ins = Some (r, q)"
      using assms m by (simp add: execute_eval Let_def)
    then show ?thesis using dispatch_keeps [OF k(1)] kept_trans [OF k(2)] by blast
  next
    case False
    then show ?thesis using assms m
      by (auto simp: execute_eval Let_def kept_def split: if_splits)
  qed
qed

lemma arm_exception_results:
  assumes "core_wf p" "r \<in> {0, -1, UNDEFINED_INSTRUCTION}" "r \<noteq> 0"
  shows "arm_exception v p (word_of_int r) = Some (if r = -1 then 255 else 7, p)"
  using assms by (auto simp: arm_exception_other exception_defs minus_1_u8)

text \<open>The step as the code composes it: what it returns and what it keeps.\<close>

lemma step_keeps:
  assumes "core_wf p" "arm_step u p = Some (r, q)"
  shows "r \<in> {0, 7, 255} \<and> kept (fetched p) q"
proof -
  obtain r1 q1 where x: "arm_execute_instruction u p = Some (r1, q1)"
    using assms(2) by (auto simp: arm_step_def bind_eq_Some_conv)
  note k = execute_keeps [OF assms(1) x]
  then have "core_wf q1" by (auto simp: kept_def)
  with k x assms(2) show ?thesis
    using arm_exception_results [of q1 r1 "junk_word u"]
    by (auto simp: arm_step_def split: if_splits)
qed

section \<open>Runs of the simulator\<close>

text \<open>
  The main loop of the simulator executes one step after the other, each with its own uninitialised
  locals. \<open>runs n p rs q\<close>: from \<open>p\<close>, \<open>n\<close> steps lead to \<open>q\<close> and return the codes \<open>rs\<close>.
\<close>

inductive runs :: "nat \<Rightarrow> arm_core \<Rightarrow> int list \<Rightarrow> arm_core \<Rightarrow> bool" where
  runs_0: "runs 0 p [] p"
| runs_Suc: "runs n p rs q \<Longrightarrow> arm_step u q = Some (r, q') \<Longrightarrow> runs (Suc n) p (rs @ [r]) q'"

inductive_cases runs_SucE: "runs (Suc n) p rs q"

inductive_simps runs_0_simp: "runs 0 p rs q"

lemma runs_keep:
  assumes "runs n p rs q" "core_wf p"
  shows "core_wf q \<and> taille (mem q) = taille (mem p) \<and> console q = console p \<and>
    cycle_count q = cycle_count p + of_nat n \<and> length rs = n \<and> set rs \<subseteq> {0, 7, 255} \<and> logged p q"
  using assms
proof induction
  case (runs_Suc n p rs q u r q')
  then have q: "core_wf q" by simp
  from step_keeps [OF q runs_Suc.hyps(2)] runs_Suc show ?case
    by (auto simp: kept_def ac_simps logged_same_trace(2) [of "fetched q" q] intro: logged_trans)
qed simp

section \<open>Properties of a step\<close>

text \<open>
  (C14) Every run of the simulator keeps its invariant: from a well-formed processor, any number of
  steps leads to a well-formed one (18 registers, reserved CPSR bits zero, the memory block with its
  size), the memory keeps its size, and the cycle counter counts the steps modulo 2^32.
\<close>

theorem runs_invariant:
  assumes "runs n p rs q" "core_wf p"
  shows "core_wf q \<and> taille (mem q) = taille (mem p) \<and> cycle_count q = cycle_count p + of_nat n"
  using runs_keep [OF assms] by simp

text \<open>
  (C34) A step returns only 0, UNDEFINED_INSTRUCTION (7), or 255 (the -1 of a failed fetch or
  branch, narrowed to a byte). SOFTWARE_INTERRUPT and END_SIMULATION are never returned, so no program
  stops the simulator with the SWI that \<^verbatim>\<open>arm_exception.c\<close> handles, and nothing is
  ever printed on the console.
\<close>

theorem no_run_ends_the_simulation:
  assumes "runs n p rs q" "core_wf p"
  shows "set rs \<subseteq> {0, 7, 255} \<and> END_SIMULATION \<notin> set rs \<and> SOFTWARE_INTERRUPT \<notin> set rs \<and>
    console q = console p"
  using runs_keep [OF assms] by (auto simp: exception_defs)

text \<open>
  An instruction whose condition fails has the only effect of its fetch: the program counter
  advances by 4, the cycle counter by 1, and the step returns 0.
\<close>

lemma failed_condition_skips:
  assumes "core_wf p" "in_mem (mem p) (gpr p 15) 4"
    "memory_read_word (mem p) (gpr p 15) 0 ENDIANESS = Some (0, ins)"
    "cond_field ins \<noteq> UN_cond" "\<not> cond_spec (cond_field ins) (cpsr p)"
  shows "\<exists>q. arm_step u p = Some (0, q) \<and> mem q = mem p \<and> cpsr q = cpsr p \<and>
    cycle_count q = cycle_count p + 1 \<and> (\<forall>i < 16. gpr q i = (if i = 15 then gpr p 15 + 4 else gpr p i))"
proof -
  have m: "memory_read_word (mem p) (gpr p 15) (junk_word u) ENDIANESS = Some (0, ins)"
    using assms(1-3) by (simp add: read_word_in)
  have "cond_value (cond_field ins) (cpsr p) = 0"
    using assms(4,5) by (auto simp: cond_value_def cond_spec_def cond_defs split: if_splits)
  with m show ?thesis using assms(1) by (simp add: arm_step_def execute_eval Let_def)
qed

text \<open>
  The instruction classes that the dispatch does not know: SWI (type 7), the load and store with
  register offset (type 3) and the coprocessor accesses (type 6) all end as an undefined
  instruction, with code 7 and no effect but the fetch.
\<close>

lemma undispatched_classes_undefined:
  assumes "core_wf p" "in_mem (mem p) (gpr p 15) 4"
    "memory_read_word (mem p) (gpr p 15) 0 ENDIANESS = Some (0, ins)"
    "cond_value (cond_field ins) (cpsr p) \<noteq> 0" "drop_bit 25 ins AND 0x07 \<in> {3, 6, 7}"
  shows "\<exists>q. arm_step u p = Some (UNDEFINED_INSTRUCTION, q) \<and> mem q = mem p \<and> cpsr q = cpsr p \<and>
    (\<forall>i < 16. gpr q i = (if i = 15 then gpr p 15 + 4 else gpr p i))"
proof -
  have m: "memory_read_word (mem p) (gpr p 15) (junk_word u) ENDIANESS = Some (0, ins)"
    using assms(1-3) by (simp add: read_word_in)
  have d: "dispatch u q ins = Some (UNDEFINED_INSTRUCTION, q)" for q
    using assms(5) by (auto simp: dispatch_def type_defs arm_coprocessor_load_store_def)
  show ?thesis using assms(1,4) m
    by (simp add: arm_step_def execute_eval d Let_def) (simp add: arm_exception_other exception_defs)
qed

text \<open>
  (C40) A taken branch at a word-aligned address goes to the address of the branch plus 8 minus the 24-bit field of the
  instruction: the field is negated instead of being sign-extended and multiplied by 4, so a branch
  never goes forward beyond the pipeline offset. BL stores the address of the branch plus 12 in R14,
  where the manual asks for the address plus 4. (When R15 is not word-aligned, what it reads as, \<open>read_value p 15\<close>,
  takes the place of the address plus 8.) A condition that fails in the second check gives -1.
\<close>

theorem branch_target:
  assumes "core_wf p"
  shows "\<exists>q. arm_branch p ins = Some (if cond_value (cond_field ins) (cpsr p) = 1 then 0 else -1, q) \<and>
    mem q = mem p \<and> cpsr q = cpsr p \<and>
    (\<forall>i < 16. gpr q i = (if cond_value (cond_field ins) (cpsr p) \<noteq> 1 then gpr p i
      else if i = 15 then read_value p 15 - (ins AND 0xFFFFFF)
      else if i = 14 \<and> bit ins 24 then read_value p 15 + 4 else gpr p i))"
  using arm_branch_eval [OF assms, of ins] by blast

theorem branch_target_witness:
  "\<exists>q. arm_branch (set_reg sample_core 15 0x1004) 0xEB000010 = Some (0, q) \<and>
    gpr q 15 = 0xFF8 \<and> gpr q 14 = 0x100C"
proof -
  have "cond_field 0xEB000010 = AL" "cond_value AL 0 = 1" "bit (0xEB000010 :: u32) 24"
    "read_value (set_reg sample_core 15 0x1004) 15 = 0x1008"
    by (simp_all add: cond_field_def cond_value_def cond_spec_def cond_defs read_value_def bit_numeral_rec)
  then show ?thesis
    using branch_target [of "set_reg sample_core 15 0x1004" "0xEB000010"] by auto
qed

section \<open>Witnesses\<close>

text \<open>A program of two words: MOVEQ, which is skipped because Z is clear, and SWI.\<close>

definition program_core :: "u8 \<Rightarrow> u8 \<Rightarrow> arm_core" where
  "program_core b3 b0 = sample_core\<lparr>mem := \<lparr>mem_value = Some [b3, 0, 0, b0, 0, 0, 0, 0], taille = 8\<rparr>\<rparr>"

lemma program_core_facts [simp]:
  "core_wf (program_core b3 b0)" "gpr (program_core b3 b0) i = 0" "cpsr (program_core b3 b0) = 0"
  "in_mem (mem (program_core b3 b0)) 0 4"
  "memory_read_word (mem (program_core b3 b0)) 0 v ENDIANESS = Some (0, word_of b3 0 0 b0)"
proof -
  let ?m = "\<lparr>mem_value = Some [b3, 0, 0, b0, 0, 0, 0, 0], taille = 8\<rparr>"
  have w: "mem_wf ?m" "in_mem ?m 0 4" by (simp_all add: mem_wf_def in_mem_def)
  show "core_wf (program_core b3 b0)"
    unfolding program_core_def by (rule core_wf_mem_update) (simp_all add: w)
  show "in_mem (mem (program_core b3 b0)) 0 4" using w(2) by (simp add: program_core_def)
  show "memory_read_word (mem (program_core b3 b0)) 0 v ENDIANESS = Some (0, word_of b3 0 0 b0)"
    using read_word_in [OF w] by (simp add: program_core_def ENDIANESS_def byte_at_def)
  show "gpr (program_core b3 b0) i = 0" "cpsr (program_core b3 b0) = 0"
    using sample_core_regs by (simp_all add: program_core_def gpr_def cpsr_def)
qed

lemma program_core_sel [simp]:
  "cycle_count (program_core b3 b0) = 0" "console (program_core b3 b0) = []"
  by (simp_all add: program_core_def sample_core_def)

lemma failed_condition_skips_example:
  "\<exists>q. arm_step no_junk (program_core 0x00 1) = Some (0, q) \<and> gpr q 15 = 4"
proof -
  have "word_of 0 0 0 1 = 1" "cond_field 1 = EQ" "\<not> cond_spec EQ 0" "EQ \<noteq> UN_cond"
    by (code_simp, simp_all add: cond_field_def cond_spec_def flag_defs cond_defs)
  then show ?thesis
    using failed_condition_skips [of "program_core 0 1" 1 no_junk] by auto
qed

lemma undispatched_classes_undefined_example:
  "\<exists>q. arm_step no_junk (program_core 0xEF 1) = Some (UNDEFINED_INSTRUCTION, q) \<and> gpr q 15 = 4"
proof -
  have "word_of 0xEF 0 0 1 = 0xEF000001" by code_simp
  moreover have "cond_value (cond_field 0xEF000001) 0 = 1"
    by (simp add: cond_field_def cond_value_def cond_spec_def cond_defs)
  ultimately show ?thesis
    using undispatched_classes_undefined [of "program_core 0xEF 1" "0xEF000001" no_junk] by auto
qed

lemma program_runs:
  "\<exists>q. runs 1 (program_core 0xEF 1) [7] q"
proof -
  have "word_of 0xEF 0 0 1 = 0xEF000001" by code_simp
  moreover have "cond_value (cond_field 0xEF000001) 0 = 1"
    by (simp add: cond_field_def cond_value_def cond_spec_def cond_defs)
  moreover have "dispatch u q 0xEF000001 = Some (7, q)" for u q
    by (simp add: dispatch_def type_defs exception_defs)
  ultimately have "\<exists>q. arm_step u (program_core 0xEF 1) = Some (7, q)" for u
    by (simp add: arm_step_def execute_eval Let_def) (simp add: arm_exception_other exception_defs)
  then obtain q where "arm_step \<lparr>junk_word = 0, junk_half = 0, junk_byte = 0\<rparr> (program_core 0xEF 1) = Some (7, q)"
    by blast
  from runs_Suc [OF runs_0 this] show ?thesis by auto
qed

theorem runs_invariant_witness:
  "\<exists>q. runs 1 (program_core 0xEF 1) [7] q \<and> core_wf q \<and> cycle_count q = 1"
proof -
  obtain q where "runs 1 (program_core 0xEF 1) [7] q" using program_runs by blast
  with runs_invariant [OF this] show ?thesis by auto
qed

theorem no_run_ends_the_simulation_witness:
  "\<exists>q. runs 1 (program_core 0xEF 1) [7] q \<and> console q = []"
proof -
  obtain q where "runs 1 (program_core 0xEF 1) [7] q" using program_runs by blast
  with no_run_ends_the_simulation [OF this] show ?thesis by auto
qed

end
