(* ===== verification/Gdb_Breakpoints.thy ===== *)
theory Gdb_Breakpoints
  imports C_Prelude
begin

text \<open>
  The breakpoint table of \<^verbatim>\<open>gdb_protocol.c\<close>: a sorted array searched by bisection. The
  operations refine a finite set of at most 1024 addresses; the interface of that set is the locale
  \<open>breakpoint_set\<close>, interpreted on the operations of the code.
\<close>

section \<open>The table and its operations\<close>

definition MAX_BREAKPOINTS_NUMBER :: nat where "MAX_BREAKPOINTS_NUMBER = 1024"

record breakpoint_table =
  breakpoints :: "u32 list"
  breakpoints_number :: nat

text \<open>The loop of the bisection; the result is the index found, or -1.\<close>

function find_loop :: "u32 list \<Rightarrow> nat \<Rightarrow> nat \<Rightarrow> u32 \<Rightarrow> int option" where
  "find_loop bs start stop address =
     (if start < stop then do {
        let middle = (start + stop) div 2;
        v \<leftarrow> aget bs middle;
        if address < v then find_loop bs start middle address
        else if v < address then find_loop bs (middle + 1) stop address
        else Some (int middle)
      } else Some (-1))"
  by pat_completeness auto

termination
  by (relation "measure (\<lambda>(bs, start, stop, a). stop - start)") auto

declare find_loop.simps [simp del]

definition gdb_find_breakpoint :: "'a breakpoint_table_scheme \<Rightarrow> u32 \<Rightarrow> int option" where
  "gdb_find_breakpoint gdb address = find_loop (breakpoints gdb) 0 (breakpoints_number gdb) address"

text \<open>The loop that makes room for a new address, from index \<open>j\<close> downwards; it returns the array and \<open>j\<close>.\<close>

fun add_loop :: "u32 list \<Rightarrow> nat \<Rightarrow> u32 \<Rightarrow> (u32 list \<times> nat) option" where
  "add_loop bs 0 address = Some (bs, 0)"
| "add_loop bs (Suc j) address = do {
     v \<leftarrow> aget bs j;
     if address < v then do {
       bs \<leftarrow> aset bs (Suc j) v;
       add_loop bs j address
     } else Some (bs, Suc j)
   }"

definition gdb_add_breakpoint ::
  "'a breakpoint_table_scheme \<Rightarrow> u32 \<Rightarrow> (int \<times> 'a breakpoint_table_scheme) option" where
  "gdb_add_breakpoint gdb address = (
     if breakpoints_number gdb < MAX_BREAKPOINTS_NUMBER then do {
       r \<leftarrow> gdb_find_breakpoint gdb address;
       if r \<noteq> -1 then Some (1, gdb)
       else do {
         let j = breakpoints_number gdb;
         let gdb = gdb\<lparr>breakpoints_number := breakpoints_number gdb + 1\<rparr>;
         (bs, j) \<leftarrow> add_loop (breakpoints gdb) j address;
         bs \<leftarrow> aset bs j address;
         Some (1, gdb\<lparr>breakpoints := bs\<rparr>)
       }
     } else Some (0, gdb))"

text \<open>The loop that closes the gap, from index \<open>j\<close> for the given number of moves.\<close>

fun remove_loop :: "u32 list \<Rightarrow> nat \<Rightarrow> nat \<Rightarrow> u32 list option" where
  "remove_loop bs j 0 = Some bs"
| "remove_loop bs j (Suc moves) = do {
     v \<leftarrow> aget bs (j + 1);
     bs \<leftarrow> aset bs j v;
     remove_loop bs (j + 1) moves
   }"

definition gdb_remove_breakpoint ::
  "'a breakpoint_table_scheme \<Rightarrow> u32 \<Rightarrow> (int \<times> 'a breakpoint_table_scheme) option" where
  "gdb_remove_breakpoint gdb address = do {
     position \<leftarrow> gdb_find_breakpoint gdb address;
     if position = -1 then Some (0, gdb)
     else do {
       let stop = breakpoints_number gdb - 1;
       let gdb = gdb\<lparr>breakpoints_number := stop\<rparr>;
       bs \<leftarrow> remove_loop (breakpoints gdb) (nat position) (stop - nat position);
       Some (1, gdb\<lparr>breakpoints := bs\<rparr>)
     }
   }"

section \<open>Invariant and abstraction\<close>

definition bp_list :: "'a breakpoint_table_scheme \<Rightarrow> u32 list" where
  "bp_list gdb = take (breakpoints_number gdb) (breakpoints gdb)"

definition bp_wf :: "'a breakpoint_table_scheme \<Rightarrow> bool" where
  "bp_wf gdb \<longleftrightarrow> length (breakpoints gdb) = MAX_BREAKPOINTS_NUMBER \<and>
     breakpoints_number gdb \<le> MAX_BREAKPOINTS_NUMBER \<and> sorted_wrt (<) (bp_list gdb)"

definition bp_set :: "'a breakpoint_table_scheme \<Rightarrow> u32 set" where
  "bp_set gdb = set (bp_list gdb)"

text \<open>The bisection on a sorted part of the array.\<close>

lemma find_loop_spec:
  assumes "stop \<le> length bs" "\<And>i j. i < j \<Longrightarrow> j < stop \<Longrightarrow> bs ! i < bs ! j"
  shows "(\<exists>i. start \<le> i \<and> i < stop \<and> bs ! i = a \<and> find_loop bs start stop a = Some (int i)) \<or>
    (\<forall>i. start \<le> i \<and> i < stop \<longrightarrow> bs ! i \<noteq> a) \<and> find_loop bs start stop a = Some (-1)"
  using assms
proof (induction bs start stop a rule: find_loop.induct)
  case (1 bs start stop a)
  show ?case
  proof (cases "start < stop")
    case False
    then show ?thesis by (auto simp: find_loop.simps [of bs start stop a])
  next
    case True
    define m where "m = (start + stop) div 2"
    have m: "start \<le> m" "m < stop" "m < length bs" using True "1.prems"(1) by (auto simp: m_def)
    have unfold: "find_loop bs start stop a =
      (if a < bs ! m then find_loop bs start m a
       else if bs ! m < a then find_loop bs (m + 1) stop a else Some (int m))"
      using True m by (simp add: find_loop.simps [of bs start stop a] m_def)
    consider "a < bs ! m" | "bs ! m < a" | "bs ! m = a" by force
    then show ?thesis
    proof cases
      case 1
      have ih: "(\<exists>i. start \<le> i \<and> i < m \<and> bs ! i = a \<and> find_loop bs start m a = Some (int i)) \<or>
        (\<forall>i. start \<le> i \<and> i < m \<longrightarrow> bs ! i \<noteq> a) \<and> find_loop bs start m a = Some (-1)"
        using "1.IH"(1) [of m "bs ! m"] "1.prems" True m 1 by (simp add: m_def)
      have "bs ! i \<noteq> a" if "m \<le> i" "i < stop" for i
        using "1.prems"(2) [of m i] that 1 by (cases "i = m") auto
      with ih unfold 1 m show ?thesis by (metis less_trans not_less)
    next
      case 2
      have ih: "(\<exists>i. m + 1 \<le> i \<and> i < stop \<and> bs ! i = a \<and> find_loop bs (m + 1) stop a = Some (int i)) \<or>
        (\<forall>i. m + 1 \<le> i \<and> i < stop \<longrightarrow> bs ! i \<noteq> a) \<and> find_loop bs (m + 1) stop a = Some (-1)"
        using "1.IH"(2) [of m "bs ! m"] "1.prems" True m 2 by (simp add: m_def not_less_iff_gr_or_eq)
      have low: "bs ! i \<noteq> a" if "i \<le> m" for i
        using "1.prems"(2) [of i m] that m 2 by (cases "i = m") auto
      have eq: "find_loop bs start stop a = find_loop bs (m + 1) stop a" using unfold 2 by auto
      from ih show ?thesis
      proof
        assume "\<exists>i. m + 1 \<le> i \<and> i < stop \<and> bs ! i = a \<and> find_loop bs (m + 1) stop a = Some (int i)"
        then obtain i where "m + 1 \<le> i" "i < stop" "bs ! i = a" "find_loop bs (m + 1) stop a = Some (int i)"
          by blast
        with m eq show ?thesis by (intro disjI1 exI [of _ i]) simp
      next
        assume h: "(\<forall>i. m + 1 \<le> i \<and> i < stop \<longrightarrow> bs ! i \<noteq> a) \<and> find_loop bs (m + 1) stop a = Some (-1)"
        have "bs ! i \<noteq> a" if "i < stop" for i
          using h low [of i] that by (cases "i \<le> m") auto
        with h eq show ?thesis by simp
      qed
    next
      case 3
      with unfold m show ?thesis by auto
    qed
  qed
qed

lemma bp_nth: "i < breakpoints_number gdb \<Longrightarrow> bp_list gdb ! i = breakpoints gdb ! i"
  by (simp add: bp_list_def)

lemma bp_wfD:
  assumes "bp_wf gdb"
  shows "length (breakpoints gdb) = 1024" "breakpoints_number gdb \<le> 1024"
    "length (bp_list gdb) = breakpoints_number gdb"
    "i < j \<Longrightarrow> j < breakpoints_number gdb \<Longrightarrow> breakpoints gdb ! i < breakpoints gdb ! j"
    "distinct (bp_list gdb)"
proof -
  show n: "length (breakpoints gdb) = 1024" "breakpoints_number gdb \<le> 1024"
    "length (bp_list gdb) = breakpoints_number gdb"
    using assms by (auto simp: bp_wf_def bp_list_def MAX_BREAKPOINTS_NUMBER_def)
  show "i < j \<Longrightarrow> j < breakpoints_number gdb \<Longrightarrow> breakpoints gdb ! i < breakpoints gdb ! j"
    using assms sorted_wrt_nth_less [of "(<)" "bp_list gdb" i j] n by (simp add: bp_wf_def bp_nth)
  show "distinct (bp_list gdb)"
    using assms by (simp add: bp_wf_def strict_sorted_iff)
qed

lemma bp_set_conv:
  assumes "bp_wf gdb"
  shows "bp_set gdb = (\<lambda>i. breakpoints gdb ! i) ` {..<breakpoints_number gdb}"
proof -
  have "bp_set gdb = (\<lambda>i. bp_list gdb ! i) ` {..<breakpoints_number gdb}"
    using bp_wfD(3) [OF assms] by (auto simp: bp_set_def set_conv_nth)
  then show ?thesis by (simp add: bp_nth)
qed

lemma find_breakpoint_spec:
  assumes "bp_wf gdb"
  shows "a \<in> bp_set gdb \<and> (\<exists>i < breakpoints_number gdb. breakpoints gdb ! i = a \<and>
      gdb_find_breakpoint gdb a = Some (int i)) \<or>
    a \<notin> bp_set gdb \<and> gdb_find_breakpoint gdb a = Some (-1)"
proof -
  have "breakpoints_number gdb \<le> length (breakpoints gdb)" using bp_wfD(1,2) [OF assms] by simp
  from find_loop_spec [OF this bp_wfD(4) [OF assms], of 0 a] show ?thesis
    by (auto simp: gdb_find_breakpoint_def bp_set_conv [OF assms])
qed

lemma add_loop_spec:
  "j < length bs \<Longrightarrow> \<exists>bs' k. add_loop bs j a = Some (bs', k) \<and> k \<le> j \<and> length bs' = length bs \<and>
    (\<forall>i < k. bs' ! i = bs ! i) \<and> (\<forall>i. k < i \<and> i \<le> j \<longrightarrow> bs' ! i = bs ! (i - 1)) \<and>
    (\<forall>i > j. bs' ! i = bs ! i) \<and>
    (0 < k \<longrightarrow> bs ! (k - 1) \<le> a) \<and> (\<forall>i. k \<le> i \<and> i < j \<longrightarrow> a < bs ! i)"
proof (induction bs j a rule: add_loop.induct)
  case (2 bs j a)
  show ?case
  proof (cases "a < bs ! j")
    case True
    let ?bs = "bs[Suc j := bs ! j]"
    obtain bs' k where ih: "add_loop ?bs j a = Some (bs', k)" "k \<le> j" "length bs' = length bs"
      "\<forall>i < k. bs' ! i = ?bs ! i" "\<forall>i. k < i \<and> i \<le> j \<longrightarrow> bs' ! i = ?bs ! (i - 1)"
      "\<forall>i > j. bs' ! i = ?bs ! i" "0 < k \<longrightarrow> ?bs ! (k - 1) \<le> a" "\<forall>i. k \<le> i \<and> i < j \<longrightarrow> a < ?bs ! i"
      using "2.IH" [of "bs ! j" ?bs] "2.prems" True by auto
    have "bs' ! i = bs ! (i - 1)" if "k < i" "i \<le> Suc j" for i
      using ih(5,6) that "2.prems" by (cases "i = Suc j") auto
    moreover have "bs' ! i = bs ! i" if "Suc j < i" for i using ih(6) that by simp
    moreover have "0 < k \<longrightarrow> bs ! (k - 1) \<le> a" "\<forall>i. k \<le> i \<and> i < Suc j \<longrightarrow> a < bs ! i"
      using ih(2,7,8) True by (auto simp: less_Suc_eq)
    ultimately show ?thesis using ih(1-4) True "2.prems" by (auto intro!: exI [of _ bs'] exI [of _ k])
  next
    case False
    then show ?thesis using "2.prems" by (auto simp: not_less intro!: exI [of _ bs] exI [of _ "Suc j"])
  qed
qed simp

lemma remove_loop_spec:
  "j + moves < length bs \<Longrightarrow> \<exists>bs'. remove_loop bs j moves = Some bs' \<and> length bs' = length bs \<and>
    (\<forall>i < j. bs' ! i = bs ! i) \<and> (\<forall>i. j \<le> i \<and> i < j + moves \<longrightarrow> bs' ! i = bs ! (i + 1))"
proof (induction bs j moves rule: remove_loop.induct)
  case (2 bs j moves)
  let ?bs = "bs[j := bs ! (j + 1)]"
  obtain bs' where ih: "remove_loop ?bs (j + 1) moves = Some bs'" "length bs' = length bs"
    "\<forall>i < j + 1. bs' ! i = ?bs ! i" "\<forall>i. j + 1 \<le> i \<and> i < j + 1 + moves \<longrightarrow> bs' ! i = ?bs ! (i + 1)"
    using "2.IH" [of "bs ! (j + 1)" ?bs] "2.prems" by auto
  have "bs' ! i = bs ! (i + 1)" if "j \<le> i" "i < j + Suc moves" for i
    using ih(3,4) that "2.prems" by (cases "i = j") auto
  with ih "2.prems" show ?case by auto
qed auto

section \<open>Insertion and removal\<close>

lemma bp_wfI:
  assumes "length (breakpoints gdb) = 1024" "breakpoints_number gdb \<le> 1024"
    "\<And>i j. i < j \<Longrightarrow> j < breakpoints_number gdb \<Longrightarrow> breakpoints gdb ! i < breakpoints gdb ! j"
  shows "bp_wf gdb"
  using assms
  by (auto simp: bp_wf_def MAX_BREAKPOINTS_NUMBER_def sorted_wrt_iff_nth_less bp_list_def)

lemma add_breakpoint_spec:
  assumes wf: "bp_wf gdb"
  shows "\<exists>gdb'. (if breakpoints_number gdb < 1024
    then gdb_add_breakpoint gdb a = Some (1, gdb') \<and> bp_wf gdb' \<and> bp_set gdb' = insert a (bp_set gdb)
    else gdb_add_breakpoint gdb a = Some (0, gdb) \<and> gdb' = gdb)"
proof (cases "breakpoints_number gdb < 1024")
  case False
  then show ?thesis by (simp add: gdb_add_breakpoint_def MAX_BREAKPOINTS_NUMBER_def)
next
  case room: True
  show ?thesis
  proof (cases "a \<in> bp_set gdb")
    case True
    then obtain i where "gdb_find_breakpoint gdb a = Some (int i)" using find_breakpoint_spec [OF wf, of a] by blast
    with room wf True show ?thesis
      by (auto simp: gdb_add_breakpoint_def MAX_BREAKPOINTS_NUMBER_def)
  next
    case False
    let ?n = "breakpoints_number gdb" and ?bs = "breakpoints gdb"
    have find: "gdb_find_breakpoint gdb a = Some (-1)"
      using find_breakpoint_spec [OF wf, of a] False by blast
    have len: "length ?bs = 1024" by (rule bp_wfD [OF wf])
    obtain bs k where bs: "add_loop ?bs ?n a = Some (bs, k)" "k \<le> ?n" "length bs = 1024"
      "\<forall>i < k. bs ! i = ?bs ! i" "\<forall>i. k < i \<and> i \<le> ?n \<longrightarrow> bs ! i = ?bs ! (i - 1)"
      "0 < k \<longrightarrow> ?bs ! (k - 1) \<le> a" "\<forall>i. k \<le> i \<and> i < ?n \<longrightarrow> a < ?bs ! i"
      using add_loop_spec [of ?n ?bs a] room len by auto
    let ?g = "gdb\<lparr>breakpoints_number := ?n + 1, breakpoints := bs[k := a]\<rparr>"
    have run: "gdb_add_breakpoint gdb a = Some (1, ?g)"
      using room find bs by (simp add: gdb_add_breakpoint_def MAX_BREAKPOINTS_NUMBER_def)
    have low: "?bs ! i < a" if "i < k" for i
    proof -
      have "?bs ! i \<le> a"
        using bs(2,6) that bp_wfD(4) [OF wf, of i "k - 1"] by (cases "i = k - 1") force+
      moreover have "?bs ! i \<noteq> a" using False that bs(2) by (auto simp: bp_set_conv [OF wf])
      ultimately show ?thesis by simp
    qed
    let ?xs = "bp_list gdb"
    have xs: "length ?xs = ?n" "\<And>i. i < ?n \<Longrightarrow> ?xs ! i = ?bs ! i" "sorted_wrt (<) ?xs"
      using wf bp_wfD(3) [OF wf] by (auto simp: bp_nth bp_wf_def)
    have new: "bp_list ?g = take k ?xs @ a # drop k ?xs"
    proof (rule nth_equalityI)
      show "length (bp_list ?g) = length (take k ?xs @ a # drop k ?xs)"
        using room bs(2,3) xs(1) by (simp add: bp_list_def)
      fix i assume "i < length (bp_list ?g)"
      then have i: "i \<le> ?n" by (simp add: bp_list_def)
      have "bp_list ?g ! i = (if i < k then ?bs ! i else if i = k then a else ?bs ! (i - 1))"
        using bs(2-5) i room by (auto simp: bp_list_def)
      then show "bp_list ?g ! i = (take k ?xs @ a # drop k ?xs) ! i"
        using i bs(2) xs(1,2) by (auto simp: nth_append nth_Cons')
    qed
    have sides: "\<forall>x \<in> set (take k ?xs). x < a" "\<forall>x \<in> set (drop k ?xs). a < x"
      using low bs(2,7) xs(1,2) by (auto simp: in_set_conv_nth)
    have "sorted_wrt (<) (take k ?xs @ drop k ?xs)" using xs(3) by simp
    then have "sorted_wrt (<) (bp_list ?g)"
      using sides unfolding new by (force simp: sorted_wrt_append)
    then have "bp_wf ?g" using room bs(3) by (simp add: bp_wf_def MAX_BREAKPOINTS_NUMBER_def)
    moreover have "bp_set ?g = insert a (set (take k ?xs) \<union> set (drop k ?xs))"
      unfolding bp_set_def new by auto
    then have "bp_set ?g = insert a (bp_set gdb)"
      by (simp only: set_append [symmetric] append_take_drop_id bp_set_def)
    ultimately show ?thesis using run room by auto
  qed
qed

lemma remove_breakpoint_spec:
  assumes wf: "bp_wf gdb"
  shows "\<exists>gdb'. gdb_remove_breakpoint gdb a = Some (of_bool (a \<in> bp_set gdb), gdb') \<and> bp_wf gdb' \<and>
    bp_set gdb' = bp_set gdb - {a}"
proof (cases "a \<in> bp_set gdb")
  case False
  then have "gdb_find_breakpoint gdb a = Some (-1)" using find_breakpoint_spec [OF wf, of a] by blast
  with False wf show ?thesis by (simp add: gdb_remove_breakpoint_def)
next
  case True
  let ?n = "breakpoints_number gdb" and ?bs = "breakpoints gdb" and ?xs = "bp_list gdb"
  obtain p where p: "p < ?n" "?bs ! p = a" "gdb_find_breakpoint gdb a = Some (int p)"
    using find_breakpoint_spec [OF wf, of a] True by blast
  have len: "length ?bs = 1024" "?n \<le> 1024" "length ?xs = ?n" by (rule bp_wfD [OF wf])+
  obtain bs where bs: "remove_loop ?bs p (?n - 1 - p) = Some bs" "length bs = 1024"
    "\<forall>i < p. bs ! i = ?bs ! i" "\<forall>i. p \<le> i \<and> i < ?n - 1 \<longrightarrow> bs ! i = ?bs ! (i + 1)"
    using remove_loop_spec [of p "?n - 1 - p" ?bs] p(1) len by fastforce
  let ?g = "gdb\<lparr>breakpoints_number := ?n - 1, breakpoints := bs\<rparr>"
  have run: "gdb_remove_breakpoint gdb a = Some (1, ?g)"
    using p bs(1) by (simp add: gdb_remove_breakpoint_def Let_def)
  have new: "bp_list ?g = take p ?xs @ drop (Suc p) ?xs"
  proof (rule nth_equalityI)
    show "length (bp_list ?g) = length (take p ?xs @ drop (Suc p) ?xs)"
      using p(1) bs(2) len by (simp add: bp_list_def)
    fix i assume "i < length (bp_list ?g)"
    then have i: "i < ?n - 1" by (simp add: bp_list_def)
    then show "bp_list ?g ! i = (take p ?xs @ drop (Suc p) ?xs) ! i"
      using bs(3,4) p(1) len by (auto simp: bp_list_def nth_append)
  qed
  have xs: "?xs = take p ?xs @ a # drop (Suc p) ?xs"
    using p len by (metis bp_nth id_take_nth_drop)
  have "sorted_wrt (<) (take p ?xs @ a # drop (Suc p) ?xs)" using wf xs by (simp add: bp_wf_def)
  then have "sorted_wrt (<) (bp_list ?g)" unfolding new by (auto simp: sorted_wrt_append)
  then have "bp_wf ?g" using bs(2) len by (simp add: bp_wf_def MAX_BREAKPOINTS_NUMBER_def)
  moreover have "bp_set ?g = bp_set gdb - {a}"
  proof -
    have "distinct (take p ?xs @ a # drop (Suc p) ?xs)" using bp_wfD(5) [OF wf] xs by simp
    then show ?thesis unfolding bp_set_def new by (subst (3) xs) auto
  qed
  ultimately show ?thesis using run True by auto
qed

section \<open>The interface: a bounded set of addresses\<close>

datatype bp_command = Insert u32 | Delete u32

definition bp_effect :: "bp_command \<Rightarrow> u32 set \<Rightarrow> u32 set" where
  "bp_effect c S = (case c of Insert a \<Rightarrow> insert a S | Delete a \<Rightarrow> S - {a})"

locale breakpoint_set =
  fixes invar :: "'s \<Rightarrow> bool"
    and elems :: "'s \<Rightarrow> u32 set"
    and capacity :: nat
    and find :: "'s \<Rightarrow> u32 \<Rightarrow> int option"
    and add :: "'s \<Rightarrow> u32 \<Rightarrow> (int \<times> 's) option"
    and del :: "'s \<Rightarrow> u32 \<Rightarrow> (int \<times> 's) option"
  assumes finite_elems: "invar s \<Longrightarrow> finite (elems s)"
    and find_elems: "invar s \<Longrightarrow> \<exists>r. find s a = Some r \<and> (r \<noteq> -1 \<longleftrightarrow> a \<in> elems s)"
    and add_elems: "invar s \<Longrightarrow> card (elems s) < capacity \<Longrightarrow>
      \<exists>s'. add s a = Some (1, s') \<and> invar s' \<and> elems s' = insert a (elems s)"
    and del_elems: "invar s \<Longrightarrow>
      \<exists>s'. del s a = Some (of_bool (a \<in> elems s), s') \<and> invar s' \<and> elems s' = elems s - {a}"
begin

definition run1 :: "bp_command \<Rightarrow> 's \<Rightarrow> (int \<times> 's) option" where
  "run1 c s = (case c of Insert a \<Rightarrow> add s a | Delete a \<Rightarrow> del s a)"

fun run :: "bp_command list \<Rightarrow> 's \<Rightarrow> 's option" where
  "run [] s = Some s"
| "run (c # cs) s = do { (_, s') \<leftarrow> run1 c s; run cs s' }"

lemma run_elems:
  "invar s \<Longrightarrow> card (elems s) + length cs \<le> capacity \<Longrightarrow>
   \<exists>s'. run cs s = Some s' \<and> invar s' \<and> elems s' = fold bp_effect cs (elems s)"
proof (induction cs arbitrary: s)
  case (Cons c cs)
  obtain r s1 where s1: "run1 c s = Some (r, s1)" "invar s1" "elems s1 = bp_effect c (elems s)"
    using Cons.prems add_elems [of s] del_elems [of s] by (cases c) (fastforce simp: run1_def bp_effect_def)+
  have "card (bp_effect c (elems s)) \<le> Suc (card (elems s))"
    using finite_elems [OF Cons.prems(1)]
    by (cases c) (auto simp: bp_effect_def card_insert_if card_Diff_singleton_if)
  then show ?case using Cons.IH [OF s1(2)] s1 Cons.prems by auto
qed simp

end

lemma bp_card: "bp_wf gdb \<Longrightarrow> card (bp_set gdb) = breakpoints_number gdb"
  using bp_wfD(3,5) by (fastforce simp: bp_set_def distinct_card)

interpretation bp: breakpoint_set bp_wf bp_set 1024 gdb_find_breakpoint gdb_add_breakpoint
  gdb_remove_breakpoint
proof unfold_locales
  fix s :: "'a breakpoint_table_scheme" and a :: u32 assume wf: "bp_wf s"
  show "finite (bp_set s)" by (simp add: bp_set_def)
  show "\<exists>r. gdb_find_breakpoint s a = Some r \<and> (r \<noteq> -1 \<longleftrightarrow> a \<in> bp_set s)"
    using find_breakpoint_spec [OF wf, of a] by auto
  show "\<exists>s'. gdb_remove_breakpoint s a = Some (of_bool (a \<in> bp_set s), s') \<and> bp_wf s' \<and> bp_set s' = bp_set s - {a}"
    by (rule remove_breakpoint_spec [OF wf])
  assume "card (bp_set s) < 1024"
  then show "\<exists>s'. gdb_add_breakpoint s a = Some (1, s') \<and> bp_wf s' \<and> bp_set s' = insert a (bp_set s)"
    using add_breakpoint_spec [OF wf, of a] bp_card [OF wf] by auto
qed

section \<open>Properties\<close>

text \<open>
  (C27) The bisection terminates and is correct on every table the code can build: it answers an index
  below the number of breakpoints at which the address stands, or -1 exactly when the address is no
  breakpoint, and never reads outside the array.
\<close>

theorem find_breakpoint_correct:
  assumes "bp_wf gdb"
  shows "\<exists>r. gdb_find_breakpoint gdb a = Some r \<and> (r = -1 \<longleftrightarrow> a \<notin> bp_set gdb) \<and>
    (r \<noteq> -1 \<longrightarrow> 0 \<le> r \<and> nat r < breakpoints_number gdb \<and> breakpoints gdb ! nat r = a)"
  using find_breakpoint_spec [OF assms, of a] by auto

definition sample_table :: breakpoint_table where
  "sample_table = \<lparr>breakpoints = [16, 32, 48] @ replicate 1021 0, breakpoints_number = 3\<rparr>"

lemma sample_table_facts [simp]: "bp_wf sample_table" "bp_set sample_table = {16, 32, 48}"
  by (auto simp: sample_table_def bp_wf_def bp_list_def bp_set_def MAX_BREAKPOINTS_NUMBER_def)

theorem find_breakpoint_correct_witness:
  "\<exists>r. gdb_find_breakpoint sample_table 32 = Some r \<and> r \<noteq> -1 \<and> 0 \<le> r"
  using find_breakpoint_correct [OF sample_table_facts(1), of 32] by auto

text \<open>
  (C8) Adding and removing a breakpoint refine insertion into and deletion from a set of at most 1024
  addresses: the sorted array without duplicates is kept, the code 1 means that the address is now a
  breakpoint, respectively was one, and 0 that the table is full (even for an address it already
  holds), respectively that there was nothing to remove; the table is then unchanged.
\<close>

theorem breakpoints_refine_set:
  assumes "bp_wf gdb"
  shows "(\<exists>gdb'. gdb_add_breakpoint gdb a = Some (of_bool (breakpoints_number gdb < 1024), gdb') \<and> bp_wf gdb' \<and>
      (if breakpoints_number gdb < 1024 then bp_set gdb' = insert a (bp_set gdb) else gdb' = gdb)) \<and>
    (\<exists>gdb'. gdb_remove_breakpoint gdb a = Some (of_bool (a \<in> bp_set gdb), gdb') \<and> bp_wf gdb' \<and>
      bp_set gdb' = bp_set gdb - {a})"
  using add_breakpoint_spec [OF assms, of a] remove_breakpoint_spec [OF assms, of a] assms
  by (auto split: if_splits)

theorem breakpoints_refine_set_witness:
  "(\<exists>gdb'. gdb_add_breakpoint sample_table 20 = Some (1, gdb') \<and> bp_set gdb' = {16, 20, 32, 48}) \<and>
   (\<exists>gdb'. gdb_remove_breakpoint sample_table 32 = Some (1, gdb') \<and> bp_set gdb' = {16, 48})"
proof -
  have "breakpoints_number sample_table < 1024" by (simp add: sample_table_def)
  then show ?thesis
    using breakpoints_refine_set [OF sample_table_facts(1), of 20]
      breakpoints_refine_set [OF sample_table_facts(1), of 32]
    by (auto simp: insert_commute)
qed

text \<open>A session of the debugger on the table, one command after the other.\<close>

fun bp_session ::
  "bp_command list \<Rightarrow> 'a breakpoint_table_scheme \<Rightarrow> 'a breakpoint_table_scheme option" where
  "bp_session [] gdb = Some gdb"
| "bp_session (Insert a # cs) gdb = do { (_, gdb) \<leftarrow> gdb_add_breakpoint gdb a; bp_session cs gdb }"
| "bp_session (Delete a # cs) gdb = do { (_, gdb) \<leftarrow> gdb_remove_breakpoint gdb a; bp_session cs gdb }"

lemma bp_session_run: "bp_session cs gdb = bp.run cs gdb"
  by (induction cs gdb rule: bp_session.induct) (auto simp: bp.run1_def intro!: Option.bind_cong)

text \<open>
  A debugger that inserts and removes breakpoints in any order, starting from the empty table
  and with at most 1024 commands, ends with exactly the set that the commands describe.
\<close>

theorem breakpoint_session:
  assumes "length cs \<le> 1024"
  shows "\<exists>gdb. bp_session cs \<lparr>breakpoints = replicate 1024 0, breakpoints_number = 0\<rparr> = Some gdb \<and>
    bp_set gdb = fold bp_effect cs {}"
proof -
  let ?e = "\<lparr>breakpoints = replicate 1024 0, breakpoints_number = 0\<rparr> :: breakpoint_table"
  have "bp_wf ?e" "bp_set ?e = {}"
    by (simp_all add: bp_wf_def bp_list_def bp_set_def MAX_BREAKPOINTS_NUMBER_def)
  then show ?thesis using bp.run_elems [of ?e cs] assms by (auto simp: bp_session_run)
qed

theorem breakpoint_session_witness:
  "\<exists>gdb. bp_session [Insert 8, Insert 4, Delete 8] \<lparr>breakpoints = replicate 1024 0, breakpoints_number = 0\<rparr> = Some gdb \<and>
    bp_set gdb = {4}"
  using breakpoint_session [of "[Insert 8, Insert 4, Delete 8]"]
  by (auto simp: bp_effect_def simp del: bp_session.simps)

end
