(* ===== verification/C_Strings.thy ===== *)
theory C_Strings
  imports C_Prelude "HOL-Library.Char_ord"
begin

text \<open>
  The part of the C library that the debugger protocol uses on strings, for the formats that occur in
  \<^verbatim>\<open>gdb_protocol.c\<close>: \<open>snprintf\<close> of hexadecimal and decimal numbers, \<open>sscanf\<close> with \<open>%x\<close>, \<open>%08x\<close> and
  \<open>%hhx\<close>, \<open>atoi\<close>, \<open>strcmp\<close>, \<open>strncmp\<close> and \<open>index\<close>. A pointer into a buffer is the list of the bytes
  from there to the end of the buffer; a string in it ends at the first zero byte, and a buffer
  without one makes the functions read outside it (\<open>None\<close>).
\<close>

section \<open>Strings in buffers\<close>

definition bytes :: "string \<Rightarrow> u8 list" where
  "bytes s = map of_char s"

definition cstr :: "u8 list \<Rightarrow> u8 list option" where
  "cstr buf = (if 0 \<in> set buf then Some (takeWhile (\<lambda>c. c \<noteq> 0) buf) else None)"

lemma cstr_0 [simp]: "cstr (0 # buf) = Some []"
  by (simp add: cstr_def)

lemma cstr_append [simp]: "0 \<notin> set s \<Longrightarrow> cstr (s @ 0 # buf) = Some s"
proof -
  assume "0 \<notin> set s"
  then have "takeWhile (\<lambda>c. c \<noteq> 0) (s @ 0 # buf) = s" by (induction s) auto
  then show ?thesis by (simp add: cstr_def)
qed

definition strcmp_eq :: "u8 list \<Rightarrow> string \<Rightarrow> bool option" where
  "strcmp_eq buf s = do { t \<leftarrow> cstr buf; Some (t = bytes s) }"

definition strncmp_eq :: "u8 list \<Rightarrow> string \<Rightarrow> nat \<Rightarrow> bool option" where
  "strncmp_eq buf s n = do { t \<leftarrow> cstr buf; Some (take n t = take n (bytes s)) }"

text \<open>\<open>index(data, c) + 1\<close>: the bytes after the first \<open>c\<close> of the string; a null result plus 1 is no pointer.\<close>

definition after_index :: "u8 list \<Rightarrow> u8 \<Rightarrow> u8 list option" where
  "after_index buf c = do {
     t \<leftarrow> cstr buf;
     if c \<in> set t then Some (tl (dropWhile (\<lambda>x. x \<noteq> c) buf)) else None
   }"

section \<open>Printing numbers\<close>

definition hex_digit :: "nat \<Rightarrow> u8" where
  "hex_digit n = (if n < 10 then of_nat (48 + n) else of_nat (87 + n))"

definition hex_digit_upper :: "nat \<Rightarrow> u8" where
  "hex_digit_upper n = (if n < 10 then of_nat (48 + n) else of_nat (55 + n))"

text \<open>The hexadecimal digits of a number, most significant first.\<close>

fun digits_of :: "nat \<Rightarrow> nat \<Rightarrow> nat list" where
  "digits_of 0 n = []"
| "digits_of (Suc k) n = digits_of k (n div 16) @ [n mod 16]"

text \<open>Decimal numerals, and the end of a line.\<close>

fun digits10 :: "nat \<Rightarrow> string" where
  "digits10 n = (if n < 10 then [char_of (48 + n)] else digits10 (n div 10) @ [char_of (48 + n mod 10)])"

declare digits10.simps [simp del]

text \<open>\<open>%d\<close>.\<close>

definition print_d :: "int \<Rightarrow> string" where
  "print_d n = (if n < 0 then CHR ''-'' # digits10 (nat (- n)) else digits10 (nat n))"

abbreviation newline :: string where "newline \<equiv> [CHR 0x0A]"

text \<open>\<open>"%02x"\<close> of a byte, \<open>"%08x"\<close> of a word, \<open>"E%02X"\<close> of an error number below 256.\<close>

definition hex_byte :: "u8 \<Rightarrow> u8 list" where
  "hex_byte v = map hex_digit (digits_of 2 (unat v))"

definition hex_word :: "u32 \<Rightarrow> u8 list" where
  "hex_word v = map hex_digit (digits_of 8 (unat v))"

definition error_text :: "nat \<Rightarrow> u8 list" where
  "error_text n = [of_char CHR ''E'', hex_digit_upper (n div 16 mod 16), hex_digit_upper (n mod 16)]"

section \<open>Reading numbers\<close>

definition is_space :: "u8 \<Rightarrow> bool" where
  "is_space c \<longleftrightarrow> c = 32 \<or> 9 \<le> c \<and> c \<le> 13"

definition digit_value :: "u8 \<Rightarrow> nat option" where
  "digit_value c = (
     if 48 \<le> c \<and> c \<le> 57 then Some (unat c - 48)
     else if 97 \<le> c \<and> c \<le> 102 then Some (unat c - 87)
     else if 65 \<le> c \<and> c \<le> 70 then Some (unat c - 55)
     else None)"

text \<open>The digits at the start of a text, at most \<open>w\<close> of them: their number, their value and the rest.\<close>

fun hex_digits :: "nat \<Rightarrow> nat \<Rightarrow> u8 list \<Rightarrow> nat \<times> nat \<times> u8 list" where
  "hex_digits 0 acc s = (0, acc, s)"
| "hex_digits (Suc w) acc [] = (0, acc, [])"
| "hex_digits (Suc w) acc (c # s) = (case digit_value c of
     None \<Rightarrow> (0, acc, c # s)
   | Some d \<Rightarrow> (let (n, v, rest) = hex_digits w (16 * acc + d) s in (Suc n, v, rest)))"

text \<open>
  One conversion \<open>%x\<close> of a field of at most \<open>w\<close> characters (an optional sign, an optional prefix \<open>0x\<close>, digits,
  after white space) to an unsigned type of \<open>2 ^ b\<close> values: \<open>Some None\<close> is a matching failure, and a
  value that the type cannot represent is undefined.
\<close>

definition scan_x :: "nat \<Rightarrow> nat \<Rightarrow> u8 list \<Rightarrow> (u32 \<times> u8 list) option option" where
  "scan_x b w s = (
     let s = dropWhile is_space s;
         neg = (0 < w \<and> s \<noteq> [] \<and> hd s = 45);
         sign = (0 < w \<and> s \<noteq> [] \<and> (hd s = 45 \<or> hd s = 43));
         w = (if sign then w - 1 else w);
         s = (if sign then tl s else s);
         prefix = (2 \<le> w \<and> 2 \<le> length s \<and> hd s = 48 \<and> (s ! 1 = 120 \<or> s ! 1 = 88));
         w = (if prefix then w - 2 else w);
         s = (if prefix then drop 2 s else s);
         (n, v, rest) = hex_digits w 0 s
     in if n = 0 then Some None
        else if 2 ^ b \<le> v then None
        else Some (Some (if neg then - of_nat v else of_nat v, rest)))"

text \<open>
  \<open>sscanf(data, "%08x", &a)\<close>, \<open>sscanf(data, "%x", &a)\<close>, \<open>sscanf(data, "%x,%x", &a, &b)\<close> and
  \<open>sscanf(data, "%hhx,%x,%x", &t, &a, &b)\<close>; the last arguments are the old contents of the variables,
  which keep them when the conversion does not get there.
\<close>

definition sscanf_08x :: "u8 list \<Rightarrow> u32 \<Rightarrow> u32 option" where
  "sscanf_08x buf a = do {
     s \<leftarrow> cstr buf;
     r \<leftarrow> scan_x 32 8 s;
     Some (case r of None \<Rightarrow> a | Some (v, rest) \<Rightarrow> v)
   }"

definition sscanf_x :: "u8 list \<Rightarrow> u32 \<Rightarrow> u32 option" where
  "sscanf_x buf a = do {
     s \<leftarrow> cstr buf;
     r \<leftarrow> scan_x 32 (length s) s;
     Some (case r of None \<Rightarrow> a | Some (v, rest) \<Rightarrow> v)
   }"

text \<open>The second half, \<open>",%x"\<close>.\<close>

definition scan_comma_x :: "u8 list \<Rightarrow> u32 \<Rightarrow> (u32 \<times> u8 list option) option" where
  "scan_comma_x s b = (
     if s \<noteq> [] \<and> hd s = 44 then do {
       r \<leftarrow> scan_x 32 (length s) (tl s);
       Some (case r of None \<Rightarrow> (b, None) | Some (v, rest) \<Rightarrow> (v, Some rest))
     } else Some (b, None))"

definition sscanf_x_x :: "u8 list \<Rightarrow> u32 \<Rightarrow> u32 \<Rightarrow> (u32 \<times> u32) option" where
  "sscanf_x_x buf a b = do {
     s \<leftarrow> cstr buf;
     r \<leftarrow> scan_x 32 (length s) s;
     case r of None \<Rightarrow> Some (a, b)
     | Some (a, rest) \<Rightarrow> do { (b, _) \<leftarrow> scan_comma_x rest b; Some (a, b) }
   }"

definition sscanf_hhx_x_x :: "u8 list \<Rightarrow> u8 \<Rightarrow> u32 \<Rightarrow> u32 \<Rightarrow> (u8 \<times> u32 \<times> u32) option" where
  "sscanf_hhx_x_x buf t a b = do {
     s \<leftarrow> cstr buf;
     r \<leftarrow> scan_x 8 (length s) s;
     case r of None \<Rightarrow> Some (t, a, b)
     | Some (t, rest) \<Rightarrow> do {
         (a, rest) \<leftarrow> scan_comma_x rest a;
         case rest of None \<Rightarrow> Some (ucast t, a, b)
         | Some rest \<Rightarrow> do { (b, _) \<leftarrow> scan_comma_x rest b; Some (ucast t, a, b) }
       }
   }"

text \<open>\<open>atoi\<close>: 0 without digits, undefined when the value is no \<open>int\<close>.\<close>

definition is_digit :: "u8 \<Rightarrow> bool" where
  "is_digit c \<longleftrightarrow> 48 \<le> c \<and> c \<le> 57"

definition atoi :: "u8 list \<Rightarrow> int option" where
  "atoi buf = do {
     s \<leftarrow> cstr buf;
     let s = dropWhile is_space s;
     let neg = (s \<noteq> [] \<and> hd s = 45);
     let s = (if s \<noteq> [] \<and> (hd s = 45 \<or> hd s = 43) then tl s else s);
     let v = fold (\<lambda>c n. 10 * n + (uint c - 48)) (takeWhile is_digit s) 0;
     let v = (if neg then - v else v);
     if - (2 ^ 31) \<le> v \<and> v < 2 ^ 31 then Some v else None
   }"

section \<open>Reading back what was printed\<close>

lemma digit_value_hex_digit: "n < 16 \<Longrightarrow> digit_value (hex_digit n) = Some n"
  unfolding less_16_cases by (elim disjE) (simp_all add: digit_value_def hex_digit_def)

lemma hex_digit_not_special:
  "n < 16 \<Longrightarrow> \<not> is_space (hex_digit n) \<and> hex_digit n \<noteq> 0 \<and> hex_digit n \<noteq> 45 \<and> hex_digit n \<noteq> 43 \<and>
     hex_digit n \<noteq> 120 \<and> hex_digit n \<noteq> 88 \<and> hex_digit n \<noteq> 35 \<and> hex_digit n \<noteq> 36"
  unfolding less_16_cases by (elim disjE) (simp_all add: is_space_def hex_digit_def)

lemma hex_digits_map:
  "\<forall>d \<in> set ds. d < 16 \<Longrightarrow> hex_digits (length ds) acc (map hex_digit ds @ rest) =
     (length ds, foldl (\<lambda>a d. 16 * a + d) acc ds, rest)"
  by (induction ds arbitrary: acc) (simp_all add: digit_value_hex_digit)

text \<open>The conversion of digits printed with \<open>%x\<close>, as many as the field has.\<close>

lemma scan_x_digits:
  assumes "\<forall>d \<in> set ds. d < 16" "ds \<noteq> []" "foldl (\<lambda>a d. 16 * a + d) 0 ds < 2 ^ b"
  shows "scan_x b (length ds) (map hex_digit ds @ rest) =
    Some (Some (of_nat (foldl (\<lambda>a d. 16 * a + d) 0 ds), rest))"
proof -
  obtain d ds' where ds: "ds = d # ds'" using assms(2) by (cases ds) auto
  have h: "\<not> is_space (hex_digit d)" "hex_digit d \<noteq> 45" "hex_digit d \<noteq> 43"
    using hex_digit_not_special [of d] assms(1) ds by auto
  define xs where "xs = map hex_digit ds @ rest"
  have p: "xs ! 1 \<noteq> 120 \<and> xs ! 1 \<noteq> 88" if "2 \<le> length ds"
    using hex_digit_not_special [of "ds ! 1"] assms(1) that by (simp add: xs_def nth_append)
  have x: "hd xs = hex_digit d" "dropWhile is_space xs = xs"
    using h ds by (simp_all add: xs_def)
  then have no: "(0 < length ds \<and> xs \<noteq> [] \<and> hd xs = 45) = False"
    "(0 < length ds \<and> xs \<noteq> [] \<and> (hd xs = 45 \<or> hd xs = 43)) = False"
    "(2 \<le> length ds \<and> 2 \<le> length xs \<and> hd xs = 48 \<and> (xs ! 1 = 120 \<or> xs ! 1 = 88)) = False"
    using h p by auto
  have d: "hex_digits (length ds) 0 xs = (length ds, foldl (\<lambda>a d. 16 * a + d) 0 ds, rest)"
    unfolding xs_def by (rule hex_digits_map [OF assms(1)])
  show ?thesis
    unfolding xs_def [symmetric] scan_x_def Let_def x(2) no if_False d using assms(2,3) by simp
qed

text \<open>The numbers that were printed.\<close>

lemma digits_of_less: "d \<in> set (digits_of k n) \<Longrightarrow> d < 16"
  by (induction k n rule: digits_of.induct) auto

lemma length_digits_of [simp]: "length (digits_of k n) = k"
  by (induction k n rule: digits_of.induct) auto

lemma foldl_digits_of: "foldl (\<lambda>a d. 16 * a + d) 0 (digits_of k n) = n mod 16 ^ k"
  by (induction k n rule: digits_of.induct) (simp_all add: mod_mult2_eq)

lemma hex_text_clean: "c \<in> set (map hex_digit (digits_of k n)) \<Longrightarrow> c \<noteq> 0 \<and> c \<noteq> 35 \<and> c \<noteq> 36"
  using hex_digit_not_special digits_of_less by auto

lemma length_hex [simp]: "length (hex_byte b) = 2" "length (hex_word v) = 8"
  by (simp_all add: hex_byte_def hex_word_def)

lemma cstr_clean: "\<forall>c \<in> set s. c \<noteq> 0 \<Longrightarrow> 0 \<in> set rest \<Longrightarrow>
  cstr (s @ rest) = Some (s @ takeWhile (\<lambda>c. c \<noteq> 0) rest)"
  by (simp add: cstr_def)

lemma sscanf_hex_word: "0 \<in> set rest \<Longrightarrow> sscanf_08x (hex_word v @ rest) a = Some v"
proof -
  assume z: "0 \<in> set rest"
  let ?ds = "digits_of 8 (unat v)"
  have "unat v < 2 ^ LENGTH(32)" by (rule unsigned_less)
  then have v: "foldl (\<lambda>a d. 16 * a + d) 0 ?ds = unat v" "unat v < 2 ^ 32"
    unfolding foldl_digits_of by simp_all
  have "?ds \<noteq> []" by (metis length_digits_of list.size(3) zero_neq_numeral)
  with scan_x_digits [of ?ds 32 "takeWhile (\<lambda>c. c \<noteq> 0) rest"] v digits_of_less
  have "scan_x 32 8 (hex_word v @ takeWhile (\<lambda>c. c \<noteq> 0) rest) =
      Some (Some (v, takeWhile (\<lambda>c. c \<noteq> 0) rest))"
    by (simp add: hex_word_def)
  moreover have "cstr (hex_word v @ rest) = Some (hex_word v @ takeWhile (\<lambda>c. c \<noteq> 0) rest)"
    using hex_text_clean by (intro cstr_clean z) (auto simp: hex_word_def)
  ultimately show ?thesis by (simp add: sscanf_08x_def)
qed

lemma sscanf_hex_byte: "0 \<in> set rest \<Longrightarrow> takeWhile (\<lambda>c. c \<noteq> 0) rest = [] \<Longrightarrow>
  sscanf_x (hex_byte v @ rest) a = Some (ucast v)"
proof -
  assume z: "0 \<in> set rest" "takeWhile (\<lambda>c. c \<noteq> 0) rest = []"
  let ?ds = "digits_of 2 (unat v)"
  have "unat v < 2 ^ LENGTH(8)" by (rule unsigned_less)
  then have v: "foldl (\<lambda>a d. 16 * a + d) 0 ?ds = unat v" "unat v < 2 ^ 32"
    unfolding foldl_digits_of by simp_all
  have "?ds \<noteq> []" by (metis length_digits_of list.size(3) zero_neq_numeral)
  with scan_x_digits [of ?ds 32 "[]"] v digits_of_less
  have "scan_x 32 2 (hex_byte v) = Some (Some (ucast v, []))"
    by (simp add: hex_byte_def)
  moreover have "cstr (hex_byte v @ rest) = Some (hex_byte v @ [])"
    unfolding z(2) [symmetric] using hex_text_clean by (intro cstr_clean z(1)) (auto simp: hex_byte_def)
  ultimately show ?thesis by (simp add: sscanf_x_def)
qed

end
