(* ===== verification/Csapp_Rio.thy ===== *)
theory Csapp_Rio
  imports C_Prelude
begin

text \<open>
  The Rio package of \<^verbatim>\<open>csapp.c\<close>, over which the simulator and \<^verbatim>\<open>send_irq\<close> read and
  write their connections: reading and writing a number of bytes whatever the kernel transfers at
  once, with and without a buffer, and reading a line.

  The system calls \<open>read\<close> and \<open>write\<close> are parameters. What the package relies on is stated in the
  locales \<open>byte_reader\<close> and \<open>byte_writer\<close>: the calls transfer the bytes of a stream in order, in
  pieces of any length, and may be interrupted a bounded number of times. A loop gets as fuel a bound
  on its turns; the locales prove which fuel is enough.
\<close>

section \<open>System calls\<close>

text \<open>A read gives some bytes (none at the end of the file) or fails; the flag tells whether \<open>errno\<close> is \<open>EINTR\<close>.\<close>

datatype read_result = Got "u8 list" | Failed (interrupted: bool)

type_synonym 'w reader = "'w \<Rightarrow> nat \<Rightarrow> (read_result \<times> 'w) option"

text \<open>A write gives the number of bytes written and whether \<open>errno\<close> is \<open>EINTR\<close> afterwards.\<close>

type_synonym 'w writer = "'w \<Rightarrow> u8 list \<Rightarrow> int \<times> bool \<times> 'w"

text \<open>
  A call that can end the program with an exit status and a message: \<open>unix_error\<close> does it with the status 0
  (the text of \<open>strerror\<close> behind the message is left out here). \<open>and_then\<close> goes on unless the program has ended.
\<close>

datatype 'a or_exit = Exit nat string | Continue 'a

definition and_then :: "'a or_exit option \<Rightarrow> ('a \<Rightarrow> 'b or_exit option) \<Rightarrow> 'b or_exit option" where
  "and_then m f = do { r \<leftarrow> m; case r of Exit code msg \<Rightarrow> Some (Exit code msg) | Continue x \<Rightarrow> f x }"

lemma and_then_simps [simp]:
  "and_then (Some (Continue x)) f = f x" "and_then (Some (Exit code msg)) f = Some (Exit code msg)" "and_then None f = None"
  by (simp_all add: and_then_def)

lemma and_then_Continue: "and_then m f = Some (Continue y) \<longleftrightarrow> (\<exists>x. m = Some (Continue x) \<and> f x = Some (Continue y))"
  by (cases m; cases "the m") auto

lemma and_then_assoc: "and_then (and_then m f) h = and_then m (\<lambda>x. and_then (f x) h)"
  by (cases m; cases "the m") auto

lemma and_then_bind [simp]: "and_then (Option.bind m f) h = Option.bind m (\<lambda>x. and_then (f x) h)"
  by (cases m) auto

section \<open>Unbuffered reading and writing\<close>

text \<open>
  The loop of \<open>rio_readn\<close>; \<open>acc\<close> is what has been stored in the buffer of the caller, so \<open>nleft\<close> is
  \<open>n - length acc\<close>. The result is the value returned and the bytes stored.
\<close>

fun readn_loop :: "'w reader \<Rightarrow> nat \<Rightarrow> nat \<Rightarrow> 'w \<Rightarrow> u8 list \<Rightarrow> (int \<times> u8 list \<times> 'w) option" where
  "readn_loop rd n 0 w acc = None"
| "readn_loop rd n (Suc fuel) w acc =
     (if length acc < n then do {
        (r, w) \<leftarrow> rd w (n - length acc);
        case r of
          Failed eintr \<Rightarrow> if eintr then readn_loop rd n fuel w acc else Some (-1, acc, w)
        | Got bs \<Rightarrow> if bs = [] then Some (int (length acc), acc, w) else readn_loop rd n fuel w (acc @ bs)
      } else Some (int (length acc), acc, w))"

definition rio_readn :: "'w reader \<Rightarrow> nat \<Rightarrow> 'w \<Rightarrow> nat \<Rightarrow> (int \<times> u8 list \<times> 'w) option" where
  "rio_readn rd fuel w n = readn_loop rd n fuel w []"

definition Rio_readn :: "'w reader \<Rightarrow> nat \<Rightarrow> 'w \<Rightarrow> nat \<Rightarrow> (int \<times> u8 list \<times> 'w) or_exit option" where
  "Rio_readn rd fuel w n = do {
     (r, bs, w) \<leftarrow> rio_readn rd fuel w n;
     Some (if r < 0 then Exit 0 ''Rio_readn error'' else Continue (r, bs, w))
   }"

fun writen_loop :: "'w writer \<Rightarrow> nat \<Rightarrow> nat \<Rightarrow> 'w \<Rightarrow> u8 list \<Rightarrow> (int \<times> 'w) option" where
  "writen_loop wr n 0 w bs = None"
| "writen_loop wr n (Suc fuel) w bs =
     (if bs \<noteq> [] then
        (let (nwritten, eintr, w) = wr w bs in
         if nwritten \<le> 0 then if eintr then writen_loop wr n fuel w bs else Some (-1, w)
         else writen_loop wr n fuel w (drop (nat nwritten) bs))
      else Some (int n, w))"

definition rio_writen :: "'w writer \<Rightarrow> nat \<Rightarrow> 'w \<Rightarrow> u8 list \<Rightarrow> (int \<times> 'w) option" where
  "rio_writen wr fuel w bs = writen_loop wr (length bs) fuel w bs"

definition Rio_writen :: "'w writer \<Rightarrow> nat \<Rightarrow> 'w \<Rightarrow> u8 list \<Rightarrow> 'w or_exit option" where
  "Rio_writen wr fuel w bs = do {
     (r, w) \<leftarrow> rio_writen wr fuel w bs;
     Some (if r \<noteq> int (length bs) then Exit 0 ''Rio_writen error'' else Continue w)
   }"

section \<open>Buffered reading\<close>

definition RIO_BUFSIZE :: nat where "RIO_BUFSIZE = 8192"

text \<open>\<open>rio_bufptr\<close> is an index into \<open>rio_buf\<close>.\<close>

record rio_t =
  rio_fd :: int
  rio_cnt :: int
  rio_bufptr :: nat
  rio_buf :: "u8 list"

definition rio_readinitb :: "rio_t \<Rightarrow> int \<Rightarrow> rio_t" where
  "rio_readinitb rp fd = rp\<lparr>rio_fd := fd, rio_cnt := 0, rio_bufptr := 0\<rparr>"

text \<open>\<open>rio_read\<close> refills the buffer until it holds something; the system call takes the descriptor.\<close>

fun rio_read :: "(int \<Rightarrow> 'w reader) \<Rightarrow> nat \<Rightarrow> (rio_t \<times> 'w) reader" where
  "rio_read rd 0 (rp, w) n = None"
| "rio_read rd (Suc fuel) (rp, w) n =
     (if rio_cnt rp \<le> 0 then do {
        (r, w) \<leftarrow> rd (rio_fd rp) w RIO_BUFSIZE;
        case r of
          Failed eintr \<Rightarrow>
            let rp = rp\<lparr>rio_cnt := -1\<rparr> in
            if eintr then rio_read rd fuel (rp, w) n else Some (Failed eintr, rp, w)
        | Got bs \<Rightarrow>
            let rp = rp\<lparr>rio_cnt := int (length bs), rio_buf := bs @ drop (length bs) (rio_buf rp)\<rparr> in
            if bs = [] then Some (Got [], rp, w) else rio_read rd fuel (rp\<lparr>rio_bufptr := 0\<rparr>, w) n
      } else do {
        let cnt = min n (nat (rio_cnt rp));
        c_assert (rio_bufptr rp + cnt \<le> length (rio_buf rp));
        Some (Got (take cnt (drop (rio_bufptr rp) (rio_buf rp))),
          rp\<lparr>rio_bufptr := rio_bufptr rp + cnt, rio_cnt := rio_cnt rp - int cnt\<rparr>, w)
      })"

text \<open>\<open>rio_readnb\<close> is the loop of \<open>rio_readn\<close> over \<open>rio_read\<close>.\<close>

definition rio_readnb ::
  "(int \<Rightarrow> 'w reader) \<Rightarrow> nat \<Rightarrow> rio_t \<times> 'w \<Rightarrow> nat \<Rightarrow> (int \<times> u8 list \<times> rio_t \<times> 'w) option" where
  "rio_readnb rd fuel s n = readn_loop (rio_read rd fuel) n fuel s []"

definition Rio_readnb ::
  "(int \<Rightarrow> 'w reader) \<Rightarrow> nat \<Rightarrow> rio_t \<times> 'w \<Rightarrow> nat \<Rightarrow> (int \<times> u8 list \<times> rio_t \<times> 'w) or_exit option" where
  "Rio_readnb rd fuel s n = do {
     (r, bs, s) \<leftarrow> rio_readnb rd fuel s n;
     Some (if r < 0 then Exit 0 ''Rio_readnb error'' else Continue (r, bs, s))
   }"

text \<open>The loop of \<open>rio_readlineb\<close>: \<open>n\<close> is its counter, the third argument is \<open>maxlen - n\<close>.\<close>

fun readline_loop :: "'w reader \<Rightarrow> nat \<Rightarrow> nat \<Rightarrow> 'w \<Rightarrow> u8 list \<Rightarrow> (int \<times> u8 list \<times> 'w) option" where
  "readline_loop rd n 0 w acc = Some (int n, acc @ [0], w)"
| "readline_loop rd n (Suc left) w acc = do {
     (r, w) \<leftarrow> rd w 1;
     case r of
       Got [] \<Rightarrow> if n = 1 then Some (0, acc, w) else Some (int n, acc @ [0], w)
     | Got (c # _) \<Rightarrow>
         if c = 0x0A then Some (int n, acc @ [c, 0], w)
         else readline_loop rd (n + 1) left w (acc @ [c])
     | Failed _ \<Rightarrow> Some (-1, acc, w)
   }"

definition rio_readlineb ::
  "(int \<Rightarrow> 'w reader) \<Rightarrow> nat \<Rightarrow> rio_t \<times> 'w \<Rightarrow> nat \<Rightarrow> (int \<times> u8 list \<times> rio_t \<times> 'w) option" where
  "rio_readlineb rd fuel s maxlen = readline_loop (rio_read rd fuel) 1 (maxlen - 1) s []"

definition Rio_readlineb ::
  "(int \<Rightarrow> 'w reader) \<Rightarrow> nat \<Rightarrow> rio_t \<times> 'w \<Rightarrow> nat \<Rightarrow> (int \<times> u8 list \<times> rio_t \<times> 'w) or_exit option" where
  "Rio_readlineb rd fuel s maxlen = do {
     (r, bs, s) \<leftarrow> rio_readlineb rd fuel s maxlen;
     Some (if r < 0 then Exit 0 ''Rio_readlineb error'' else Continue (r, bs, s))
   }"

section \<open>What the package relies on\<close>

text \<open>
  A reader delivers the stream \<open>content\<close>: each call gives a non-empty prefix of it, of at most the
  length asked for, or nothing at its end, or is interrupted and gives nothing. \<open>delay\<close> bounds
  the interruptions to come.
\<close>

locale byte_reader =
  fixes rd :: "'w reader" and ready :: "'w \<Rightarrow> bool" and content :: "'w \<Rightarrow> u8 list" and delay :: "'w \<Rightarrow> nat"
  assumes read_cases: "ready w \<Longrightarrow> 0 < n \<Longrightarrow>
    (\<exists>bs w'. rd w n = Some (Got bs, w') \<and> ready w' \<and> content w = bs @ content w' \<and> length bs \<le> n \<and>
       (bs = [] \<longrightarrow> content w = []) \<and> delay w' \<le> delay w) \<or>
    (\<exists>w'. rd w n = Some (Failed True, w') \<and> ready w' \<and> content w' = content w \<and> delay w' < delay w)"
begin

lemma read_stepE:
  assumes "ready w" "0 < n"
  obtains (got) b bs w' where "rd w n = Some (Got (b # bs), w')" "ready w'" "content w = b # bs @ content w'"
      "length bs < n" "delay w' \<le> delay w"
  | (eof) w' where "rd w n = Some (Got [], w')" "ready w'" "content w = []" "content w' = []" "delay w' \<le> delay w"
  | (interrupted) w' where "rd w n = Some (Failed True, w')" "ready w'" "content w' = content w" "delay w' < delay w"
proof -
  from read_cases [OF assms] show thesis
  proof (elim disjE exE conjE)
    fix bs w' assume *: "rd w n = Some (Got bs, w')" "ready w'" "content w = bs @ content w'" "length bs \<le> n"
      "bs = [] \<longrightarrow> content w = []" "delay w' \<le> delay w"
    show thesis
    proof (cases bs)
      case Nil
      with * show ?thesis by (intro eof) auto
    next
      case (Cons b bs')
      with * show ?thesis by (intro got) auto
    qed
  next
    fix w' assume "rd w n = Some (Failed True, w')" "ready w'" "content w' = content w" "delay w' < delay w"
    then show thesis by (rule interrupted)
  qed
qed

lemma readn_loop_content:
  "ready w \<Longrightarrow> length (content w) + delay w < fuel \<Longrightarrow> length acc \<le> n \<Longrightarrow>
   \<exists>w'. readn_loop rd n fuel w acc =
       Some (int (length acc + min (n - length acc) (length (content w))), acc @ take (n - length acc) (content w), w') \<and>
     ready w' \<and> content w' = drop (n - length acc) (content w) \<and> delay w' \<le> delay w"
proof (induction fuel arbitrary: w acc)
  case (Suc fuel)
  show ?case
  proof (cases "length acc < n")
    case False
    then show ?thesis using Suc.prems by auto
  next
    case True
    then have "0 < n - length acc" by simp
    with Suc.prems(1) show ?thesis
    proof (cases rule: read_stepE)
      case (got b bs w')
      let ?acc = "acc @ b # bs"
      have len: "length ?acc \<le> n" using got True by simp
      have more: "n - length acc = Suc (length bs) + (n - length ?acc)" using len by simp
      obtain w'' where w'': "readn_loop rd n fuel w' ?acc =
          Some (int (length ?acc + min (n - length ?acc) (length (content w'))),
            ?acc @ take (n - length ?acc) (content w'), w'')"
        "ready w''" "content w'' = drop (n - length ?acc) (content w')" "delay w'' \<le> delay w'"
        using Suc.IH [OF got(2) _ len] Suc.prems(2) got by auto
      moreover have "take (n - length acc) (content w) = b # bs @ take (n - length ?acc) (content w')"
        "drop (n - length acc) (content w) = drop (n - length ?acc) (content w')"
        by (simp_all only: more got(3)) simp_all
      ultimately show ?thesis using True got(1,3,5) more by (auto simp: min_def)
    next
      case (eof w')
      with True show ?thesis by auto
    next
      case (interrupted w')
      with Suc.IH [of w' acc] Suc.prems True show ?thesis by fastforce
    qed
  qed
qed simp

lemma rio_readn_content:
  assumes "ready w" "length (content w) + delay w < fuel"
  shows "\<exists>w'. rio_readn rd fuel w n = Some (int (min n (length (content w))), take n (content w), w') \<and>
    ready w' \<and> content w' = drop n (content w) \<and> delay w' \<le> delay w"
  using readn_loop_content [OF assms, of "[]" n] by (simp add: rio_readn_def)

end

text \<open>
  A buffer over a reader is a reader of the bytes in the buffer followed by the stream, and it hides
  the interruptions. The fuel bounds the turns of the refill loop of one call.
\<close>

definition unread :: "rio_t \<Rightarrow> u8 list" where
  "unread rp = (if 0 < rio_cnt rp then take (nat (rio_cnt rp)) (drop (rio_bufptr rp) (rio_buf rp)) else [])"

definition rio_wf :: "rio_t \<Rightarrow> bool" where
  "rio_wf rp \<longleftrightarrow> length (rio_buf rp) = RIO_BUFSIZE \<and>
     (0 < rio_cnt rp \<longrightarrow> rio_bufptr rp + nat (rio_cnt rp) \<le> RIO_BUFSIZE)"

lemma length_unread: "rio_wf rp \<Longrightarrow> length (unread rp) = nat (rio_cnt rp)"
  by (auto simp: unread_def rio_wf_def)

locale buffered_reader = byte_reader "sys fd" ready content delay
  for sys :: "int \<Rightarrow> 'w reader" and fd :: int and ready :: "'w \<Rightarrow> bool"
    and content :: "'w \<Rightarrow> u8 list" and delay :: "'w \<Rightarrow> nat" +
  fixes fuel :: nat
begin

definition buf_ready :: "rio_t \<times> 'w \<Rightarrow> bool" where
  "buf_ready = (\<lambda>(rp, w). rio_wf rp \<and> rio_fd rp = fd \<and> ready w \<and> delay w + 1 < fuel)"

definition buf_content :: "rio_t \<times> 'w \<Rightarrow> u8 list" where
  "buf_content = (\<lambda>(rp, w). unread rp @ content w)"

lemma copy_out:
  assumes "rio_wf rp" "0 < rio_cnt rp" "0 < n"
  shows "\<exists>bs rp'. rio_read sys (Suc f) (rp, w) n = Some (Got bs, rp', w) \<and> bs \<noteq> [] \<and> length bs \<le> n \<and>
    unread rp = bs @ unread rp' \<and> rio_wf rp' \<and> rio_fd rp' = rio_fd rp"
proof -
  define cnt where "cnt = min n (nat (rio_cnt rp))"
  define rp' where "rp' = rp\<lparr>rio_bufptr := rio_bufptr rp + cnt, rio_cnt := rio_cnt rp - int cnt\<rparr>"
  define tail where "tail = drop (rio_bufptr rp) (rio_buf rp)"
  have cnt: "0 < cnt" "cnt \<le> nat (rio_cnt rp)" "cnt \<le> n" using assms by (auto simp: cnt_def)
  have len: "nat (rio_cnt rp) \<le> length tail" "rio_bufptr rp + cnt \<le> length (rio_buf rp)"
    using assms(1,2) cnt(2) by (auto simp: rio_wf_def tail_def)
  have "unread rp' = drop cnt (take (nat (rio_cnt rp)) tail)"
    using cnt assms(2)
    by (auto simp: unread_def rp'_def tail_def drop_take add.commute nat_diff_distrib')
  then have "unread rp = take cnt tail @ unread rp'"
    using assms(2) cnt(2) by (simp add: unread_def flip: tail_def)
      (metis append_take_drop_id min.absorb1 take_take)
  moreover have "rio_wf rp'" using assms(1,2) cnt(2) by (auto simp: rio_wf_def rp'_def)
  moreover have "rio_read sys (Suc f) (rp, w) n = Some (Got (take cnt tail), rp', w)"
    using assms(2) len(2) by (simp add: cnt_def [symmetric] rp'_def tail_def Let_def)
  moreover have "take cnt tail \<noteq> []" using cnt(1,2) len(1) by auto
  ultimately show ?thesis using cnt(3) by (intro exI [of _ "take cnt tail"] exI [of _ rp']) (simp add: rp'_def)
qed

lemma rio_read_content:
  "rio_wf rp \<Longrightarrow> rio_fd rp = fd \<Longrightarrow> ready w \<Longrightarrow> delay w + 1 < f \<Longrightarrow> 0 < n \<Longrightarrow>
   \<exists>bs rp' w'. rio_read sys f (rp, w) n = Some (Got bs, rp', w') \<and> rio_wf rp' \<and> rio_fd rp' = fd \<and> ready w' \<and>
     unread rp @ content w = bs @ unread rp' @ content w' \<and> length bs \<le> n \<and>
     (bs = [] \<longrightarrow> unread rp @ content w = []) \<and> delay w' \<le> delay w"
proof (induction f arbitrary: rp w)
  case (Suc f)
  show ?case
  proof (cases "0 < rio_cnt rp")
    case True
    from copy_out [OF Suc.prems(1) this Suc.prems(5), of f w] Suc.prems show ?thesis by fastforce
  next
    case False
    then have u: "unread rp = []" by (simp add: unread_def)
    have "0 < RIO_BUFSIZE" by (simp add: RIO_BUFSIZE_def)
    from Suc.prems(3) this show ?thesis
    proof (cases rule: read_stepE)
      case (got b bs w')
      let ?rp = "rp\<lparr>rio_cnt := int (length (b # bs)), rio_buf := (b # bs) @ drop (length (b # bs)) (rio_buf rp),
        rio_bufptr := 0\<rparr>"
      have wf: "rio_wf ?rp" using Suc.prems(1) got(4) by (auto simp: rio_wf_def)
      have un: "unread ?rp = b # bs" by (simp add: unread_def nat_add_distrib)
      obtain k where f: "f = Suc k" using Suc.prems(4) by (cases f) auto
      have "rio_read sys (Suc f) (rp, w) n = rio_read sys f (?rp, w') n"
        using False Suc.prems(2) got(1) by simp
      moreover have "\<exists>cs rp'. rio_read sys f (?rp, w') n = Some (Got cs, rp', w') \<and> cs \<noteq> [] \<and> length cs \<le> n \<and>
        unread ?rp = cs @ unread rp' \<and> rio_wf rp' \<and> rio_fd rp' = rio_fd ?rp"
        unfolding f by (rule copy_out [OF wf _ Suc.prems(5)]) simp
      ultimately obtain cs rp' where "rio_read sys (Suc f) (rp, w) n = Some (Got cs, rp', w')" "cs \<noteq> []"
        "length cs \<le> n" "b # bs = cs @ unread rp'" "rio_wf rp'" "rio_fd rp' = fd"
        using un Suc.prems(2) by auto
      then show ?thesis using got(2,3,5) u by (intro exI [of _ cs] exI [of _ rp'] exI [of _ w']) (simp flip: append_assoc)
    next
      case (eof w')
      let ?rp = "rp\<lparr>rio_cnt := 0\<rparr>"
      have "rio_read sys (Suc f) (rp, w) n = Some (Got [], ?rp, w')"
        using False Suc.prems(2) eof(1) by simp
      moreover have "rio_wf ?rp" "unread ?rp = []" using Suc.prems(1) by (simp_all add: rio_wf_def unread_def)
      ultimately show ?thesis using eof u Suc.prems(2)
        by (intro exI [of _ "[]"] exI [of _ ?rp] exI [of _ w']) simp
    next
      case (interrupted w')
      let ?rp = "rp\<lparr>rio_cnt := -1\<rparr>"
      have "rio_wf ?rp" "unread ?rp = []" using Suc.prems(1) by (simp_all add: rio_wf_def unread_def)
      moreover have "rio_read sys (Suc f) (rp, w) n = rio_read sys f (?rp, w') n"
        using False Suc.prems(2) interrupted(1) by simp
      ultimately show ?thesis
        using Suc.IH [of ?rp w'] interrupted Suc.prems u by fastforce
    qed
  qed
qed simp

end

sublocale buffered_reader \<subseteq> buf: byte_reader "rio_read sys fuel" buf_ready buf_content "\<lambda>s. 0"
proof
  fix s :: "rio_t \<times> 'w" and n :: nat assume s: "buf_ready s" and n: "0 < n"
  obtain rp w where rp: "s = (rp, w)" by (cases s)
  with s have "rio_wf rp" "rio_fd rp = fd" "ready w" "delay w + 1 < fuel" by (auto simp: buf_ready_def)
  from rio_read_content [OF this n] obtain bs rp' w' where "rio_read sys fuel (rp, w) n = Some (Got bs, rp', w')"
    "rio_wf rp'" "rio_fd rp' = fd" "ready w'" "unread rp @ content w = bs @ unread rp' @ content w'"
    "length bs \<le> n" "bs = [] \<longrightarrow> unread rp @ content w = []" "delay w' \<le> delay w" by blast
  with \<open>delay w + 1 < fuel\<close> have "rio_read sys fuel s n = Some (Got bs, rp', w') \<and> buf_ready (rp', w') \<and>
    buf_content s = bs @ buf_content (rp', w') \<and> length bs \<le> n \<and> (bs = [] \<longrightarrow> buf_content s = [])"
    by (simp add: rp buf_ready_def buf_content_def)
  then show "(\<exists>bs s'. rio_read sys fuel s n = Some (Got bs, s') \<and> buf_ready s' \<and>
      buf_content s = bs @ buf_content s' \<and> length bs \<le> n \<and> (bs = [] \<longrightarrow> buf_content s = []) \<and> (0::nat) \<le> 0) \<or>
    (\<exists>s'. rio_read sys fuel s n = Some (Failed True, s') \<and> buf_ready s' \<and> buf_content s' = buf_content s \<and> (0::nat) < 0)"
    by blast
qed

section \<open>Lines\<close>

text \<open>The first line of a stream with its newline, cut at \<open>k\<close> bytes.\<close>

fun first_line :: "nat \<Rightarrow> u8 list \<Rightarrow> u8 list" where
  "first_line 0 bs = []"
| "first_line (Suc k) [] = []"
| "first_line (Suc k) (c # cs) = c # (if c = 0x0A then [] else first_line k cs)"

definition full_line :: "u8 list \<Rightarrow> bool" where
  "full_line l \<longleftrightarrow> l \<noteq> [] \<and> last l = 0x0A"

lemma first_line_prefix: "take (length (first_line k bs)) bs = first_line k bs"
  by (induction k bs rule: first_line.induct) auto

lemma full_line_Cons [simp]: "full_line (c # l) \<longleftrightarrow> (if l = [] then c = 0x0A else full_line l)"
  by (simp add: full_line_def)

lemma full_line_Nil [simp]: "\<not> full_line []"
  by (simp add: full_line_def)

context byte_reader
begin

lemma readline_loop_content:
  "ready w \<Longrightarrow> delay w = 0 \<Longrightarrow> 1 \<le> n \<Longrightarrow> \<not> (n = 1 \<and> 0 < k \<and> content w = []) \<Longrightarrow>
   \<exists>w'. readline_loop rd n k w acc = Some (int (n + length (first_line k (content w)) -
       (if full_line (first_line k (content w)) then 1 else 0)), acc @ first_line k (content w) @ [0], w') \<and>
     ready w' \<and> content w' = drop (length (first_line k (content w))) (content w)"
proof (induction k arbitrary: n w acc)
  case (Suc k)
  from Suc.prems(1) zero_less_one show ?case
  proof (cases rule: read_stepE)
    case (got b bs w')
    then have d: "delay w' = 0" "bs = []" using Suc.prems(2) by auto
    show ?thesis
    proof (cases "b = 0x0A")
      case True
      with got d Suc.prems(3) show ?thesis by (auto intro!: exI [of _ w'])
    next
      case False
      obtain w'' where "readline_loop rd (n + 1) k w' (acc @ [b]) =
          Some (int (n + 1 + length (first_line k (content w')) - (if full_line (first_line k (content w')) then 1 else 0)),
            (acc @ [b]) @ first_line k (content w') @ [0], w'')"
        "ready w''" "content w'' = drop (length (first_line k (content w'))) (content w')"
        using Suc.IH [OF got(2) d(1), of "n + 1" "acc @ [b]"] Suc.prems(3) by auto
      with False got d Suc.prems(3) show ?thesis by (auto intro!: exI [of _ w''])
    qed
  next
    case (eof w')
    with Suc.prems show ?thesis by auto
  next
    case interrupted
    with Suc.prems(2) show ?thesis by simp
  qed
qed auto

lemma readline_loop_eof:
  assumes "ready w" "delay w = 0" "content w = []"
  shows "\<exists>w'. readline_loop rd 1 (Suc k) w acc = Some (0, acc, w') \<and> ready w' \<and> content w' = []"
  using assms(1) zero_less_one by (cases rule: read_stepE) (use assms(2,3) in auto)

end

context buffered_reader
begin

lemma init_ready:
  assumes "length (rio_buf rp) = RIO_BUFSIZE" "ready w" "delay w + 1 < fuel"
  shows "buf_ready (rio_readinitb rp fd, w)" "buf_content (rio_readinitb rp fd, w) = content w"
  using assms by (simp_all add: buf_ready_def buf_content_def rio_readinitb_def rio_wf_def unread_def)

lemma readnb_content:
  assumes "buf_ready s" "length (buf_content s) < fuel"
  shows "\<exists>rp w. rio_readnb sys fuel s n = Some (int (min n (length (buf_content s))), take n (buf_content s), rp, w) \<and>
    unread rp @ content w = drop n (buf_content s)"
  using buf.readn_loop_content [OF assms(1), of fuel "[]" n] assms(2)
  by (auto simp: rio_readnb_def buf_content_def)

lemma readlineb_content:
  assumes "buf_ready s" "buf_content s \<noteq> []"
  shows "\<exists>rp w. rio_readlineb sys fuel s m =
      (let l = first_line (m - 1) (buf_content s)
       in Some (int (length l) + of_bool (\<not> full_line l), l @ [0], rp, w)) \<and>
    unread rp @ content w = drop (length (first_line (m - 1) (buf_content s))) (buf_content s)"
proof -
  let ?l = "first_line (m - 1) (buf_content s)"
  obtain s' where s': "readline_loop (rio_read sys fuel) 1 (m - 1) s [] =
      Some (int (1 + length ?l - (if full_line ?l then 1 else 0)), ?l @ [0], s')"
    "buf_content s' = drop (length ?l) (buf_content s)"
    using buf.readline_loop_content [OF assms(1) refl order_refl, of "m - 1" "[]"] assms(2) by auto
  obtain rp w where "s' = (rp, w)" by (cases s')
  with s' show ?thesis
    by (cases "?l = []") (auto simp: rio_readlineb_def Let_def buf_content_def full_line_def intro!: exI [of _ rp] exI [of _ w])
qed

lemma readlineb_eof:
  assumes "buf_ready s" "buf_content s = []" "1 < m"
  shows "\<exists>s'. rio_readlineb sys fuel s m = Some (0, [], s')"
  using buf.readline_loop_eof [OF assms(1) refl assms(2), of "m - 2" "[]"] assms(3)
  by (auto simp: rio_readlineb_def numeral_2_eq_2 Suc_diff_Suc)

end

section \<open>What a writer promises\<close>

locale byte_writer =
  fixes wr :: "'w writer" and ready :: "'w \<Rightarrow> bool" and received :: "'w \<Rightarrow> u8 list" and delay :: "'w \<Rightarrow> nat"
  assumes write_cases: "ready w \<Longrightarrow> bs \<noteq> [] \<Longrightarrow>
    (\<exists>k e w'. wr w bs = (int k, e, w') \<and> 0 < k \<and> k \<le> length bs \<and> ready w' \<and>
       received w' = received w @ take k bs \<and> delay w' \<le> delay w) \<or>
    (\<exists>k w'. wr w bs = (k, True, w') \<and> k \<le> 0 \<and> ready w' \<and> received w' = received w \<and> delay w' < delay w)"
begin

lemma writen_loop_all:
  "ready w \<Longrightarrow> length bs + delay w < fuel \<Longrightarrow>
   \<exists>w'. writen_loop wr n fuel w bs = Some (int n, w') \<and> ready w' \<and> received w' = received w @ bs \<and> delay w' \<le> delay w"
proof (induction fuel arbitrary: w bs)
  case (Suc fuel)
  show ?case
  proof (cases "bs = []")
    case True
    with Suc.prems show ?thesis by simp
  next
    case False
    from write_cases [OF Suc.prems(1) False] show ?thesis
    proof (elim disjE exE conjE)
      fix k e w' assume w': "wr w bs = (int k, e, w')" "0 < k" "k \<le> length bs" "ready w'"
        "received w' = received w @ take k bs" "delay w' \<le> delay w"
      have "length (drop k bs) + delay w' < fuel" using Suc.prems(2) w'(2,3,6) by simp
      from Suc.IH [OF w'(4) this] w' False show ?thesis by fastforce
    next
      fix k w' assume w': "wr w bs = (k, True, w')" "k \<le> 0" "ready w'" "received w' = received w" "delay w' < delay w"
      from Suc.IH [OF w'(3), of bs] Suc.prems(2) w' False show ?thesis by fastforce
    qed
  qed
qed simp

end

section \<open>A scripted kernel\<close>

text \<open>
  A stream with a schedule: 0 is an interruption, \<open>k\<close> a call that transfers at most \<open>k\<close> bytes, and
  after the schedule every call transfers all it can.
\<close>

fun scheduled_read :: "(u8 list \<times> nat list) reader" where
  "scheduled_read (bs, []) n = Some (Got (take n bs), drop n bs, [])"
| "scheduled_read (bs, k # ks) n = Some (if k = 0 then (Failed True, bs, ks)
     else (Got (take (min k n) bs), drop (min k n) bs, ks))"

fun scheduled_write :: "(u8 list \<times> nat list) writer" where
  "scheduled_write (out, []) bs = (int (length bs), False, out @ bs, [])"
| "scheduled_write (out, k # ks) bs = (if k = 0 then (-1, True, out, ks)
     else (int (min k (length bs)), False, out @ take k bs, ks))"

interpretation kernel_in: byte_reader scheduled_read "\<lambda>w. True" fst "\<lambda>w. length (snd w)"
proof
  fix w :: "u8 list \<times> nat list" and n :: nat assume "0 < n"
  then show "(\<exists>bs w'. scheduled_read w n = Some (Got bs, w') \<and> True \<and> fst w = bs @ fst w' \<and> length bs \<le> n \<and>
       (bs = [] \<longrightarrow> fst w = []) \<and> length (snd w') \<le> length (snd w)) \<or>
    (\<exists>w'. scheduled_read w n = Some (Failed True, w') \<and> True \<and> fst w' = fst w \<and> length (snd w') < length (snd w))"
    by (cases "(w, n)" rule: scheduled_read.cases) auto
qed

interpretation kernel_out: byte_writer scheduled_write "\<lambda>w. True" fst "\<lambda>w. length (snd w)"
proof
  fix w :: "u8 list \<times> nat list" and bs :: "u8 list" assume "bs \<noteq> []"
  then show "(\<exists>k e w'. scheduled_write w bs = (int k, e, w') \<and> 0 < k \<and> k \<le> length bs \<and> True \<and>
       fst w' = fst w @ take k bs \<and> length (snd w') \<le> length (snd w)) \<or>
    (\<exists>k w'. scheduled_write w bs = (k, True, w') \<and> k \<le> 0 \<and> True \<and> fst w' = fst w \<and>
       length (snd w') < length (snd w))"
  proof (cases "(w, bs)" rule: scheduled_write.cases)
    case (1 out cs)
    with \<open>bs \<noteq> []\<close> show ?thesis by (intro disjI1 exI [of _ "length bs"]) auto
  next
    case (2 out k ks cs)
    then show ?thesis
    proof (cases "k = 0")
      case False
      with 2 \<open>bs \<noteq> []\<close> show ?thesis
        by (intro disjI1 exI [of _ "min k (length bs)"]) (auto simp: min_def)
    qed auto
  qed
qed

interpretation kernel_buf: buffered_reader "\<lambda>fd. scheduled_read" fd "\<lambda>w. True" fst "\<lambda>w. length (snd w)" fuel for fd fuel
  by unfold_locales

section \<open>Properties\<close>

text \<open>
  (C28) \<open>Rio_writen\<close> delivers all its bytes, in order and once each, however small the pieces are that
  the kernel accepts and however often the call is interrupted (a bounded number of times), and the
  program goes on.
\<close>

theorem rio_writen_delivers:
  assumes "byte_writer wr ready received delay" "ready w" "length bs + delay w < fuel"
  shows "\<exists>w'. rio_writen wr fuel w bs = Some (int (length bs), w') \<and> Rio_writen wr fuel w bs = Some (Continue w') \<and>
    received w' = received w @ bs"
  using byte_writer.writen_loop_all [OF assms, of "length bs"] by (auto simp: Rio_writen_def rio_writen_def)

theorem rio_writen_delivers_witness:
  "\<exists>w'. Rio_writen scheduled_write 8 ([], [1, 0, 2]) [10, 20, 30] = Some (Continue w') \<and> fst w' = [10, 20, 30]"
  using rio_writen_delivers [OF kernel_out.byte_writer_axioms, where w = "([], [1, 0, 2])" and bs = "[10, 20, 30]" and fuel = 8]
  by auto

text \<open>
  (C29) Reading \<open>n\<close> bytes with or without a buffer gives the same count and the same bytes, the first
  \<open>n\<close> of the stream or all there are before its end, whatever the pieces in which the kernel delivers
  them and whatever the interruptions; the rest of the stream stays to be read.
\<close>

theorem rio_readn_readnb_agree:
  assumes "byte_reader (sys fd) ready content delay" "ready w" "length (content w) + delay w + 1 < fuel"
    "length (rio_buf rp) = RIO_BUFSIZE"
  shows "\<exists>w' rp' w''.
    rio_readn (sys fd) fuel w n = Some (int (min n (length (content w))), take n (content w), w') \<and>
    rio_readnb sys fuel (rio_readinitb rp fd, w) n = Some (int (min n (length (content w))), take n (content w), rp', w'') \<and>
    content w' = drop n (content w) \<and> unread rp' @ content w'' = drop n (content w)"
proof -
  have b: "buffered_reader sys fd ready content delay" by (simp add: buffered_reader_def assms(1))
  have "delay w + 1 < fuel" using assms(3) by simp
  note init = buffered_reader.init_ready [OF b assms(4,2) this]
  show ?thesis
    using byte_reader.rio_readn_content [OF assms(1,2), of fuel n] assms(3)
      buffered_reader.readnb_content [OF b init(1), of n] init(2)
    by fastforce
qed

definition fresh_rio :: rio_t where
  "fresh_rio = \<lparr>rio_fd = 0, rio_cnt = 7, rio_bufptr = 5, rio_buf = replicate 8192 0\<rparr>"

lemma fresh_rio_size [simp]: "length (rio_buf fresh_rio) = RIO_BUFSIZE"
  by (simp add: fresh_rio_def RIO_BUFSIZE_def)

theorem rio_readn_readnb_agree_witness:
  "\<exists>w rp w'. rio_readn scheduled_read 9 ([1, 2, 3], [2, 0]) 5 = Some (3, [1, 2, 3], w) \<and>
    rio_readnb (\<lambda>fd. scheduled_read) 9 (rio_readinitb fresh_rio 4, ([1, 2, 3], [2, 0])) 5 = Some (3, [1, 2, 3], rp, w')"
  using rio_readn_readnb_agree [of "\<lambda>fd. scheduled_read" 4, OF kernel_in.byte_reader_axioms, of "([1, 2, 3], [2, 0])" 9
    fresh_rio 5] by auto

text \<open>
  (C30) \<open>rio_readlineb\<close> stores the first line of the stream with its newline, cut at \<open>maxlen - 1\<close> bytes,
  and a zero byte, whatever the pieces in which the kernel delivers it, and leaves the rest to be
  read; at the end of the stream it returns 0. The count it returns is the number of bytes stored
  only when the line is complete: a line cut by \<open>maxlen\<close> or by the end of the stream counts one more.
\<close>

theorem rio_readlineb_line:
  assumes "byte_reader (sys fd) ready content delay" "ready w" "delay w + 1 < fuel"
    "length (rio_buf rp) = RIO_BUFSIZE" "1 < maxlen"
  shows "let l = first_line (maxlen - 1) (content w) in
    if content w = [] then \<exists>s. rio_readlineb sys fuel (rio_readinitb rp fd, w) maxlen = Some (0, [], s)
    else \<exists>rp' w'. rio_readlineb sys fuel (rio_readinitb rp fd, w) maxlen =
        Some (int (length l) + of_bool (\<not> full_line l), l @ [0], rp', w') \<and>
      unread rp' @ content w' = drop (length l) (content w)"
proof -
  have b: "buffered_reader sys fd ready content delay" by (simp add: buffered_reader_def assms(1))
  note init = buffered_reader.init_ready [OF b assms(4,2,3)]
  show ?thesis
    using buffered_reader.readlineb_content [OF b init(1), of maxlen]
      buffered_reader.readlineb_eof [OF b init(1) _ assms(5)] init(2)
    by (auto simp: Let_def)
qed

theorem rio_readlineb_line_witness:
  "\<exists>s. rio_readlineb (\<lambda>fd. scheduled_read) 9 (rio_readinitb fresh_rio 4, ([72, 10, 73], [1, 0, 1])) 80 =
    Some (2, [72, 10, 0], s)"
proof -
  have "first_line 79 [72, 10, 73] = [72, 10]" by code_simp
  then show ?thesis
    using rio_readlineb_line [of "\<lambda>fd. scheduled_read" 4, OF kernel_in.byte_reader_axioms,
        of "([72, 10, 73], [1, 0, 1])" 9 fresh_rio 80]
    by (auto simp: full_line_def)
qed

end
