(* ===== verification/Gdb_Protocol.thy ===== *)
theory Gdb_Protocol
  imports Arm_Instruction Gdb_Breakpoints C_Strings Csapp_Rio
begin

text \<open>
  \<^verbatim>\<open>gdb_protocol.c\<close>: the server side of the remote protocol of gdb, from the checksum
  of a packet to the handlers of its commands. The processor, its registers and its memory are
  shared with the debugger through pointers to the same objects, so the state of the debugger holds
  the processor once. The bytes written to the connection are the field \<open>sent\<close>; a write may fail and then
  ends the program. Messages on the standard error output are not modelled. Handlers run under the mutex shared with the interrupt
  listener, so each one is a single step of the model.
\<close>

section \<open>State\<close>

text \<open>
  \<open>conn\<close> stands for what the kernel answers on the connection \<open>fd\<close>: \<open>conn k\<close> tells whether a write fails when \<open>k\<close>
  bytes have been written before it. Every write of the program that succeeds adds to the bytes
  written, and one that fails is the last, so this is as general as an answer for each write.
\<close>

definition MAX_PACKET_SIZE :: nat where "MAX_PACKET_SIZE = 4096"

record gdb_protocol_data = breakpoint_table +
  arm :: arm_core
  target_exception :: int
  packet :: "u8 list"
  pkt_len :: nat
  sent :: "u8 list"
  shut_down :: bool
  conn :: "nat \<Rightarrow> bool"

text \<open>
  The contents of the uninitialised locals: the variables that \<open>sscanf\<close> is to fill, the byte read from
  memory, and those of the k-th step of the processor.
\<close>

record gdb_junk =
  junk_a :: u32
  junk_b :: u32
  junk_c :: u32
  junk_type :: u8
  junk_value :: u8
  junk_steps :: "nat \<Rightarrow> stack_junk"

text \<open>
  \<open>buffer\<close> is \<open>packet + 1\<close>. \<open>gdb_init_data\<close> leaves the two arrays with the content \<open>malloc\<close> gave them.
\<close>

definition gdb_init_data ::
  "bool \<Rightarrow> arm_core \<Rightarrow> u8 list \<Rightarrow> u32 list \<Rightarrow> (nat \<Rightarrow> bool) \<Rightarrow> gdb_protocol_data option" where
  "gdb_init_data got a pkt bps fails = (if got then
     Some \<lparr>breakpoints = bps, breakpoints_number = 0, arm = a, target_exception = 0, packet = pkt,
       pkt_len = 0, sent = [], shut_down = False, conn = fails\<rparr>
   else None)"

text \<open>Writing a text into the packet; the position counts from the start of \<open>packet\<close>.\<close>

definition put_bytes :: "u8 list \<Rightarrow> nat \<Rightarrow> u8 list \<Rightarrow> u8 list option" where
  "put_bytes pkt pos bs = (if pos + length bs \<le> length pkt
     then Some (take pos pkt @ bs @ drop (pos + length bs) pkt) else None)"

definition put_text :: "gdb_protocol_data \<Rightarrow> nat \<Rightarrow> u8 list \<Rightarrow> gdb_protocol_data option" where
  "put_text gdb pos t = do {
     pkt \<leftarrow> put_bytes (packet gdb) pos (t @ [0]);
     Some (gdb\<lparr>packet := pkt\<rparr>)
   }"

section \<open>Sending\<close>

text \<open>
  \<open>Rio_writen\<close> on the connection: all bytes are written, or the program ends. After \<open>shutdown\<close> no write succeeds
  (the signal \<open>SIGPIPE\<close>, which the program does not handle, ends it even before the message).
\<close>

definition rio_send :: "gdb_protocol_data \<Rightarrow> u8 list \<Rightarrow> gdb_protocol_data or_exit" where
  "rio_send gdb bs = (if bs \<noteq> [] \<and> (shut_down gdb \<or> conn gdb (length (sent gdb))) then Exit 0 ''Rio_writen error''
     else Continue (gdb\<lparr>sent := sent gdb @ bs\<rparr>))"

definition gdb_send_ack :: "gdb_protocol_data \<Rightarrow> gdb_protocol_data or_exit" where
  "gdb_send_ack gdb = rio_send gdb (bytes ''+'')"

definition gdb_require_retransmission :: "gdb_protocol_data \<Rightarrow> gdb_protocol_data or_exit" where
  "gdb_require_retransmission gdb = rio_send gdb (bytes ''-'')"

definition gdb_transmit_packet :: "gdb_protocol_data \<Rightarrow> gdb_protocol_data or_exit option" where
  "gdb_transmit_packet gdb =
     (if pkt_len gdb \<le> length (packet gdb) then Some (rio_send gdb (take (pkt_len gdb) (packet gdb)))
      else None)"

text \<open>The loop that adds up the characters from \<open>packet[i]\<close> to the end of the string.\<close>

fun checksum_loop :: "u8 list \<Rightarrow> nat \<Rightarrow> u8 \<Rightarrow> (u8 \<times> nat) option" where
  "checksum_loop [] i check = None"
| "checksum_loop (c # cs) i check = (if c \<noteq> 0 then checksum_loop cs (i + 1) (check + c) else Some (check, i))"

definition gdb_send_buffer :: "gdb_protocol_data \<Rightarrow> gdb_protocol_data or_exit option" where
  "gdb_send_buffer gdb = do {
     pkt \<leftarrow> aset (packet gdb) 0 (of_char CHR ''$'');
     (check, i) \<leftarrow> checksum_loop (drop 1 pkt) 1 0;
     pkt \<leftarrow> aset pkt i (of_char CHR ''#'');
     let i = i + 1;
     pkt \<leftarrow> put_bytes pkt i (hex_byte check @ [0]);
     let i = i + 2;
     pkt \<leftarrow> aset pkt i 0;
     gdb_transmit_packet (gdb\<lparr>packet := pkt, pkt_len := i\<rparr>)
   }"

definition gdb_send_data :: "gdb_protocol_data \<Rightarrow> string \<Rightarrow> gdb_protocol_data or_exit option" where
  "gdb_send_data gdb data = do {
     gdb \<leftarrow> put_text gdb 1 (bytes data);
     gdb_send_buffer gdb
   }"

definition gdb_send_stop_reason :: "gdb_protocol_data \<Rightarrow> gdb_protocol_data or_exit option" where
  "gdb_send_stop_reason gdb = (
     let action =
       (if target_exception gdb = UNDEFINED_INSTRUCTION then ''S04''
        else if target_exception gdb = PREFETCH_ABORT then ''S0A''
        else if target_exception gdb = DATA_ABORT then ''S0B''
        else if target_exception gdb = END_SIMULATION then ''X05''
        else ''S05'')
     in gdb_send_data gdb action)"

section \<open>Execution commands\<close>

definition single_step :: "stack_junk \<Rightarrow> gdb_protocol_data \<Rightarrow> gdb_protocol_data option" where
  "single_step u gdb = do {
     (r, a) \<leftarrow> arm_step u (arm gdb);
     Some (gdb\<lparr>target_exception := r, arm := log_call a (Trace_arm_state (reg a))\<rparr>)
   }"

definition single_step_with_signal :: "stack_junk \<Rightarrow> gdb_protocol_data \<Rightarrow> gdb_protocol_data option" where
  "single_step_with_signal u gdb = single_step u gdb"

text \<open>
  The loop of \<open>cont\<close> may run for ever: \<open>fuel\<close> bounds its turns, and a run that needs more gives \<open>None\<close>;
  \<open>k\<close> counts the turns done.
\<close>

fun cont_loop :: "gdb_junk \<Rightarrow> nat \<Rightarrow> nat \<Rightarrow> gdb_protocol_data \<Rightarrow> gdb_protocol_data option" where
  "cont_loop u k 0 gdb = None"
| "cont_loop u k (Suc fuel) gdb = do {
     gdb \<leftarrow> single_step (junk_steps u k) gdb;
     PC \<leftarrow> registers_read (reg (arm gdb)) 15 (registers_get_mode (reg (arm gdb)));
     found \<leftarrow> gdb_find_breakpoint gdb PC;
     let stop = (if found \<noteq> -1 then True else target_exception gdb \<noteq> 0);
     if stop then Some gdb else cont_loop u (k + 1) fuel gdb
   }"

type_synonym gdb_handler = "gdb_junk \<Rightarrow> nat \<Rightarrow> gdb_protocol_data \<Rightarrow> u8 list \<Rightarrow> gdb_protocol_data or_exit option"

definition cont :: gdb_handler where
  "cont u fuel gdb data = do { gdb \<leftarrow> cont_loop u 0 fuel gdb; gdb_send_stop_reason gdb }"

definition cont_with_signal :: gdb_handler where
  "cont_with_signal u fuel gdb data = cont u fuel gdb data"

definition step :: gdb_handler where
  "step u fuel gdb data = do { gdb \<leftarrow> single_step (junk_steps u 0) gdb; gdb_send_stop_reason gdb }"

definition step_with_signal :: gdb_handler where
  "step_with_signal u fuel gdb data =
     do { gdb \<leftarrow> single_step_with_signal (junk_steps u 0) gdb; gdb_send_stop_reason gdb }"

definition kill_request :: gdb_handler where
  "kill_request u fuel gdb data = Some (Continue (gdb\<lparr>shut_down := True\<rparr>))"

definition reason :: gdb_handler where
  "reason u fuel gdb data = gdb_send_stop_reason gdb"

definition query :: gdb_handler where
  "query u fuel gdb data = do {
     offsets \<leftarrow> strcmp_eq data ''Offsets'';
     if offsets then gdb_send_data gdb ''Text=0;Data=0;Bss=0''
     else do {
       supported \<leftarrow> strncmp_eq data ''Supported'' 9;
       if supported then gdb_send_data gdb ''PacketSize=400''
       else do {
         tstatus \<leftarrow> strcmp_eq data ''TStatus'';
         if tstatus then gdb_send_data gdb ''T0;tnotrun:0''
         else do {
           symbol \<leftarrow> strcmp_eq data ''Symbol::'';
           if symbol then gdb_send_data gdb '''' else gdb_send_data gdb ''''
         }
       }
     }
   }"

definition set_thread :: gdb_handler where
  "set_thread u fuel gdb data = do {
     type \<leftarrow> aget data 0;
     v \<leftarrow> atoi (drop 1 data);
     if (type = of_char CHR ''c'' \<or> type = of_char CHR ''g'') \<and> v < 1 \<and> v > -2
     then gdb_send_data gdb ''OK'' else gdb_send_data gdb ''E01''
   }"

section \<open>Registers\<close>

definition read_uint32 :: "u8 list \<Rightarrow> u32 \<Rightarrow> u32 option" where
  "read_uint32 data junk = sscanf_08x data junk"

definition write_uint32 :: "gdb_protocol_data \<Rightarrow> nat \<Rightarrow> u32 \<Rightarrow> gdb_protocol_data option" where
  "write_uint32 gdb pos v = put_text gdb pos (hex_word v)"

definition read_register :: "gdb_protocol_data \<Rightarrow> nat \<Rightarrow> u8 \<Rightarrow> gdb_protocol_data option" where
  "read_register gdb pos r = do {
     c_assert (r < 16);
     v \<leftarrow> registers_read (reg (arm gdb)) r (registers_get_mode (reg (arm gdb)));
     write_uint32 gdb pos v
   }"

fun put_registers :: "gdb_protocol_data \<Rightarrow> nat \<Rightarrow> nat list \<Rightarrow> gdb_protocol_data option" where
  "put_registers gdb pos [] = Some gdb"
| "put_registers gdb pos (i # is) = do {
     gdb \<leftarrow> read_register gdb pos (of_nat i);
     put_registers gdb (pos + 8) is
   }"

fun put_unknown :: "gdb_protocol_data \<Rightarrow> nat \<Rightarrow> nat \<Rightarrow> gdb_protocol_data option" where
  "put_unknown gdb pos 0 = Some gdb"
| "put_unknown gdb pos (Suc n) = do {
     gdb \<leftarrow> put_text gdb pos (bytes ''xxxxxxxx'');
     put_unknown gdb (pos + 8) n
   }"

definition read_general_registers :: gdb_handler where
  "read_general_registers u fuel gdb data = do {
     gdb \<leftarrow> put_registers gdb 1 [0..<16];
     gdb \<leftarrow> put_unknown gdb 129 (8 * 3);
     gdb \<leftarrow> put_unknown gdb 321 1;
     v \<leftarrow> registers_read_cpsr (reg (arm gdb));
     gdb \<leftarrow> write_uint32 gdb 329 v;
     gdb_send_buffer gdb
   }"

definition read_single_register :: gdb_handler where
  "read_single_register u fuel gdb data = do {
     r \<leftarrow> atoi data;
     gdb \<leftarrow> read_register gdb 1 (word_of_int r);
     gdb_send_buffer gdb
   }"

definition set_registers :: "gdb_protocol_data \<Rightarrow> registers \<Rightarrow> gdb_protocol_data" where
  "set_registers gdb r = gdb\<lparr>arm := (arm gdb)\<lparr>reg := r\<rparr>\<rparr>"

definition write_register :: "gdb_junk \<Rightarrow> gdb_protocol_data \<Rightarrow> u32 \<Rightarrow> u8 list \<Rightarrow> gdb_protocol_data option" where
  "write_register u gdb r data = do {
     v \<leftarrow> read_uint32 data (junk_a u);
     c_assert (r < 16);
     regs \<leftarrow> registers_write (reg (arm gdb)) (ucast r) (registers_get_mode (reg (arm gdb))) v;
     Some (set_registers gdb regs)
   }"

fun write_registers :: "gdb_junk \<Rightarrow> gdb_protocol_data \<Rightarrow> nat list \<Rightarrow> u8 list \<Rightarrow> gdb_protocol_data option" where
  "write_registers u gdb [] position = Some gdb"
| "write_registers u gdb (i # is) position = do {
     gdb \<leftarrow> write_register u gdb (of_nat i) position;
     write_registers u gdb is (drop 8 position)
   }"

definition write_general_registers :: gdb_handler where
  "write_general_registers u fuel gdb data = do {
     gdb \<leftarrow> write_registers u gdb [0..<16] data;
     v \<leftarrow> read_uint32 (drop (16 * 8 + 8 * 3 * 8 + 8) data) (junk_a u);
     regs \<leftarrow> registers_write_cpsr (reg (arm gdb)) v;
     gdb_send_data (set_registers gdb regs) ''OK''
   }"

definition write_single_register :: gdb_handler where
  "write_single_register u fuel gdb data = do {
     r \<leftarrow> sscanf_x data (junk_a u);
     data \<leftarrow> after_index data (of_char CHR ''='');
     gdb \<leftarrow> write_register u gdb r data;
     gdb_send_data gdb ''OK''
   }"

section \<open>Memory\<close>

definition EFAULT :: nat where "EFAULT = 14"

fun read_memory_loop ::
  "gdb_protocol_data \<Rightarrow> u32 \<Rightarrow> nat \<Rightarrow> u8 \<Rightarrow> nat \<Rightarrow> gdb_protocol_data option" where
  "read_memory_loop gdb address pos v 0 = Some gdb"
| "read_memory_loop gdb address pos v (Suc left) = do {
     (r, v) \<leftarrow> memory_read_byte (mem (arm gdb)) address v;
     if r = -1 then Some gdb
     else do {
       gdb \<leftarrow> put_text gdb pos (hex_byte v);
       read_memory_loop gdb (address + 1) (pos + 2) v left
     }
   }"

definition read_memory :: gdb_handler where
  "read_memory u fuel gdb data = do {
     (address, sz) \<leftarrow> sscanf_x_x data (junk_a u) (junk_b u);
     gdb \<leftarrow> (if ucast address < memory_get_size (mem (arm gdb)) then do {
         gdb \<leftarrow> put_text gdb 1 [];
         read_memory_loop gdb address 1 (junk_value u) (unat sz)
       } else put_text gdb 1 (error_text EFAULT));
     gdb_send_buffer gdb
   }"

fun write_memory_loop ::
  "gdb_protocol_data \<Rightarrow> u32 \<Rightarrow> nat \<Rightarrow> u8 list \<Rightarrow> (bool \<times> gdb_protocol_data) option" where
  "write_memory_loop gdb address 0 content = Some (True, gdb)"
| "write_memory_loop gdb address (Suc left) content = do {
     c \<leftarrow> aget content 0;
     (v, content) \<leftarrow> (if c = 0x7d then do { c \<leftarrow> aget content 1; Some (c XOR 0x20, drop 2 content) }
       else Some (c, drop 1 content));
     (r, m) \<leftarrow> memory_write_byte (mem (arm gdb)) address v;
     let gdb = gdb\<lparr>arm := (arm gdb)\<lparr>mem := m\<rparr>\<rparr>;
     if r = 0 then write_memory_loop gdb (address + 1) left content else Some (False, gdb)
   }"

definition write_memory_binary :: gdb_handler where
  "write_memory_binary u fuel gdb data = do {
     (address, sz) \<leftarrow> sscanf_x_x data (junk_a u) (junk_b u);
     content \<leftarrow> after_index data (of_char CHR '':'');
     (write_ok, gdb) \<leftarrow> (if ucast address < memory_get_size (mem (arm gdb))
       then write_memory_loop gdb address (unat sz) content else Some (False, gdb));
     if write_ok then gdb_send_data gdb ''OK'' else gdb_send_data gdb ''E02''
   }"

section \<open>Breakpoints\<close>

definition set_breakpoint :: gdb_handler where
  "set_breakpoint u fuel gdb data = do {
     (type, address, len) \<leftarrow> sscanf_hhx_x_x data (junk_type u) (junk_b u) (junk_c u);
     if type \<noteq> 0 then gdb_send_data gdb ''E03''
     else do {
       (r, gdb) \<leftarrow> gdb_add_breakpoint gdb address;
       if r \<noteq> 0 then gdb_send_data gdb ''OK'' else gdb_send_data gdb ''E04''
     }
   }"

definition remove_breakpoint :: gdb_handler where
  "remove_breakpoint u fuel gdb data = do {
     (type, address, len) \<leftarrow> sscanf_hhx_x_x data (junk_type u) (junk_b u) (junk_c u);
     if type \<noteq> 0 then gdb_send_data gdb ''E03''
     else do {
       (r, gdb) \<leftarrow> gdb_remove_breakpoint gdb address;
       if r \<noteq> 0 then gdb_send_data gdb ''OK'' else gdb_send_data gdb ''E05''
     }
   }"

section \<open>Packets\<close>

definition slot :: "char \<Rightarrow> nat" where
  "slot c = unat (of_char c :: u8)"

definition gdb_init :: "gdb_handler option list" where
  "gdb_init = (replicate 256 None)
    [slot CHR ''c'' := Some cont, slot CHR ''C'' := Some cont_with_signal,
     slot CHR ''k'' := Some kill_request, slot CHR ''q'' := Some query,
     slot CHR ''g'' := Some read_general_registers, slot CHR ''m'' := Some read_memory,
     slot CHR ''p'' := Some read_single_register, slot CHR ''?'' := Some reason,
     slot CHR ''H'' := Some set_thread, slot CHR ''s'' := Some step,
     slot CHR ''S'' := Some step_with_signal, slot CHR ''G'' := Some write_general_registers,
     slot CHR ''X'' := Some write_memory_binary, slot CHR ''P'' := Some write_single_register,
     slot CHR ''z'' := Some remove_breakpoint, slot CHR ''Z'' := Some set_breakpoint]"

text \<open>
  The packet is the memory from the token of the scanner on: the token, its terminating zero byte, and
  what the buffer of the scanner holds behind it; \<open>n\<close> is the length of the token. The sum runs over the
  indices 1 to \<open>i - 1\<close>.
\<close>

definition packet_sum :: "u8 list \<Rightarrow> nat \<Rightarrow> u8" where
  "packet_sum pkt i = sum_list (map (\<lambda>j. pkt ! j) [1..<i])"

definition gdb_packet_analysis ::
  "gdb_junk \<Rightarrow> nat \<Rightarrow> gdb_protocol_data \<Rightarrow> u8 list \<Rightarrow> nat \<Rightarrow> gdb_protocol_data or_exit option" where
  "gdb_packet_analysis u fuel gdb pkt n = do {
     let i = max 1 (n - 3);
     c_assert (i \<le> length pkt);
     let check = packet_sum pkt i;
     given \<leftarrow> sscanf_x (drop (i + 1) pkt) (junk_a u);
     if ucast check = given then
       and_then (Some (gdb_send_ack gdb)) (\<lambda>gdb. do {
         pkt \<leftarrow> aset pkt i 0;
         index \<leftarrow> aget pkt 1;
         case gdb_init ! unat index of
           Some handler \<Rightarrow> handler u fuel gdb (drop 2 pkt)
         | None \<Rightarrow> gdb_send_data gdb ''''
       })
     else Some (gdb_require_retransmission gdb)
   }"

text \<open>What the analysis leaves of the packet in the memory of the scanner.\<close>

definition analysed_packet :: "gdb_junk \<Rightarrow> u8 list \<Rightarrow> nat \<Rightarrow> u8 list option" where
  "analysed_packet u pkt n = do {
     let i = max 1 (n - 3);
     c_assert (i \<le> length pkt);
     given \<leftarrow> sscanf_x (drop (i + 1) pkt) (junk_a u);
     if ucast (packet_sum pkt i) = given then aset pkt i 0 else Some pkt
   }"

end
