(* ===== verification/Gdb_Protocol_Facts.thy ===== *)
theory Gdb_Protocol_Facts
  imports Gdb_Protocol
begin

text \<open>
  What the debugger protocol guarantees: the frames it sends and accepts, the commands that run the
  processor, and those that read and write memory and breakpoints.
\<close>

section \<open>The connection\<close>

lemma rio_send_Continue: "rio_send gdb bs = Continue g \<Longrightarrow> g = gdb\<lparr>sent := sent gdb @ bs\<rparr>"
  by (auto simp: rio_send_def split: if_splits)

lemma and_then_rio_send:
  "and_then (Some (rio_send gdb bs)) f = (case rio_send gdb bs of Exit code msg \<Rightarrow> Some (Exit code msg) | Continue g \<Rightarrow> f g)"
  by (simp add: and_then_def)

text \<open>A connection on which no write fails.\<close>

definition open_conn :: "gdb_protocol_data \<Rightarrow> bool" where
  "open_conn gdb \<longleftrightarrow> \<not> shut_down gdb \<and> (\<forall>k. \<not> conn gdb k)"

lemma rio_send_open [simp]: "open_conn gdb \<Longrightarrow> rio_send gdb bs = Continue (gdb\<lparr>sent := sent gdb @ bs\<rparr>)"
  by (simp add: rio_send_def open_conn_def)

lemma open_conn_update [simp]:
  "open_conn (gdb\<lparr>sent := b\<rparr>) = open_conn gdb" "open_conn (gdb\<lparr>packet := b\<rparr>) = open_conn gdb"
  "open_conn (gdb\<lparr>pkt_len := n\<rparr>) = open_conn gdb" "open_conn (gdb\<lparr>arm := a\<rparr>) = open_conn gdb"
  by (simp_all add: open_conn_def)

section \<open>Frames\<close>

text \<open>A payload with its start character and its checksum.\<close>

definition frame :: "u8 list \<Rightarrow> u8 list" where
  "frame t = of_char CHR ''$'' # t @ of_char CHR ''#'' # hex_byte (sum_list t)"

lemma hex_byte_two: "\<exists>a b. hex_byte c = [a, b]"
  by (simp add: hex_byte_def numeral_2_eq_2)

lemma hex_byte_clean: "x \<in> set (hex_byte c) \<Longrightarrow> x \<noteq> 0 \<and> x \<noteq> 35 \<and> x \<noteq> 36"
  unfolding hex_byte_def by (rule hex_text_clean)

lemma put_bytes_at:
  "pos = length xs \<Longrightarrow> length bs = length ys \<Longrightarrow> put_bytes (xs @ ys @ zs) pos bs = Some (xs @ bs @ zs)"
  by (simp add: put_bytes_def)

lemma checksum_loop_text:
  "0 \<notin> set t \<Longrightarrow> checksum_loop (t @ 0 # rest) i c = Some (c + sum_list t, i + length t)"
  by (induction t arbitrary: i c) (simp_all add: add.assoc)

text \<open>Sending the text that stands in the packet buffer.\<close>

lemma send_buffer_eval:
  assumes p: "packet gdb = x # t @ 0 # rest" and t: "0 \<notin> set t" and r: "3 \<le> length rest"
  shows "\<exists>pkt. gdb_send_buffer gdb =
    Some (rio_send (gdb\<lparr>packet := pkt, pkt_len := length t + 4\<rparr>) (frame t)) \<and>
    length pkt = length (packet gdb)"
proof -
  obtain a b where h: "hex_byte (sum_list t) = [a, b]" using hex_byte_two by blast
  obtain r1 r2 r3 rs where rest: "rest = r1 # r2 # r3 # rs"
    using r by (metis One_nat_def Suc_le_length_iff numeral_3_eq_3)
  let ?d = "of_char CHR ''$'' :: u8" and ?s = "of_char CHR ''#'' :: u8"
  have a1: "aset (packet gdb) 0 ?d = Some (?d # t @ 0 # rest)" by (simp add: p)
  have a2: "aset (?d # t @ 0 # rest) (1 + length t) ?s = Some ((?d # t @ [?s]) @ [r1, r2, r3] @ rs)"
    by (simp add: rest list_update_append)
  have a3: "put_bytes ((?d # t @ [?s]) @ [r1, r2, r3] @ rs) (1 + length t + 1) ([a, b] @ [0])
      = Some ((?d # t @ [?s]) @ ([a, b] @ [0]) @ rs)"
    by (rule put_bytes_at) simp_all
  have a4: "aset ((?d # t @ [?s]) @ ([a, b] @ [0]) @ rs) (1 + length t + 1 + 2) 0
      = Some ((?d # t @ [?s]) @ ([a, b] @ [0]) @ rs)"
    by (simp add: list_update_append)
  have c: "checksum_loop (drop 1 (?d # t @ 0 # rest)) 1 0 = Some (sum_list t, 1 + length t)"
    using checksum_loop_text [OF t, of rest 1 0] by simp
  let ?pkt = "(?d # t @ [?s]) @ ([a, b] @ [0]) @ rs"
  have "?pkt = frame t @ 0 # rs" "length (frame t) = length t + 4" by (simp_all add: frame_def h)
  then have f: "take (length t + 4) ?pkt = frame t" by (metis append_eq_conv_conj)
  have n: "1 + length t + 1 + 2 = length t + 4" by simp
  have "gdb_send_buffer gdb = gdb_transmit_packet (gdb\<lparr>packet := ?pkt, pkt_len := 1 + length t + 1 + 2\<rparr>)"
    by (simp only: gdb_send_buffer_def Let_def Option.bind.bind_lunit a1 c h a2 a3 a4 prod.case)
  also have "\<dots> = Some (rio_send (gdb\<lparr>packet := ?pkt, pkt_len := length t + 4\<rparr>) (frame t))"
    using f unfolding n by (simp add: gdb_transmit_packet_def del: append.simps)
  finally show ?thesis by (intro exI [of _ ?pkt]) (simp add: p rest)
qed

text \<open>Sending a constant text.\<close>

lemma send_data_eval:
  assumes l: "length (packet gdb) = MAX_PACKET_SIZE" and t: "0 \<notin> set (bytes s)" "length s < 4000"
  shows "\<exists>pkt. gdb_send_data gdb s =
    Some (rio_send (gdb\<lparr>packet := pkt, pkt_len := length s + 4\<rparr>) (frame (bytes s))) \<and>
    length pkt = MAX_PACKET_SIZE"
proof -
  have b: "length (bytes s) = length s" by (simp add: bytes_def)
  let ?pk = "packet gdb"
  obtain x xs where pk: "?pk = x # xs" using l by (cases ?pk) (auto simp: MAX_PACKET_SIZE_def)
  let ?rest = "drop (length s + 2) ?pk"
  have put: "put_text gdb 1 (bytes s) = Some (gdb\<lparr>packet := x # bytes s @ 0 # ?rest\<rparr>)"
    using l t(2) b by (simp add: put_text_def put_bytes_def MAX_PACKET_SIZE_def pk)
  have "3 \<le> length ?rest" using l t(2) by (simp add: MAX_PACKET_SIZE_def)
  from send_buffer_eval [of "gdb\<lparr>packet := x # bytes s @ 0 # ?rest\<rparr>", OF _ t(1) this] obtain pkt where
    "gdb_send_buffer (gdb\<lparr>packet := x # bytes s @ 0 # ?rest\<rparr>) =
      Some (rio_send (gdb\<lparr>packet := pkt, pkt_len := length s + 4\<rparr>) (frame (bytes s)))"
    "length pkt = length (x # bytes s @ 0 # ?rest)" by (auto simp: b)
  then show ?thesis using put l t(2) by (intro exI [of _ pkt]) (simp add: gdb_send_data_def MAX_PACKET_SIZE_def b)
qed

lemma sum_nth: "sum_list (map (\<lambda>j. (x # t @ rest) ! j) [1..<Suc (length t)]) = sum_list (t :: u8 list)"
proof -
  have "map (\<lambda>j. (x # t @ rest) ! j) [1..<Suc (length t)] = t"
    by (rule nth_equalityI) (auto simp: nth_append simp del: upt_Suc)
  then show ?thesis by simp
qed

text \<open>The checksum of a frame decides what happens to it.\<close>

lemma analysis_of_packet:
  assumes "t \<noteq> []"
  shows "gdb_packet_analysis u fuel gdb (of_char CHR ''$'' # t @ of_char CHR ''#'' # hex_byte c @ 0 # rest) (length t + 4) =
    (if c = sum_list t then
       and_then (Some (rio_send gdb (bytes ''+'')))
         (\<lambda>g. case gdb_init ! unat (hd t) of
            Some handler \<Rightarrow> handler u fuel g (tl t @ 0 # hex_byte c @ 0 # rest)
          | None \<Rightarrow> gdb_send_data g '''')
     else Some (rio_send gdb (bytes ''-'')))"
proof -
  define d where "d = (of_char CHR ''$'' :: u8)"
  define s where "s = (of_char CHR ''#'' :: u8)"
  let ?pkt = "d # t @ s # hex_byte c @ 0 # rest"
  have i: "max 1 (length t + 4 - 3) = Suc (length t)" by simp
  have len: "c_assert (Suc (length t) \<le> length ?pkt) = Some ()" by simp
  have sum: "packet_sum ?pkt (Suc (length t)) = sum_list t"
    unfolding packet_sum_def by (rule sum_nth)
  have given: "sscanf_x (drop (Suc (length t) + 1) ?pkt) (junk_a u) = Some (ucast c)"
    using sscanf_hex_byte [of "0 # rest" c] by simp
  have upd: "aset ?pkt (Suc (length t)) 0 = Some (d # t @ 0 # hex_byte c @ 0 # rest)"
    by (simp add: list_update_append)
  have idx: "aget (d # t @ 0 # hex_byte c @ 0 # rest) 1 = Some (hd t)"
    "drop 2 (d # t @ 0 # hex_byte c @ 0 # rest) = tl t @ 0 # hex_byte c @ 0 # rest"
    using assms by (cases t; simp)+
  have eq: "(ucast (sum_list t) :: u32) = ucast c \<longleftrightarrow> c = sum_list t"
    by (auto simp: word_unat_eq_iff)
  show ?thesis
    unfolding d_def [symmetric] s_def [symmetric] gdb_packet_analysis_def i Let_def sum
    by (simp only: len given upd idx eq Option.bind.bind_lunit gdb_send_ack_def gdb_require_retransmission_def)
qed

lemma analysis_of_frame:
  assumes "t \<noteq> []"
  shows "gdb_packet_analysis u fuel gdb (frame t @ 0 # rest) (length t + 4) =
    and_then (Some (rio_send gdb (bytes ''+'')))
      (\<lambda>g. case gdb_init ! unat (hd t) of
         Some handler \<Rightarrow> handler u fuel g (tl t @ 0 # hex_byte (sum_list t) @ 0 # rest)
       | None \<Rightarrow> gdb_send_data g '''')"
  using analysis_of_packet [OF assms, of u fuel gdb "sum_list t" rest] by (simp add: frame_def)

text \<open>
  (C20) A frame that the scanner passes on, with payload \<open>t\<close> and the two checksum digits of \<open>c\<close>, is
  acknowledged and handed to the handler of its first character exactly when \<open>c\<close> is the sum of the
  payload modulo 256; otherwise the only effect is the request for retransmission. So a frame built
  the way \<open>gdb_send_buffer\<close> builds them is always accepted, and one with a changed sum never. Zero
  bytes in the payload are no exception, and \<open>rest\<close>, what follows in the memory, does not matter for this. The
  acknowledgement itself may fail, which ends the program before the handler.
\<close>

theorem packet_checksum_decides:
  assumes "t \<noteq> []"
  shows "gdb_packet_analysis u fuel gdb (of_char CHR ''$'' # t @ of_char CHR ''#'' # hex_byte c @ 0 # rest) (length t + 4) =
    (if c = sum_list t then
       and_then (Some (rio_send gdb (bytes ''+'')))
         (\<lambda>g. case gdb_init ! unat (hd t) of
            Some handler \<Rightarrow> handler u fuel g (tl t @ 0 # hex_byte c @ 0 # rest)
          | None \<Rightarrow> gdb_send_data g '''')
     else Some (rio_send gdb (bytes ''-'')))"
  by (rule analysis_of_packet [OF assms])

section \<open>Running the processor\<close>

lemma single_step_keeps:
  assumes "core_wf (arm gdb)" "single_step u gdb = Some g"
  shows "core_wf (arm g) \<and> breakpoints g = breakpoints gdb \<and> breakpoints_number g = breakpoints_number gdb \<and>
    target_exception g \<in> {0, 7, 255} \<and> sent g = sent gdb \<and> length (packet g) = length (packet gdb) \<and>
    conn g = conn gdb \<and> shut_down g = shut_down gdb"
proof -
  obtain r a where ra: "arm_step u (arm gdb) = Some (r, a)"
    "g = gdb\<lparr>target_exception := r, arm := log_call a (Trace_arm_state (reg a))\<rparr>"
    using assms(2) by (auto simp: single_step_def bind_eq_Some_conv)
  from step_keeps [OF assms(1) ra(1)] show ?thesis by (auto simp: ra(2) kept_def)
qed

lemma bp_same:
  assumes "breakpoints g = breakpoints gdb" "breakpoints_number g = breakpoints_number gdb"
  shows "bp_list g = bp_list gdb" "bp_wf g = bp_wf gdb" "bp_set g = bp_set gdb"
    "gdb_find_breakpoint g a = gdb_find_breakpoint gdb a"
  using assms by (simp_all add: bp_list_def bp_wf_def bp_set_def gdb_find_breakpoint_def)

text \<open>\<open>k\<close> steps, whatever they meet, and the test that ends \<open>cont\<close>.\<close>

fun run_steps :: "gdb_junk \<Rightarrow> nat \<Rightarrow> gdb_protocol_data \<Rightarrow> gdb_protocol_data option" where
  "run_steps u 0 gdb = Some gdb"
| "run_steps u (Suc k) gdb = do { g \<leftarrow> run_steps u k gdb; single_step (junk_steps u k) g }"

definition halted :: "gdb_protocol_data \<Rightarrow> bool" where
  "halted gdb \<longleftrightarrow> gpr (arm gdb) 15 \<in> bp_set gdb \<or> target_exception gdb \<noteq> 0"

lemma run_steps_keep:
  assumes "core_wf (arm gdb)" "run_steps u k gdb = Some g"
  shows "core_wf (arm g) \<and> breakpoints g = breakpoints gdb \<and> breakpoints_number g = breakpoints_number gdb \<and>
    sent g = sent gdb \<and> length (packet g) = length (packet gdb) \<and> conn g = conn gdb \<and> shut_down g = shut_down gdb"
  using assms(2)
proof (induction k arbitrary: g)
  case (Suc k)
  then obtain g1 where g1: "run_steps u k gdb = Some g1" "single_step (junk_steps u k) g1 = Some g"
    by (auto simp: bind_eq_Some_conv)
  then have "core_wf (arm g1)" using Suc.IH by blast
  with single_step_keeps [OF this g1(2)] Suc.IH [OF g1(1)] show ?case by simp
qed (use assms(1) in simp)

lemma run_steps_prefix: "run_steps u m gdb = Some g \<Longrightarrow> n \<le> m \<Longrightarrow> run_steps u n gdb \<noteq> None"
proof (induction m arbitrary: g)
  case (Suc m)
  then obtain g1 where "run_steps u m gdb = Some g1" by (auto simp: bind_eq_Some_conv)
  with Suc show ?case by (cases "n = Suc m") auto
qed simp

lemma cont_loop_step:
  assumes "core_wf (arm g)" "bp_wf g" "single_step (junk_steps u k) g = Some g'"
  shows "cont_loop u k (Suc fuel) g = (if halted g' then Some g' else cont_loop u (k + 1) fuel g')"
proof -
  have k: "core_wf (arm g')" "breakpoints g' = breakpoints g" "breakpoints_number g' = breakpoints_number g"
    using single_step_keeps [OF assms(1,3)] by simp_all
  have wf: "bp_wf g'" using bp_same [OF k(2,3)] assms(2) by simp
  have pc: "registers_read (reg (arm g')) 15 m = Some (gpr (arm g') 15)" for m
    using k(1) by (simp add: registers_read_wf gpr_def)
  obtain r where r: "gdb_find_breakpoint g' (gpr (arm g') 15) = Some r" "r \<noteq> -1 \<longleftrightarrow> gpr (arm g') 15 \<in> bp_set g'"
    using bp.find_elems [OF wf] by blast
  show ?thesis using assms(3) r(2) by (simp add: pc r(1) halted_def Let_def)
qed

lemma cont_loop_stops:
  assumes "core_wf (arm gdb)" "bp_wf gdb" "run_steps u (Suc k) gdb = Some g" "halted g"
    and "\<forall>j < k. \<forall>g'. run_steps u (Suc j) gdb = Some g' \<longrightarrow> \<not> halted g'"
    and "i \<le> k" "run_steps u i gdb = Some gi" "k - i < fuel"
  shows "cont_loop u i fuel gi = Some g"
  using assms(6-8)
proof (induction "k - i" arbitrary: i gi fuel)
  case 0
  then have i: "i = k" by simp
  obtain f where fuel: "fuel = Suc f" using 0 by (cases fuel) auto
  have keep: "core_wf (arm gi)" "bp_wf gi"
    using run_steps_keep [OF assms(1) "0.prems"(2)] bp_same [of gi gdb] assms(2) by auto
  have "single_step (junk_steps u i) gi = Some g" using assms(3) "0.prems"(2) i by simp
  from cont_loop_step [OF keep this, of f] assms(4) fuel show ?case by simp
next
  case (Suc d)
  obtain f where fuel: "fuel = Suc f" using Suc.prems by (cases fuel) auto
  have keep: "core_wf (arm gi)" "bp_wf gi"
    using run_steps_keep [OF assms(1) Suc.prems(2)] bp_same [of gi gdb] assms(2) by auto
  obtain g' where g': "single_step (junk_steps u i) gi = Some g'" "run_steps u (Suc i) gdb = Some g'"
    using run_steps_prefix [OF assms(3), of "Suc i"] Suc.prems(1,2) by auto
  have "i < k" using Suc.hyps(2) by simp
  then have "\<not> halted g'" using assms(5) g'(2) by blast
  then have "cont_loop u i fuel gi = cont_loop u (i + 1) f g'"
    using cont_loop_step [OF keep g'(1), of f] fuel by simp
  also have "\<dots> = Some g" using Suc.hyps(1) [of "i + 1" g' f] Suc.hyps(2) Suc.prems g'(2) fuel by simp
  finally show ?case .
qed

lemma bytes_codes: "bytes ''S04'' = [83, 48, 52]" "bytes ''S05'' = [83, 48, 53]" "bytes ''OK'' = [79, 75]"
  "bytes ''E02'' = [69, 48, 50]"
  by (simp_all add: bytes_def)

lemma stop_reason_eval:
  assumes "length (packet gdb) = MAX_PACKET_SIZE" "target_exception gdb \<in> {0, 7, 255}"
  shows "\<exists>gdb'. gdb_send_stop_reason gdb =
      Some (rio_send gdb' (frame (bytes (if target_exception gdb = 7 then ''S04'' else ''S05'')))) \<and>
    arm gdb' = arm gdb \<and> bp_list gdb' = bp_list gdb \<and> sent gdb' = sent gdb \<and> conn gdb' = conn gdb \<and>
    shut_down gdb' = shut_down gdb"
proof -
  let ?s = "if target_exception gdb = 7 then ''S04'' else ''S05''"
  have "gdb_send_stop_reason gdb = gdb_send_data gdb ?s"
    using assms(2) by (auto simp: gdb_send_stop_reason_def exception_defs)
  moreover have "0 \<notin> set (bytes ?s)" "length ?s < 4000" by (simp_all add: bytes_codes)
  ultimately show ?thesis
    using send_data_eval [OF assms(1), of ?s] by (auto simp: bp_list_def)
qed

text \<open>
  (C11) The command \<open>c\<close> executes instructions until, after one of them, the PC is at a breakpoint or the
  step has returned an exception: if the (k+1)-th step is the first after which this holds, every
  fuel above k leads to that state, and the debugger is told S04 for an undefined instruction and S05
  otherwise (by a write whose failure ends the program). The PC is not compared before the first step, so a breakpoint at the current
  instruction does not block the command.
\<close>

theorem cont_stops_at_first_halt:
  assumes "core_wf (arm gdb)" "bp_wf gdb" "length (packet gdb) = MAX_PACKET_SIZE"
    "run_steps u (Suc k) gdb = Some g" "halted g"
    "\<forall>j < k. \<forall>g'. run_steps u (Suc j) gdb = Some g' \<longrightarrow> \<not> halted g'" "k < fuel"
  shows "\<exists>gdb'. cont u fuel gdb data =
      Some (rio_send gdb' (frame (bytes (if target_exception g = 7 then ''S04'' else ''S05'')))) \<and>
    arm gdb' = arm g \<and> bp_list gdb' = bp_list gdb \<and> sent gdb' = sent gdb \<and> conn gdb' = conn gdb \<and>
    shut_down gdb' = shut_down gdb"
proof -
  have c: "cont_loop u 0 fuel gdb = Some g"
    using cont_loop_stops [OF assms(1,2,4,5,6), of 0 gdb fuel] assms(7) by simp
  have keep: "breakpoints g = breakpoints gdb" "breakpoints_number g = breakpoints_number gdb"
    "sent g = sent gdb" "length (packet g) = length (packet gdb)" "conn g = conn gdb" "shut_down g = shut_down gdb"
    using run_steps_keep [OF assms(1,4)] by simp_all
  obtain g1 where "run_steps u k gdb = Some g1" "single_step (junk_steps u k) g1 = Some g"
    using assms(4) by (auto simp: bind_eq_Some_conv)
  then have "target_exception g \<in> {0, 7, 255}"
    using single_step_keeps [of g1] run_steps_keep [OF assms(1)] by blast
  from stop_reason_eval [OF _ this] keep assms(3) bp_same(1) [OF keep(1,2)] c
  show ?thesis by (auto simp: cont_def)
qed

text \<open>A debugger on the processor that meets an SWI at once.\<close>

definition sample_gdb :: "u8 \<Rightarrow> u8 \<Rightarrow> gdb_protocol_data" where
  "sample_gdb b3 b0 = \<lparr>breakpoints = replicate 1024 0, breakpoints_number = 0, arm = program_core b3 b0,
     target_exception = 0, packet = replicate 4096 0, pkt_len = 0, sent = [], shut_down = False, conn = (\<lambda>k. False)\<rparr>"

lemma sample_gdb_facts [simp]:
  "arm (sample_gdb b3 b0) = program_core b3 b0" "bp_wf (sample_gdb b3 b0)"
  "length (packet (sample_gdb b3 b0)) = MAX_PACKET_SIZE" "sent (sample_gdb b3 b0) = []" "open_conn (sample_gdb b3 b0)"
  by (simp_all add: sample_gdb_def open_conn_def bp_wf_def bp_list_def MAX_PACKET_SIZE_def MAX_BREAKPOINTS_NUMBER_def)

theorem cont_stops_at_first_halt_witness:
  "\<forall>(u :: gdb_junk) data. \<exists>gdb'. cont u 1 (sample_gdb 0xEF 1) data = Some (Continue gdb') \<and> sent gdb' = frame (bytes ''S04'')"
proof (intro allI)
  fix u :: gdb_junk and data
  have "word_of 0xEF 0 0 1 = 0xEF000001" by code_simp
  moreover have "cond_value (cond_field 0xEF000001) 0 = 1"
    by (simp add: cond_field_def cond_value_def cond_spec_def cond_defs)
  moreover have "dispatch v q 0xEF000001 = Some (7, q)" for v q
    by (simp add: dispatch_def type_defs exception_defs)
  ultimately have "\<exists>q. arm_step v (program_core 0xEF 1) = Some (7, q)" for v
    by (simp add: arm_step_def execute_eval Let_def) (simp add: arm_exception_other exception_defs)
  then obtain q where "arm_step (junk_steps u 0) (program_core 0xEF 1) = Some (7, q)" by blast
  then obtain g where "run_steps u (Suc 0) (sample_gdb 0xEF 1) = Some g" "target_exception g = 7"
    by (auto simp: single_step_def)
  then show "\<exists>gdb'. cont u 1 (sample_gdb 0xEF 1) data = Some (Continue gdb') \<and> sent gdb' = frame (bytes ''S04'')"
    using cont_stops_at_first_halt [of "sample_gdb 0xEF 1" u 0 g 1 data] sample_gdb_facts(5) [of "0xEF" 1]
    by (auto simp: halted_def open_conn_def rio_send_def)
qed

theorem packet_checksum_decides_witness:
  "\<forall>u rest. gdb_packet_analysis u 0 (sample_gdb 0xEF 1) (of_char CHR ''$'' # [0x6B] @ of_char CHR ''#'' # hex_byte 0x6B @ 0 # rest) 5 =
     Some (Continue ((sample_gdb 0xEF 1)\<lparr>sent := bytes ''+'', shut_down := True\<rparr>)) \<and>
   gdb_packet_analysis u 0 (sample_gdb 0xEF 1) (of_char CHR ''$'' # [0x6B] @ of_char CHR ''#'' # hex_byte 0x6C @ 0 # rest) 5 =
     Some (Continue ((sample_gdb 0xEF 1)\<lparr>sent := bytes ''-''\<rparr>))"
proof -
  have "gdb_init ! 107 = Some kill_request" by (simp add: gdb_init_def slot_def)
  then show ?thesis
    using packet_checksum_decides [of "[0x6B]" _ 0 "sample_gdb 0xEF 1" "0x6B"]
      packet_checksum_decides [of "[0x6B]" _ 0 "sample_gdb 0xEF 1" "0x6C"]
    by (simp add: kill_request_def)
qed

end
