(* ===== verification/Gdb_Scanner.thy ===== *)
theory Gdb_Scanner
  imports Gdb_Protocol_Facts
begin

text \<open>
  \<^verbatim>\<open>scanner.l\<close> and the scanner that flex generates from it, \<^verbatim>\<open>scanner.c\<close>: the actions
  of the five rules, the tables of the automaton, the matching loop over the input buffer, and the
  refill of the buffer from the connection. Pointers into the buffer are indices. The system call
  \<open>read\<close> and the content of allocated memory are parameters. A token is handed to its action as the
  memory from its start to the end of the buffer: a handler that reads on behind the terminating zero
  of the token finds what the buffer holds there.
\<close>

section \<open>Actions\<close>

definition MAX_ERROR_SIZE :: nat where "MAX_ERROR_SIZE = 1024"

text \<open>
  \<open>junk_of\<close> gives the uninitialised locals of the handler of the k-th packet and \<open>fuel_of\<close> the bound on
  its loop; \<open>packets\<close> counts them. \<open>echoed\<close> is what the default rule writes to the standard output.
\<close>

record parser_data =
  gdb :: gdb_protocol_data
  buffer :: "u8 list"
  len :: nat
  packets :: nat
  echoed :: "u8 list"

definition handle_error :: "parser_data \<Rightarrow> parser_data or_exit option" where
  "handle_error d = (if len d \<noteq> 0 then do {
     b \<leftarrow> aset (buffer d) (len d) 0;
     and_then (Some (gdb_require_retransmission (gdb d)))
       (\<lambda>g. Some (Continue (d\<lparr>buffer := b, gdb := g, len := 0\<rparr>)))
   } else Some (Continue d))"

definition add_character_to_error :: "parser_data \<Rightarrow> u8 \<Rightarrow> parser_data or_exit option" where
  "add_character_to_error d c =
     and_then (if MAX_ERROR_SIZE - 2 < len d then handle_error d else Some (Continue d)) (\<lambda>d. do {
       b \<leftarrow> aset (buffer d) (len d) c;
       Some (Continue (d\<lparr>buffer := b, len := len d + 1\<rparr>))
     })"

text \<open>
  The action of a rule on the token \<open>tx\<close>, at \<open>yytext\<close> in the buffer, behind which stand the terminating zero and the
  rest of the buffer, \<open>tail\<close>.
\<close>

definition yy_action ::
  "(nat \<Rightarrow> gdb_junk) \<Rightarrow> nat \<Rightarrow> nat \<Rightarrow> u8 list \<Rightarrow> u8 list \<Rightarrow> parser_data \<Rightarrow> parser_data or_exit option" where
  "yy_action junk_of fuel rule tx tail d = (
     if rule = 1 then handle_error d
     else if rule = 2 then
       and_then (handle_error d) (\<lambda>d.
       and_then (gdb_transmit_packet (gdb d)) (\<lambda>g.
       Some (Continue (d\<lparr>gdb := g\<rparr>))))
     else if rule = 3 then
       and_then (handle_error d) (\<lambda>d.
       and_then (gdb_packet_analysis (junk_of (packets d)) fuel (gdb d) (tx @ 0 # tail) (length tx)) (\<lambda>g.
       Some (Continue (d\<lparr>gdb := g, packets := packets d + 1\<rparr>))))
     else if rule = 4 then do {
       c \<leftarrow> aget (tx @ 0 # tail) 0;
       add_character_to_error d c
     }
     else Some (Continue (d\<lparr>echoed := echoed d @ tx\<rparr>)))"

section \<open>Tables of the automaton\<close>

definition yy_accept :: "nat list" where
  "yy_accept = [0, 0, 0, 6, 4, 5, 4, 1, 2, 0, 0, 0, 3, 0]"

text \<open>The class of a byte: 2 newline, 3 hash, 4 dollar, 5 plus, 6 minus, 7 hexadecimal digit, 1 other; 0 for the zero byte.\<close>

definition yy_ec :: "nat list" where
  "yy_ec = [0] @ replicate 9 1 @ [2] @ replicate 24 1 @ [3, 4] @ replicate 6 1 @ [5, 1, 6, 1, 1] @
     replicate 10 7 @ replicate 7 1 @ replicate 6 7 @ replicate 26 1 @ replicate 6 7 @ replicate 153 1"

definition yy_meta :: "nat list" where
  "yy_meta = [0, 1, 1, 1, 2, 1, 1, 1]"

definition yy_base :: "nat list" where
  "yy_base = [0, 0, 0, 13, 14, 14, 9, 14, 14, 8, 3, 2, 14, 14, 7]"

definition yy_def :: "nat list" where
  "yy_def = [0, 13, 1, 13, 13, 13, 14, 13, 13, 14, 13, 13, 13, 0, 13]"

definition yy_nxt :: "nat list" where
  "yy_nxt = [0, 4, 5, 4, 6, 7, 8, 4, 9, 12, 11, 10, 10, 13, 3, 13, 13, 13, 13, 13, 13, 13]"

definition yy_chk :: "nat list" where
  "yy_chk = [0, 1, 1, 1, 1, 1, 1, 1, 14, 11, 10, 9, 6, 3, 13, 13, 13, 13, 13, 13, 13, 13]"

section \<open>The automaton\<close>

text \<open>
  The inner loop of a transition follows \<open>yy_def\<close> until the entry of \<open>yy_chk\<close> belongs to the state;
  three turns are enough for these tables.
\<close>

fun yy_chase :: "nat \<Rightarrow> nat \<Rightarrow> nat \<Rightarrow> (nat \<times> nat) option" where
  "yy_chase 0 s c = None"
| "yy_chase (Suc fuel) s c = do {
     base \<leftarrow> aget yy_base s;
     chk \<leftarrow> aget yy_chk (base + c);
     if chk \<noteq> s then do {
       s \<leftarrow> aget yy_def s;
       c \<leftarrow> (if 14 \<le> s then aget yy_meta c else Some c);
       yy_chase fuel s c
     } else Some (s, c)
   }"

definition yy_next :: "nat \<Rightarrow> nat \<Rightarrow> nat option" where
  "yy_next s c = do {
     (s, c) \<leftarrow> yy_chase 3 s c;
     base \<leftarrow> aget yy_base s;
     aget yy_nxt (base + c)
   }"

text \<open>The last accepting state and its position, \<open>yy_last_accepting_state\<close> and \<open>yy_last_accepting_cpos\<close>.\<close>

definition note_accept :: "nat \<Rightarrow> nat \<Rightarrow> nat \<times> nat \<Rightarrow> (nat \<times> nat) option" where
  "note_accept s cp lst = do { a \<leftarrow> aget yy_accept s; Some (if a \<noteq> 0 then (s, cp) else lst) }"

text \<open>
  The matching loop from the position \<open>cp\<close>; the first argument is the buffer from there on. The
  result is the state that has no way out, the position after it, and the last accepting state.
\<close>

fun yy_match :: "u8 list \<Rightarrow> nat \<Rightarrow> nat \<Rightarrow> nat \<times> nat \<Rightarrow> (nat \<times> nat \<times> nat \<times> nat) option" where
  "yy_match [] cp s lst = None"
| "yy_match (b # bs) cp s lst = do {
     c \<leftarrow> aget yy_ec (unat b);
     lst \<leftarrow> note_accept s cp lst;
     s \<leftarrow> yy_next s c;
     base \<leftarrow> aget yy_base s;
     if base \<noteq> 14 then yy_match bs (cp + 1) s lst else Some (s, cp + 1, lst)
   }"

text \<open>\<open>yy_get_previous_state\<close> on the bytes of the token so far; a zero byte counts as an ordinary one.\<close>

fun previous_state :: "u8 list \<Rightarrow> nat \<Rightarrow> nat \<Rightarrow> nat \<times> nat \<Rightarrow> (nat \<times> nat \<times> nat) option" where
  "previous_state [] cp s lst = Some (s, lst)"
| "previous_state (b # bs) cp s lst = do {
     c \<leftarrow> (if b \<noteq> 0 then aget yy_ec (unat b) else Some 1);
     lst \<leftarrow> note_accept s cp lst;
     s \<leftarrow> yy_next s c;
     previous_state bs (cp + 1) s lst
   }"

section \<open>The buffer\<close>

definition YY_BUF_SIZE :: nat where "YY_BUF_SIZE = 16384"
definition YY_READ_BUF_SIZE :: nat where "YY_READ_BUF_SIZE = 8192"
definition YY_BUFFER_NEW :: nat where "YY_BUFFER_NEW = 0"
definition YY_BUFFER_NORMAL :: nat where "YY_BUFFER_NORMAL = 1"
definition YY_BUFFER_EOF_PENDING :: nat where "YY_BUFFER_EOF_PENDING = 2"

text \<open>
  The current buffer and the part of \<open>yyguts_t\<close> that the scanner uses; there is only one buffer, and
  the start state is 1. \<open>b_n_chars\<close> is the count in the buffer structure, \<open>yy_n_chars\<close> that in \<open>yyguts_t\<close>.
\<close>

record yyguts =
  yy_ch_buf :: "u8 list"
  yy_buf_size :: nat
  b_n_chars :: nat
  yy_buffer_status :: nat
  yy_n_chars :: nat
  yy_c_buf_p :: nat
  yytext_ptr :: nat
  yyleng :: nat
  yy_hold_char :: u8
  yy_last_accepting :: "nat \<times> nat"

definition yy_load_buffer_state :: "nat \<Rightarrow> yyguts \<Rightarrow> yyguts option" where
  "yy_load_buffer_state buf_pos g = do {
     h \<leftarrow> aget (yy_ch_buf g) buf_pos;
     Some (g\<lparr>yy_n_chars := b_n_chars g, yytext_ptr := buf_pos, yy_c_buf_p := buf_pos, yy_hold_char := h\<rparr>)
   }"

text \<open>Flushing the buffer; \<open>yy_init_buffer\<close> does it for a new buffer and for that of \<open>yyrestart\<close>.\<close>

definition yy_flush_buffer :: "yyguts \<Rightarrow> yyguts option" where
  "yy_flush_buffer g = do {
     buf \<leftarrow> aset (yy_ch_buf g) 0 0;
     buf \<leftarrow> aset buf 1 0;
     Some (g\<lparr>b_n_chars := 0, yy_ch_buf := buf, yy_buffer_status := YY_BUFFER_NEW\<rparr>)
   }"

definition yyrestart :: "yyguts \<Rightarrow> yyguts option" where
  "yyrestart g = do { g \<leftarrow> yy_flush_buffer g; yy_load_buffer_state 0 g }"

text \<open>The first call: a new buffer is allocated, with whatever content it has, flushed and loaded.\<close>

definition yy_first_buffer :: "(nat \<Rightarrow> u8 list) \<Rightarrow> yyguts option" where
  "yy_first_buffer alloc = do {
     g \<leftarrow> yy_flush_buffer \<lparr>yy_ch_buf = alloc (YY_BUF_SIZE + 2), yy_buf_size = YY_BUF_SIZE, b_n_chars = 0,
       yy_buffer_status = YY_BUFFER_NEW, yy_n_chars = 0, yy_c_buf_p = 0, yytext_ptr = 0, yyleng = 0,
       yy_hold_char = 0, yy_last_accepting = (0, 0)\<rparr>;
     yy_load_buffer_state 0 g
   }"

text \<open>\<open>realloc\<close>: the old content, cut or followed by new memory.\<close>

definition resize :: "(nat \<Rightarrow> u8 list) \<Rightarrow> u8 list \<Rightarrow> nat \<Rightarrow> u8 list" where
  "resize alloc buf n = take n buf @ drop (length buf) (alloc n)"

section \<open>Reading more input\<close>

text \<open>\<open>YY_INPUT\<close>: \<open>read\<close>, again while it is interrupted.\<close>

fun yy_input :: "'w reader \<Rightarrow> nat \<Rightarrow> 'w \<Rightarrow> nat \<Rightarrow> (u8 list \<times> 'w) or_exit option" where
  "yy_input rd 0 w n = None"
| "yy_input rd (Suc fuel) w n = do {
     (r, w) \<leftarrow> rd w n;
     case r of
       Got bs \<Rightarrow> Some (Continue (bs, w))
     | Failed eintr \<Rightarrow> if eintr then yy_input rd fuel w n else Some (Exit 2 ''input in flex scanner failed'')
   }"

datatype eob_action = CONTINUE_SCAN | END_OF_FILE | LAST_MATCH

text \<open>
  The loop that makes room: the buffer is doubled until at least one byte fits after the token. One
  turn is enough, because the token is shorter than the buffer. The number of bytes to read is an
  unsigned \<open>yy_buf_size - move - 1\<close>; for a token that fills the buffer it would be huge, and the read
  would write behind the buffer.
\<close>

fun grow_loop :: "(nat \<Rightarrow> u8 list) \<Rightarrow> nat \<Rightarrow> nat \<Rightarrow> yyguts \<Rightarrow> yyguts option" where
  "grow_loop alloc 0 move g = None"
| "grow_loop alloc (Suc fuel) move g = do {
     c_assert (move + 1 \<le> yy_buf_size g);
     if yy_buf_size g - move - 1 = 0 then
       (let size = 2 * yy_buf_size g in
        grow_loop alloc fuel move (g\<lparr>yy_buf_size := size, yy_ch_buf := resize alloc (yy_ch_buf g) (size + 2)\<rparr>))
     else Some g
   }"

text \<open>
  \<open>yy_get_next_buffer\<close>: the token so far moves to the front of the buffer and is followed by new
  input. In order: the check of the position, the move, the growth and the read (unless the end of
  the file has been seen), the decision, the final adjustment, and the two zero bytes.
\<close>

definition move_token :: "yyguts \<Rightarrow> nat \<Rightarrow> yyguts option" where
  "move_token g move = (if yytext_ptr g + move \<le> length (yy_ch_buf g)
     then Some (g\<lparr>yy_ch_buf := take move (drop (yytext_ptr g) (yy_ch_buf g)) @ drop move (yy_ch_buf g)\<rparr>)
     else None)"

definition fill_buffer ::
  "'w reader \<Rightarrow> (nat \<Rightarrow> u8 list) \<Rightarrow> nat \<Rightarrow> nat \<Rightarrow> yyguts \<Rightarrow> 'w \<Rightarrow> (yyguts \<times> 'w) or_exit option" where
  "fill_buffer rd alloc fuel move g w = do {
     g \<leftarrow> grow_loop alloc 2 move g;
     let num_to_read = min (yy_buf_size g - move - 1) YY_READ_BUF_SIZE;
     r \<leftarrow> yy_input rd fuel w num_to_read;
     case r of
       Exit code m \<Rightarrow> Some (Exit code m)
     | Continue (bs, w) \<Rightarrow> do {
         buf \<leftarrow> put_bytes (yy_ch_buf g) move bs;
         Some (Continue (g\<lparr>yy_ch_buf := buf, yy_n_chars := length bs, b_n_chars := length bs\<rparr>, w))
       }
   }"

definition finish_buffer :: "(nat \<Rightarrow> u8 list) \<Rightarrow> nat \<Rightarrow> yyguts \<Rightarrow> yyguts option" where
  "finish_buffer alloc move g = do {
     let g = (if yy_buf_size g < yy_n_chars g + move then
         let size = yy_n_chars g + move + yy_n_chars g div 2 in
         g\<lparr>yy_ch_buf := resize alloc (yy_ch_buf g) size, yy_buf_size := size - 2\<rparr>
       else g);
     let n = yy_n_chars g + move;
     buf \<leftarrow> aset (yy_ch_buf g) n 0;
     buf \<leftarrow> aset buf (n + 1) 0;
     Some (g\<lparr>yy_n_chars := n, yy_ch_buf := buf, yytext_ptr := 0\<rparr>)
   }"

definition yy_get_next_buffer ::
  "'w reader \<Rightarrow> (nat \<Rightarrow> u8 list) \<Rightarrow> nat \<Rightarrow> yyguts \<Rightarrow> 'w \<Rightarrow> (eob_action \<times> yyguts \<times> 'w) or_exit option" where
  "yy_get_next_buffer rd alloc fuel g w =
     (if yy_n_chars g + 1 < yy_c_buf_p g then Some (Exit 2 ''fatal flex scanner internal error--end of buffer missed'')
      else do {
        let move = yy_c_buf_p g - yytext_ptr g - 1;
        g \<leftarrow> move_token g move;
        r \<leftarrow> (if yy_buffer_status g = YY_BUFFER_EOF_PENDING
          then Some (Continue (g\<lparr>yy_n_chars := 0, b_n_chars := 0\<rparr>, w))
          else fill_buffer rd alloc fuel move g w);
        case r of
          Exit code m \<Rightarrow> Some (Exit code m)
        | Continue (g, w) \<Rightarrow> do {
            (ret_val, g) \<leftarrow> (if yy_n_chars g = 0 then
                if move = 0 then do { g \<leftarrow> yyrestart g; Some (END_OF_FILE, g) }
                else Some (LAST_MATCH, g\<lparr>yy_buffer_status := YY_BUFFER_EOF_PENDING\<rparr>)
              else Some (CONTINUE_SCAN, g));
            g \<leftarrow> finish_buffer alloc move g;
            Some (Continue (ret_val, g, w))
          }
      })"

section \<open>The scanner\<close>

text \<open>
  The points of \<open>yylex\<close> to which it jumps: the start of a token, \<open>yy_match\<close> and \<open>yy_find_action\<close>
  with the current state, \<open>yy_cp\<close> and \<open>yy_bp\<close>.
\<close>

datatype yy_label = Scan | Match nat nat nat | Find_action nat nat nat

text \<open>What one stretch of \<open>yylex\<close> between two jumps ends with.\<close>

datatype 'w yy_next_label = Goto yy_label yyguts parser_data 'w | Return parser_data 'w

text \<open>\<open>*yy_cp = yyg->yy_hold_char\<close>.\<close>

definition unhold :: "yyguts \<Rightarrow> nat \<Rightarrow> yyguts option" where
  "unhold g cp = do { buf \<leftarrow> aset (yy_ch_buf g) cp (yy_hold_char g); Some (g\<lparr>yy_ch_buf := buf\<rparr>) }"

definition YY_DO_BEFORE_ACTION :: "yyguts \<Rightarrow> nat \<Rightarrow> nat \<Rightarrow> yyguts option" where
  "YY_DO_BEFORE_ACTION g cp bp = do {
     h \<leftarrow> aget (yy_ch_buf g) cp;
     buf \<leftarrow> aset (yy_ch_buf g) cp 0;
     Some (g\<lparr>yytext_ptr := bp, yyleng := cp - bp, yy_hold_char := h, yy_ch_buf := buf, yy_c_buf_p := cp\<rparr>)
   }"

text \<open>The bytes of the token and the state before the end of the buffer, for \<open>yy_get_previous_state\<close>.\<close>

definition yy_get_previous_state :: "yyguts \<Rightarrow> (nat \<times> yyguts) option" where
  "yy_get_previous_state g = do {
     c_assert (yy_c_buf_p g \<le> length (yy_ch_buf g));
     (s, lst) \<leftarrow> previous_state (take (yy_c_buf_p g - yytext_ptr g) (drop (yytext_ptr g) (yy_ch_buf g)))
       (yytext_ptr g) 1 (yy_last_accepting g);
     Some (s, g\<lparr>yy_last_accepting := lst\<rparr>)
   }"

text \<open>The transition on a zero byte; the result 0 means that there is none.\<close>

definition yy_try_NUL_trans :: "nat \<Rightarrow> yyguts \<Rightarrow> (nat \<times> yyguts) option" where
  "yy_try_NUL_trans s g = do {
     lst \<leftarrow> note_accept s (yy_c_buf_p g) (yy_last_accepting g);
     s \<leftarrow> yy_next s 1;
     Some (if s = 13 then 0 else s, g\<lparr>yy_last_accepting := lst\<rparr>)
   }"

text \<open>
  The case \<open>YY_END_OF_BUFFER\<close> of the action switch; \<open>amount\<close> is \<open>yy_amount_of_matched_text\<close>. Either the zero
  byte was one of the stream, and the scanner makes its transition, or the buffer is refilled.
\<close>

definition yy_real_NUL :: "nat \<Rightarrow> yyguts \<Rightarrow> parser_data \<Rightarrow> 'w \<Rightarrow> 'w yy_next_label or_exit option" where
  "yy_real_NUL amount g d w = do {
     let g = g\<lparr>yy_c_buf_p := yytext_ptr g + amount\<rparr>;
     (s, g) \<leftarrow> yy_get_previous_state g;
     (next, g) \<leftarrow> yy_try_NUL_trans s g;
     if next \<noteq> 0 then
       (let g = g\<lparr>yy_c_buf_p := yy_c_buf_p g + 1\<rparr> in
        Some (Continue (Goto (Match next (yy_c_buf_p g) (yytext_ptr g)) g d w)))
     else Some (Continue (Goto (Find_action s (yy_c_buf_p g) (yytext_ptr g)) g d w))
   }"

definition yy_refill ::
  "'w reader \<Rightarrow> (nat \<Rightarrow> u8 list) \<Rightarrow> nat \<Rightarrow> nat \<Rightarrow> yyguts \<Rightarrow> parser_data \<Rightarrow> 'w \<Rightarrow> 'w yy_next_label or_exit option" where
  "yy_refill rd alloc fuel amount g d w = do {
     r \<leftarrow> yy_get_next_buffer rd alloc fuel g w;
     case r of
       Exit code m \<Rightarrow> Some (Exit code m)
     | Continue (END_OF_FILE, g, w) \<Rightarrow> and_then (handle_error d) (\<lambda>d. Some (Continue (Return d w)))
     | Continue (CONTINUE_SCAN, g, w) \<Rightarrow> do {
         let g = g\<lparr>yy_c_buf_p := yytext_ptr g + amount\<rparr>;
         (s, g) \<leftarrow> yy_get_previous_state g;
         Some (Continue (Goto (Match s (yy_c_buf_p g) (yytext_ptr g)) g d w))
       }
     | Continue (LAST_MATCH, g, w) \<Rightarrow> do {
         let g = g\<lparr>yy_c_buf_p := yy_n_chars g\<rparr>;
         (s, g) \<leftarrow> yy_get_previous_state g;
         Some (Continue (Goto (Find_action s (yy_c_buf_p g) (yytext_ptr g)) g d w))
       }
   }"

definition yy_end_of_buffer ::
  "'w reader \<Rightarrow> (nat \<Rightarrow> u8 list) \<Rightarrow> nat \<Rightarrow> nat \<Rightarrow> yyguts \<Rightarrow> parser_data \<Rightarrow> 'w \<Rightarrow> 'w yy_next_label or_exit option" where
  "yy_end_of_buffer rd alloc fuel cp g d w = do {
     let amount = cp - yytext_ptr g - 1;
     g \<leftarrow> unhold g cp;
     let g = (if yy_buffer_status g = YY_BUFFER_NEW
       then g\<lparr>yy_n_chars := b_n_chars g, yy_buffer_status := YY_BUFFER_NORMAL\<rparr> else g);
     if yy_c_buf_p g \<le> yy_n_chars g then yy_real_NUL amount g d w else yy_refill rd alloc fuel amount g d w
   }"

text \<open>The action writes into the buffer: the analysis of a packet ends its payload with a zero byte.\<close>

definition yy_written :: "(nat \<Rightarrow> gdb_junk) \<Rightarrow> nat \<Rightarrow> parser_data \<Rightarrow> yyguts \<Rightarrow> yyguts option" where
  "yy_written junk_of rule d g = (if rule = 3 then do {
     pkt \<leftarrow> analysed_packet (junk_of (packets d)) (drop (yytext_ptr g) (yy_ch_buf g)) (yyleng g);
     Some (g\<lparr>yy_ch_buf := take (yytext_ptr g) (yy_ch_buf g) @ pkt\<rparr>)
   } else Some g)"

text \<open>The stretches of \<open>yylex\<close>.\<close>

definition yy_find_action ::
  "'w reader \<Rightarrow> (nat \<Rightarrow> u8 list) \<Rightarrow> (nat \<Rightarrow> gdb_junk) \<Rightarrow> nat \<Rightarrow> nat \<Rightarrow> nat \<Rightarrow> nat \<Rightarrow> yyguts \<Rightarrow> parser_data \<Rightarrow> 'w \<Rightarrow>
   'w yy_next_label or_exit option" where
  "yy_find_action rd alloc junk_of fuel s cp bp g d w = do {
     act \<leftarrow> aget yy_accept s;
     (act, cp) \<leftarrow> (if act = 0
       then do { a \<leftarrow> aget yy_accept (fst (yy_last_accepting g)); Some (a, snd (yy_last_accepting g)) }
       else Some (act, cp));
     g \<leftarrow> YY_DO_BEFORE_ACTION g cp bp;
     if act = 0 then do {
       g \<leftarrow> unhold g cp;
       Some (Continue (Goto (Find_action (fst (yy_last_accepting g)) (snd (yy_last_accepting g)) bp) g d w))
     }
     else if act < 6 then
       and_then (yy_action junk_of fuel act (take (yyleng g) (drop bp (yy_ch_buf g))) (drop (cp + 1) (yy_ch_buf g)) d) (\<lambda>d'. do {
         g \<leftarrow> yy_written junk_of act d g;
         Some (Continue (Goto Scan g d' w))
       })
     else if act = 6 then yy_end_of_buffer rd alloc fuel cp g d w
     else Some (Exit 2 ''fatal flex scanner internal error--no action found'')
   }"

definition yy_step ::
  "'w reader \<Rightarrow> (nat \<Rightarrow> u8 list) \<Rightarrow> (nat \<Rightarrow> gdb_junk) \<Rightarrow> nat \<Rightarrow> yy_label \<Rightarrow> yyguts \<Rightarrow> parser_data \<Rightarrow> 'w \<Rightarrow>
   'w yy_next_label or_exit option" where
  "yy_step rd alloc junk_of fuel label g d w = (case label of
     Scan \<Rightarrow> do {
       let cp = yy_c_buf_p g;
       g \<leftarrow> unhold g cp;
       Some (Continue (Goto (Match 1 cp cp) g d w))
     }
   | Match s cp bp \<Rightarrow> do {
       (s, cp, lst) \<leftarrow> yy_match (drop cp (yy_ch_buf g)) cp s (yy_last_accepting g);
       Some (Continue (Goto (Find_action s cp bp) (g\<lparr>yy_last_accepting := lst\<rparr>) d w))
     }
   | Find_action s cp bp \<Rightarrow> yy_find_action rd alloc junk_of fuel s cp bp g d w)"

text \<open>The loop of \<open>yylex\<close>; the fuel bounds the jumps, the loops of the handlers and the interruptions.\<close>

fun yylex_loop ::
  "'w reader \<Rightarrow> (nat \<Rightarrow> u8 list) \<Rightarrow> (nat \<Rightarrow> gdb_junk) \<Rightarrow> nat \<Rightarrow> nat \<Rightarrow> yy_label \<Rightarrow> yyguts \<Rightarrow> parser_data \<Rightarrow> 'w \<Rightarrow>
   (parser_data \<times> 'w) or_exit option" where
  "yylex_loop rd alloc junk_of fuel 0 label g d w = None"
| "yylex_loop rd alloc junk_of fuel (Suc jumps) label g d w = do {
     r \<leftarrow> yy_step rd alloc junk_of fuel label g d w;
     case r of
       Exit code m \<Rightarrow> Some (Exit code m)
     | Continue (Return d w) \<Rightarrow> Some (Continue (d, w))
     | Continue (Goto label g d w) \<Rightarrow> yylex_loop rd alloc junk_of fuel jumps label g d w
   }"

definition yylex ::
  "'w reader \<Rightarrow> (nat \<Rightarrow> u8 list) \<Rightarrow> (nat \<Rightarrow> gdb_junk) \<Rightarrow> nat \<Rightarrow> nat \<Rightarrow> parser_data \<Rightarrow> 'w \<Rightarrow>
   (parser_data \<times> 'w) or_exit option" where
  "yylex rd alloc junk_of fuel jumps d w = do {
     g \<leftarrow> yy_first_buffer alloc;
     yylex_loop rd alloc junk_of fuel jumps Scan g d w
   }"

text \<open>
  \<open>gdb_scanner\<close> on the processor \<open>a\<close>: \<open>got\<close> tells whether \<open>malloc\<close> succeeds (a null pointer is used
  otherwise), \<open>opened\<close> whether \<open>fdopen\<close> does, and \<open>fails\<close> which writes fail.
\<close>

definition gdb_scanner ::
  "bool \<Rightarrow> bool \<Rightarrow> 'w reader \<Rightarrow> (nat \<Rightarrow> u8 list) \<Rightarrow> (nat \<Rightarrow> gdb_junk) \<Rightarrow> nat \<Rightarrow> nat \<Rightarrow>
   arm_core \<Rightarrow> u8 list \<Rightarrow> u32 list \<Rightarrow> (nat \<Rightarrow> bool) \<Rightarrow> u8 list \<Rightarrow> 'w \<Rightarrow> (parser_data \<times> 'w) or_exit option option" where
  "gdb_scanner got opened rd alloc junk_of fuel jumps a pkt bps fails buf w = (if \<not> opened then Some None else do {
     g \<leftarrow> gdb_init_data got a pkt bps fails;
     r \<leftarrow> yylex rd alloc junk_of fuel jumps
       \<lparr>gdb = g, buffer = buf, len = 0, packets = 0, echoed = []\<rparr> w;
     Some (Some r)
   })"

end
