(* ===== verification/Gdb_Scanner_Facts.thy ===== *)
theory Gdb_Scanner_Facts
  imports Gdb_Scanner
begin

text \<open>
  The scanner does what the rules of \<^verbatim>\<open>scanner.l\<close> say: for every way in which the connection
  delivers the bytes, the tokens are those of the longest-match reading of the whole stream.
\<close>

section \<open>The rules\<close>

abbreviation dollar :: u8 where "dollar \<equiv> 36"
abbreviation hash :: u8 where "hash \<equiv> 35"

definition is_hex :: "u8 \<Rightarrow> bool" where
  "is_hex b \<longleftrightarrow> 48 \<le> b \<and> b \<le> 57 \<or> 65 \<le> b \<and> b \<le> 70 \<or> 97 \<le> b \<and> b \<le> 102"

text \<open>The length of the match of \<open>[^$#]*"#"{HEX}{HEX}\<close>.\<close>

fun frame_body :: "u8 list \<Rightarrow> nat option" where
  "frame_body [] = None"
| "frame_body (b # bs) =
     (if b = hash then (case bs of x # y # _ \<Rightarrow> if is_hex x \<and> is_hex y then Some 3 else None | _ \<Rightarrow> None)
      else if b = dollar then None
      else map_option Suc (frame_body bs))"

text \<open>The rule that matches at the start of the stream, and the length of its token.\<close>

definition next_token :: "u8 list \<Rightarrow> nat \<times> nat" where
  "next_token bs = (case bs of [] \<Rightarrow> (0, 0) | b # rest \<Rightarrow>
     if b = 43 then (1, 1) else if b = 45 then (2, 1) else if b = 10 then (5, 1)
     else if b = dollar then (case frame_body rest of Some n \<Rightarrow> (3, n + 1) | None \<Rightarrow> (4, 1))
     else (4, 1))"

definition plain :: "u8 list \<Rightarrow> bool" where
  "plain t \<longleftrightarrow> (\<forall>b \<in> set t. b \<noteq> hash \<and> b \<noteq> dollar)"

lemma frame_body_plain: "plain t \<Longrightarrow> frame_body (t @ u) = map_option ((+) (length t)) (frame_body u)"
  by (cases "frame_body u") (induction t; auto simp: plain_def)+

lemma plain_append [simp]: "plain (t @ u) \<longleftrightarrow> plain t \<and> plain u" "plain []"
  "plain (b # t) \<longleftrightarrow> b \<noteq> hash \<and> b \<noteq> dollar \<and> plain t"
  by (auto simp: plain_def)

lemma next_token_pos: "bs \<noteq> [] \<Longrightarrow> 0 < snd (next_token bs)"
  by (cases bs) (auto simp: next_token_def split: option.split)

section \<open>The automaton\<close>

definition class_of :: "u8 \<Rightarrow> nat" where
  "class_of b = (if b = 10 then 2 else if b = hash then 3 else if b = dollar then 4 else if b = 43 then 5
     else if b = 45 then 6 else if is_hex b then 7 else 1)"

definition delta :: "nat \<Rightarrow> nat \<Rightarrow> nat" where
  "delta s c = (if s = 1 then if c = 2 then 5 else if c = 4 then 6 else if c = 5 then 7 else if c = 6 then 8 else 4
     else if s = 6 \<or> s = 9 then if c = 3 then 10 else if c = 4 then 13 else 9
     else if s = 10 then if c = 7 then 11 else 13
     else if s = 11 then if c = 7 then 12 else 13
     else 13)"

lemma yy_ec_map:
  "yy_ec = map (\<lambda>n. if n = 0 then 0 else if n = 10 then 2 else if n = 35 then 3 else if n = 36 then 4
     else if n = 43 then 5 else if n = 45 then 6
     else if 48 \<le> n \<and> n \<le> 57 \<or> 65 \<le> n \<and> n \<le> 70 \<or> 97 \<le> n \<and> n \<le> 102 then 7 else 1) [0..<256]"
  by code_simp

lemma yy_ec_table: "b \<noteq> 0 \<Longrightarrow> aget yy_ec (unat b) = Some (class_of b)"
proof -
  assume b: "b \<noteq> 0"
  have n: "0 < unat b" "unat b < 256" using b unsigned_less [of b] by (simp_all add: unat_gt_0)
  have "length yy_ec = 256" by (simp add: yy_ec_def)
  then have "aget yy_ec (unat b) = Some (yy_ec ! unat b)" using n by simp
  also have "yy_ec ! unat b = class_of b"
    using n unfolding yy_ec_map class_of_def is_hex_def by (simp add: word_unat_eq_iff word_le_nat_alt)
  finally show ?thesis .
qed

lemma yy_ec_0: "aget yy_ec 0 = Some 0"
  by code_simp

lemma class_range: "class_of b \<in> {1, 2, 3, 4, 5, 6, 7}"
  by (simp add: class_of_def)

lemma yy_next_table:
  "s \<in> {1, 4, 6, 9, 10, 11, 13} \<Longrightarrow> c \<in> {1, 2, 3, 4, 5, 6, 7} \<Longrightarrow> yy_next s c = Some (delta s c)"
proof -
  have "list_all (\<lambda>s. list_all (\<lambda>c. yy_next s c = Some (delta s c)) [1, 2, 3, 4, 5, 6, 7]) [1, 4, 6, 9, 10, 11, 13]"
    by code_simp
  then show "s \<in> {1, 4, 6, 9, 10, 11, 13} \<Longrightarrow> c \<in> {1, 2, 3, 4, 5, 6, 7} \<Longrightarrow> yy_next s c = Some (delta s c)"
    by auto
qed

text \<open>A zero byte leads to the state of the end of the buffer, and any byte from there to a dead end.\<close>

lemma yy_next_end:
  "s \<in> {1, 4, 6, 9, 10, 11} \<Longrightarrow> yy_next s 0 = Some 3"
  "c \<in> {0, 1, 2, 3, 4, 5, 6, 7} \<Longrightarrow> yy_next 3 c = Some 13"
proof -
  have "list_all (\<lambda>s. yy_next s 0 = Some 3) [1, 4, 6, 9, 10, 11]" by code_simp
  then show "s \<in> {1, 4, 6, 9, 10, 11} \<Longrightarrow> yy_next s 0 = Some 3" by auto
  have "list_all (\<lambda>c. yy_next 3 c = Some 13) [0, 1, 2, 3, 4, 5, 6, 7]" by code_simp
  then show "c \<in> {0, 1, 2, 3, 4, 5, 6, 7} \<Longrightarrow> yy_next 3 c = Some 13" by auto
qed

lemma yy_tables [simp]:
  "aget yy_accept 0 = Some 0" "aget yy_accept 1 = Some 0" "aget yy_accept (Suc 0) = Some 0" "aget yy_accept 3 = Some 6"
  "aget yy_accept 4 = Some 4" "aget yy_accept 5 = Some 5" "aget yy_accept 6 = Some 4" "aget yy_accept 7 = Some 1"
  "aget yy_accept 8 = Some 2" "aget yy_accept 9 = Some 0" "aget yy_accept 10 = Some 0"
  "aget yy_accept 11 = Some 0" "aget yy_accept 12 = Some 3" "aget yy_accept 13 = Some 0"
  "aget yy_base 3 = Some 13" "aget yy_base 4 = Some 14" "aget yy_base 5 = Some 14" "aget yy_base 6 = Some 9"
  "aget yy_base 7 = Some 14" "aget yy_base 8 = Some 14" "aget yy_base 9 = Some 8" "aget yy_base 10 = Some 3"
  "aget yy_base 11 = Some 2" "aget yy_base 12 = Some 14" "aget yy_base 13 = Some 14"
  by (simp_all add: yy_accept_def yy_base_def)

section \<open>Unfinished tokens\<close>

text \<open>The texts after which the scanner needs another byte, with its state.\<close>

definition unfinished :: "u8 list \<Rightarrow> nat \<Rightarrow> bool" where
  "unfinished tx s \<longleftrightarrow>
     s = 1 \<and> tx = [] \<or> s = 4 \<and> tx = [0] \<or> s = 6 \<and> tx = [dollar] \<or>
     s = 9 \<and> (\<exists>t. tx = dollar # t \<and> t \<noteq> [] \<and> plain t) \<or>
     s = 10 \<and> (\<exists>t. tx = dollar # t @ [hash] \<and> plain t) \<or>
     s = 11 \<and> (\<exists>t h. tx = dollar # t @ [hash, h] \<and> plain t \<and> is_hex h)"

lemma unfinished_states: "unfinished tx s \<Longrightarrow> s \<in> {1, 4, 6, 9, 10, 11}"
  by (auto simp: unfinished_def)

text \<open>When an unfinished token cannot be continued, its first byte is an error.\<close>

lemma unfinished_at_end: "unfinished tx s \<Longrightarrow> tx \<noteq> [] \<Longrightarrow> next_token tx = (4, 1)"
  by (auto simp: unfinished_def next_token_def frame_body_plain frame_body_plain [of _ "[]", simplified])

text \<open>The next byte continues the token, completes it, or makes it an error.\<close>


lemma class_hex: "class_of b = 7 \<longleftrightarrow> is_hex b"
  by (auto simp: class_of_def is_hex_def)

lemma class_special: "class_of b = 3 \<longleftrightarrow> b = hash" "class_of b = 4 \<longleftrightarrow> b = dollar"
  by (auto simp: class_of_def)

lemma delta_states:
  "delta 1 (class_of b) = (if b = 10 then 5 else if b = dollar then 6 else if b = 43 then 7 else if b = 45 then 8 else 4)"
  "delta 4 c = 13"
  "s \<in> {6, 9} \<Longrightarrow> delta s (class_of b) = (if b = hash then 10 else if b = dollar then 13 else 9)"
  "delta 10 (class_of b) = (if is_hex b then 11 else 13)"
  "delta 11 (class_of b) = (if is_hex b then 12 else 13)"
  by (simp_all add: delta_def class_hex class_special) (auto simp: class_of_def)

lemmas delta_states' = delta_states delta_states(1) [unfolded One_nat_def]

text \<open>The tokens of a stream that starts with a dollar and goes on with \<open>t\<close>.\<close>

lemma next_token_frame:
  assumes "plain t"
  shows "next_token (dollar # t @ dollar # u) = (4, 1)"
    "\<not> is_hex x \<Longrightarrow> next_token (dollar # t @ hash # x # u) = (4, 1)"
    "\<not> is_hex y \<Longrightarrow> next_token (dollar # t @ hash # x # y # u) = (4, 1)"
    "is_hex x \<Longrightarrow> is_hex y \<Longrightarrow> next_token (dollar # t @ hash # x # y # u) = (3, length t + 4)"
  using assms by (auto simp: next_token_def frame_body_plain split: list.split)

text \<open>The next byte continues the token, completes it, or makes it an error.\<close>

lemma unfinished_step:
  assumes "unfinished tx s"
  obtains (more) "delta s (class_of b) \<in> {6, 9, 10, 11}" "unfinished (tx @ [b]) (delta s (class_of b))"
  | (short) "tx = []" "s = 1" "delta s (class_of b) \<in> {4, 5, 7, 8}"
      "\<And>u. next_token (b # u) = (the (aget yy_accept (delta s (class_of b))), 1)"
      "b = 0 \<Longrightarrow> delta s (class_of b) = 4"
  | (frame) "delta s (class_of b) = 12" "s = 11" "\<And>u. next_token (tx @ b # u) = (3, length tx + 1)"
  | (error) "delta s (class_of b) = 13" "s \<noteq> 1" "tx \<noteq> []" "\<And>u. next_token (tx @ b # u) = (4, 1)"
proof -
  have cases: "s = 1 \<and> tx = [] \<or> s = 4 \<and> tx = [0] \<or> (\<exists>t. s \<in> {6, 9} \<and> tx = dollar # t \<and> plain t) \<or>
     (\<exists>t. s = 10 \<and> tx = dollar # t @ [hash] \<and> plain t) \<or>
     (\<exists>t h. s = 11 \<and> tx = dollar # t @ [hash, h] \<and> plain t \<and> is_hex h)"
    using assms by (auto simp: unfinished_def)
  then consider "s = 1" "tx = []" | "s = 4" "tx = [0]" | t where "s \<in> {6, 9}" "tx = dollar # t" "plain t"
    | t where "s = 10" "tx = dollar # t @ [hash]" "plain t"
    | t h where "s = 11" "tx = dollar # t @ [hash, h]" "plain t" "is_hex h"
    by blast
  then show thesis
  proof cases
    case 1
    show thesis
    proof (cases "b = dollar")
      case True
      with 1 show thesis by (intro more) (simp_all add: delta_states' unfinished_def)
    next
      case False
      with 1 show thesis by (intro short) (auto simp: delta_states' next_token_def)
    qed
  next
    case 2
    then show thesis by (intro error) (simp_all add: delta_states next_token_def)
  next
    case (3 t)
    note d = delta_states(3) [OF 3(1), of b]
    consider "b = hash" | "b = dollar" | "b \<noteq> hash" "b \<noteq> dollar" by blast
    then show thesis
    proof cases
      case 1
      with 3 d show thesis by (intro more) (auto simp: unfinished_def)
    next
      case 2
      with 3 d show thesis by (intro error) (auto simp: next_token_frame)
    next
      case plain: 3
      with 3 d show thesis by (intro more) (auto simp: unfinished_def)
    qed
  next
    case (4 t)
    show thesis
    proof (cases "is_hex b")
      case True
      with 4 show thesis by (intro more) (auto simp: delta_states unfinished_def)
    next
      case False
      with 4 show thesis by (intro error) (auto simp: delta_states next_token_frame)
    qed
  next
    case (5 t h)
    show thesis
    proof (cases "is_hex b")
      case True
      with 5 show thesis by (intro frame) (auto simp: delta_states next_token_frame)
    next
      case False
      with 5 show thesis by (intro error) (auto simp: delta_states next_token_frame)
    qed
  qed
qed

section \<open>The matching loop\<close>

text \<open>The rule and the end of the token that \<open>yy_find_action\<close> takes, given as in \<open>next_token\<close>.\<close>

definition chosen :: "nat \<Rightarrow> nat \<Rightarrow> nat \<times> nat \<Rightarrow> (nat \<times> nat) option" where
  "chosen s cp lst = do {
     act \<leftarrow> aget yy_accept s;
     if act = 0 then do { a \<leftarrow> aget yy_accept (fst lst); Some (a, snd lst) } else Some (act, cp)
   }"

definition token_at :: "nat \<Rightarrow> u8 list \<Rightarrow> nat \<times> nat" where
  "token_at bp bs = (fst (next_token bs), bp + snd (next_token bs))"

text \<open>The last accepting state of a token that started with a dollar is that of the dollar.\<close>

definition last_ok :: "nat \<Rightarrow> nat \<Rightarrow> nat \<times> nat \<Rightarrow> bool" where
  "last_ok s bp lst \<longleftrightarrow> (s \<in> {9, 10, 11} \<longrightarrow> lst = (6, bp + 1))"

lemma length_unfinished: "unfinished tx s \<Longrightarrow> s \<in> {4, 6} \<Longrightarrow> length tx = 1"
  by (auto simp: unfinished_def)

lemma note_unfinished:
  assumes "unfinished tx s" "last_ok s bp lst"
  shows "\<exists>l. note_accept s (bp + length tx) lst = Some l \<and>
    (s \<noteq> 1 \<longrightarrow> snd l = bp + 1 \<and> aget yy_accept (fst l) = Some 4) \<and> (s \<in> {6, 9, 10, 11} \<longrightarrow> l = (6, bp + 1))"
  using assms length_unfinished [OF assms(1)] unfinished_states [OF assms(1)]
  by (auto simp: note_accept_def last_ok_def)

text \<open>One turn of the loop.\<close>

lemma match_turn:
  assumes "unfinished tx s" "last_ok s bp lst" "b \<noteq> 0"
  shows "(\<exists>s' l. unfinished (tx @ [b]) s' \<and> last_ok s' bp l \<and>
       yy_match (b # bs) (bp + length tx) s lst = yy_match bs (bp + length (tx @ [b])) s' l) \<or>
    (\<exists>s' l. yy_match (b # bs) (bp + length tx) s lst = Some (s', bp + length (tx @ [b]), l) \<and>
       (\<forall>u. chosen s' (bp + length (tx @ [b])) l = Some (token_at bp (tx @ b # u))))"
proof -
  obtain l where l: "note_accept s (bp + length tx) lst = Some l" "s \<noteq> 1 \<Longrightarrow> snd l = bp + 1 \<and> aget yy_accept (fst l) = Some 4"
    "s \<in> {6, 9, 10, 11} \<Longrightarrow> l = (6, bp + 1)"
    using note_unfinished [OF assms(1,2)] by blast
  define s' where "s' = delta s (class_of b)"
  have next_s: "yy_next s (class_of b) = Some s'"
    using unfinished_states [OF assms(1)] class_range [of b] by (auto simp: s'_def intro!: yy_next_table)
  have turn: "yy_match (b # bs) (bp + length tx) s lst = do {
      base \<leftarrow> aget yy_base s';
      if base \<noteq> 14 then yy_match bs (bp + length tx + 1) s' l else Some (s', bp + length tx + 1, l)
    }"
    using l(1) next_s yy_ec_table [OF assms(3)] by simp
  from assms(1) show ?thesis
  proof (cases rule: unfinished_step [where b = b])
    case more
    then have "s \<noteq> 1 \<or> s' = 6" by (auto simp: s'_def delta_def split: if_splits)
    have "s \<in> {6, 9, 10, 11}" if "s' \<in> {9, 10, 11}"
      using that unfinished_states [OF assms(1)] by (auto simp: s'_def delta_def split: if_splits)
    then have "last_ok s' bp l" using l(3) by (auto simp: last_ok_def)
    with more turn show ?thesis unfolding s'_def [symmetric] by (intro disjI1 exI [of _ s'] exI [of _ l]) auto
  next
    case short
    then have "s' \<in> {4, 5, 7, 8}" "\<And>u. next_token (b # u) = (the (aget yy_accept s'), 1)"
      by (simp_all add: s'_def)
    then have "aget yy_base s' = Some 14" "chosen s' (bp + 1) l = Some (token_at bp (b # u))" for u
      by (auto simp: chosen_def token_at_def)
    with short turn show ?thesis by (intro disjI2 exI [of _ s'] exI [of _ l]) simp
  next
    case frame
    then have "s' = 12" by (simp add: s'_def)
    with frame(3) have "aget yy_base s' = Some 14" "chosen s' (bp + length tx + 1) l = Some (token_at bp (tx @ b # u))" for u
      by (auto simp: chosen_def token_at_def)
    with turn show ?thesis by (intro disjI2 exI [of _ s'] exI [of _ l]) simp
  next
    case error
    then have "aget yy_base s' = Some 14" "chosen s' (bp + length tx + 1) l = Some (token_at bp (tx @ b # u))" for u
      using l(2) by (auto simp: s'_def [symmetric] chosen_def token_at_def)
    with turn show ?thesis by (intro disjI2 exI [of _ s'] exI [of _ l]) simp
  qed
qed

lemma match_text:
  "unfinished tx s \<Longrightarrow> last_ok s bp lst \<Longrightarrow> 0 \<notin> set xs \<Longrightarrow>
   (\<exists>s' l. unfinished (tx @ xs) s' \<and> last_ok s' bp l \<and>
      yy_match (xs @ tail) (bp + length tx) s lst = yy_match tail (bp + length (tx @ xs)) s' l) \<or>
   (\<exists>ys b zs s' l. xs = ys @ b # zs \<and>
      yy_match (xs @ tail) (bp + length tx) s lst = Some (s', bp + length (tx @ ys) + 1, l) \<and>
      (\<forall>u. chosen s' (bp + length (tx @ ys) + 1) l = Some (token_at bp (tx @ ys @ b # u))))"
proof (induction xs arbitrary: tx s lst)
  case Nil
  then show ?case by (intro disjI1 exI [of _ s] exI [of _ lst]) simp
next
  case (Cons b xs)
  have b: "b \<noteq> 0" "0 \<notin> set xs" using Cons.prems(3) by auto
  from match_turn [OF Cons.prems(1,2) b(1), of "xs @ tail"] show ?case
  proof (elim disjE exE conjE)
    fix s' l assume *: "unfinished (tx @ [b]) s'" "last_ok s' bp l"
      "yy_match (b # xs @ tail) (bp + length tx) s lst = yy_match (xs @ tail) (bp + length (tx @ [b])) s' l"
    from Cons.IH [OF *(1,2) b(2)] show ?thesis
    proof (elim disjE exE conjE)
      fix s2 l2 assume "unfinished ((tx @ [b]) @ xs) s2" "last_ok s2 bp l2"
        "yy_match (xs @ tail) (bp + length (tx @ [b])) s' l = yy_match tail (bp + length ((tx @ [b]) @ xs)) s2 l2"
      with *(3) show ?thesis by (intro disjI1 exI [of _ s2] exI [of _ l2]) simp
    next
      fix ys c zs s2 l2 assume "xs = ys @ c # zs"
        "yy_match (xs @ tail) (bp + length (tx @ [b])) s' l = Some (s2, bp + length ((tx @ [b]) @ ys) + 1, l2)"
        "\<forall>u. chosen s2 (bp + length ((tx @ [b]) @ ys) + 1) l2 = Some (token_at bp ((tx @ [b]) @ ys @ c # u))"
      with *(3) show ?thesis
        by (intro disjI2 exI [of _ "b # ys"] exI [of _ c] exI [of _ zs] exI [of _ s2] exI [of _ l2]) simp
    qed
  next
    fix s' l assume "yy_match (b # xs @ tail) (bp + length tx) s lst = Some (s', bp + length (tx @ [b]), l)"
      "\<forall>u. chosen s' (bp + length (tx @ [b])) l = Some (token_at bp (tx @ b # u))"
    then show ?thesis
      by (intro disjI2 exI [of _ "[]"] exI [of _ b] exI [of _ xs] exI [of _ s'] exI [of _ l]) simp
  qed
qed

text \<open>A zero byte and the byte after it end the loop in the state of the end of the buffer.\<close>

lemma match_zero:
  assumes "unfinished tx s"
  shows "yy_match (0 # y # bs) cp s lst = Some (13, cp + 2, 3, cp + 1)"
proof -
  have s: "s \<in> {1, 4, 6, 9, 10, 11}" by (rule unfinished_states [OF assms])
  then have "\<exists>l. note_accept s cp lst = Some l" by (auto simp: note_accept_def)
  then obtain l where l: "note_accept s cp lst = Some l" by blast
  obtain c where c: "aget yy_ec (unat y) = Some c" "c \<in> {0, 1, 2, 3, 4, 5, 6, 7}"
    using yy_ec_table [of y] class_range [of y] yy_ec_0 by (cases "y = 0") auto
  show ?thesis
    using yy_next_end(1) [OF s] yy_next_end(2) [OF c(2)] c(1) l yy_ec_0
    by (simp add: note_accept_def)
qed

text \<open>Recomputing the state.\<close>

lemma unfinished_snoc:
  "unfinished (tx @ [b]) s' \<Longrightarrow> \<exists>s. unfinished tx s \<and> s' = delta s (class_of b)"
proof -
  assume u: "unfinished (tx @ [b]) s'"
  then consider "s' = 4" "tx = []" "b = 0" | "s' = 6" "tx = []" "b = dollar"
    | t where "s' = 9" "tx @ [b] = dollar # t" "t \<noteq> []" "plain t"
    | t where "s' = 10" "tx = dollar # t" "b = hash" "plain t"
    | t where "s' = 11" "tx = dollar # t @ [hash]" "plain t" "is_hex b"
    by (auto simp: unfinished_def)
  then show ?thesis
  proof cases
    case (3 t)
    obtain t' where "t = t' @ [b]" "tx = dollar # t'"
      using 3(2,3) by (cases t rule: rev_cases) auto
    with 3 show ?thesis
      by (cases "t' = []") (auto simp: unfinished_def delta_states intro: exI [of _ 6] exI [of _ 9])
  next
    case (4 t)
    then show ?thesis
      by (cases "t = []") (auto simp: unfinished_def delta_states intro: exI [of _ 6] exI [of _ 9])
  qed (auto simp: unfinished_def delta_states' intro: exI [of _ 1] exI [of _ 10])
qed

lemma previous_state_append:
  "previous_state (xs @ ys) cp s lst =
     Option.bind (previous_state xs cp s lst) (\<lambda>(s, l). previous_state ys (cp + length xs) s l)"
  by (induction xs arbitrary: cp s lst) (auto simp: add.commute intro!: Option.bind_cong)

lemma previous_state_unfinished:
  "unfinished tx s \<Longrightarrow> \<exists>l. previous_state tx bp 1 lst = Some (s, l) \<and> last_ok s bp l"
proof (induction tx arbitrary: s rule: rev_induct)
  case Nil
  then show ?case by (auto simp: unfinished_def last_ok_def)
next
  case (snoc b tx)
  obtain s0 where s0: "unfinished tx s0" "s = delta s0 (class_of b)" using unfinished_snoc [OF snoc.prems] by blast
  from snoc.IH [OF s0(1)] obtain l0 where l0: "previous_state tx bp 1 lst = Some (s0, l0)" "last_ok s0 bp l0" by blast
  obtain l where l: "note_accept s0 (bp + length tx) l0 = Some l" "s0 \<in> {6, 9, 10, 11} \<longrightarrow> l = (6, bp + 1)"
    using note_unfinished [OF s0(1) l0(2)] by blast
  have "yy_next s0 (class_of b) = Some s"
    using unfinished_states [OF s0(1)] class_range [of b] by (auto simp: s0(2) intro!: yy_next_table)
  moreover have "(if b \<noteq> 0 then aget yy_ec (unat b) else Some 1) = Some (class_of b)"
    using yy_ec_table [of b] by (auto simp: class_of_def is_hex_def)
  moreover have "s0 \<in> {6, 9, 10, 11}" if "s \<in> {9, 10, 11}"
    using that unfinished_states [OF s0(1)] by (auto simp: s0(2) delta_def split: if_splits)
  ultimately show ?case
    using l0 l by (auto simp: previous_state_append last_ok_def)
qed

section \<open>The buffer\<close>

text \<open>
  From index \<open>bp\<close> on the buffer holds the bytes \<open>bs\<close>, then the two zero bytes that mark its end; one
  more byte would fit.
\<close>

definition holds :: "yyguts \<Rightarrow> nat \<Rightarrow> u8 list \<Rightarrow> bool" where
  "holds g bp bs \<longleftrightarrow> (\<exists>pre junk. yy_ch_buf g = pre @ bs @ 0 # 0 # junk \<and> length pre = bp) \<and>
     yy_n_chars g = bp + length bs \<and> length (yy_ch_buf g) = yy_buf_size g + 2 \<and> yy_n_chars g < yy_buf_size g \<and>
     (yy_buffer_status g = YY_BUFFER_NEW \<longrightarrow> b_n_chars g = yy_n_chars g)"

text \<open>Between two tokens the first of these bytes is kept aside.\<close>

definition waiting :: "yyguts \<Rightarrow> u8 list \<Rightarrow> bool" where
  "waiting g bs \<longleftrightarrow> (\<exists>g'. unhold g (yy_c_buf_p g) = Some g' \<and> holds g' (yy_c_buf_p g) bs)"

lemma holdsE:
  assumes "holds g bp bs"
  obtains pre junk where "yy_ch_buf g = pre @ bs @ 0 # 0 # junk" "length pre = bp"
    "yy_n_chars g = bp + length bs" "length (yy_ch_buf g) = yy_buf_size g + 2" "yy_n_chars g < yy_buf_size g"
    "yy_buffer_status g = YY_BUFFER_NEW \<Longrightarrow> b_n_chars g = yy_n_chars g"
  using assms unfolding holds_def by blast

lemma holds_drop: "holds g bp (xs @ ys) \<Longrightarrow> holds g (bp + length xs) ys"
proof -
  assume h: "holds g bp (xs @ ys)"
  then obtain pre junk where "yy_ch_buf g = pre @ (xs @ ys) @ 0 # 0 # junk" "length pre = bp" by (rule holdsE)
  then have "yy_ch_buf g = (pre @ xs) @ ys @ 0 # 0 # junk \<and> length (pre @ xs) = bp + length xs" by simp
  with h show ?thesis unfolding holds_def by (metis (no_types, lifting) add.assoc length_append)
qed

lemma holds_same:
  assumes "yy_ch_buf g' = yy_ch_buf g" "yy_n_chars g' = yy_n_chars g" "yy_buf_size g' = yy_buf_size g"
    "yy_buffer_status g' = YY_BUFFER_NEW \<Longrightarrow> b_n_chars g' = b_n_chars g \<and> yy_buffer_status g = YY_BUFFER_NEW"
  shows "holds g bp bs \<Longrightarrow> holds g' bp bs"
  using assms by (auto simp: holds_def)

lemma holds_drop_buf: "holds g bp bs \<Longrightarrow> \<exists>junk. drop bp (yy_ch_buf g) = bs @ 0 # 0 # junk"
  by (auto simp: holds_def)

text \<open>Setting up the token: what \<open>YY_DO_BEFORE_ACTION\<close> puts aside can be put back.\<close>

lemma before_action:
  assumes "holds g bp bs" "n \<le> Suc (length bs)"
  shows "\<exists>g'. YY_DO_BEFORE_ACTION g (bp + n) bp = Some g' \<and>
    yytext_ptr g' = bp \<and> yyleng g' = n \<and> yy_c_buf_p g' = bp + n \<and> yy_last_accepting g' = yy_last_accepting g \<and>
    yy_n_chars g' = yy_n_chars g \<and> b_n_chars g' = b_n_chars g \<and> yy_buffer_status g' = yy_buffer_status g \<and>
    take n (drop bp (yy_ch_buf g')) = take n (bs @ [0]) \<and>
    unhold g' (bp + n) = Some (g'\<lparr>yy_ch_buf := yy_ch_buf g\<rparr>) \<and> holds (g'\<lparr>yy_ch_buf := yy_ch_buf g\<rparr>) bp bs"
proof -
  obtain pre junk where g: "yy_ch_buf g = pre @ bs @ 0 # 0 # junk" "length pre = bp" using assms(1) by (rule holdsE)
  have i: "bp + n < length (yy_ch_buf g)" using g assms(2) by simp
  let ?g = "g\<lparr>yytext_ptr := bp, yyleng := n, yy_hold_char := yy_ch_buf g ! (bp + n),
    yy_ch_buf := (yy_ch_buf g)[bp + n := 0], yy_c_buf_p := bp + n\<rparr>"
  have "YY_DO_BEFORE_ACTION g (bp + n) bp = Some ?g" using i by (simp add: YY_DO_BEFORE_ACTION_def)
  moreover have "take n (drop bp (yy_ch_buf ?g)) = take n (bs @ [0])"
    using g assms(2) by (simp add: list_update_append take_Cons' split: nat.split) auto
  moreover have "unhold ?g (bp + n) = Some (?g\<lparr>yy_ch_buf := yy_ch_buf g\<rparr>)"
    using i by (simp add: unhold_def)
  moreover have "holds (?g\<lparr>yy_ch_buf := yy_ch_buf g\<rparr>) bp bs"
    using assms(1) by (rule holds_same [rotated -1]) simp_all
  ultimately show ?thesis by (intro exI [of _ ?g]) simp
qed

text \<open>
  The token of a packet. Its checksum can be read whatever the memory contains, so what the analysis leaves
  in the buffer depends on the token only; nothing behind the token changes.
\<close>

definition is_frame :: "u8 list \<Rightarrow> bool" where
  "is_frame tx \<longleftrightarrow> (\<exists>t x y. tx = dollar # t @ [hash, x, y] \<and> is_hex x \<and> is_hex y)"

lemma frame_body_frame: "frame_body bs = Some n \<Longrightarrow> \<exists>t x y u. bs = t @ hash # x # y # u \<and> n = length t + 3 \<and> is_hex x \<and> is_hex y"
proof (induction bs arbitrary: n)
  case (Cons b bs)
  show ?case
  proof (cases "b = hash")
    case True
    with Cons.prems obtain x y u where "bs = x # y # u" "is_hex x" "is_hex y" "n = 3"
      by (auto split: list.splits if_splits)
    with True show ?thesis by (intro exI [of _ "[]"] exI [of _ x] exI [of _ y] exI [of _ u]) simp
  next
    case False
    with Cons.prems obtain m where m: "frame_body bs = Some m" "n = Suc m" by (auto split: if_splits)
    from Cons.IH [OF m(1)] obtain t x y u where "bs = t @ hash # x # y # u" "m = length t + 3" "is_hex x" "is_hex y" by blast
    with m(2) show ?thesis by (intro exI [of _ "b # t"] exI [of _ x] exI [of _ y] exI [of _ u]) simp
  qed
qed simp

lemma frame_token:
  assumes "fst (next_token bs) = 3"
  shows "is_frame (take (snd (next_token bs)) bs)"
proof -
  obtain rest n where bs: "bs = dollar # rest" "frame_body rest = Some n" "snd (next_token bs) = n + 1"
    using assms by (auto simp: next_token_def split: list.splits if_splits option.splits)
  from frame_body_frame [OF bs(2)] obtain t x y u where "rest = t @ hash # x # y # u" "n = length t + 3" "is_hex x" "is_hex y"
    by blast
  moreover from this bs(1,3) have "bs = (dollar # t @ [hash, x, y]) @ u" "snd (next_token bs) = length (dollar # t @ [hash, x, y])"
    by simp_all
  then have "take (snd (next_token bs)) bs = dollar # t @ [hash, x, y]" by (metis append_eq_conv_conj)
  ultimately show ?thesis unfolding is_frame_def by blast
qed

lemma hex_digit_scans:
  assumes "is_hex x"
  shows "\<exists>d < 16. digit_value x = Some d" "\<not> is_space x" "x \<noteq> 0" "x \<noteq> 45" "x \<noteq> 43" "x \<noteq> 120" "x \<noteq> 88"
proof -
  show "\<exists>d < 16. digit_value x = Some d"
    using assms by (auto simp: is_hex_def digit_value_def word_le_nat_alt)
qed (use assms in \<open>auto simp: is_hex_def is_space_def word_le_nat_alt\<close>)

lemma checksum_digits:
  assumes "is_hex x" "is_hex y"
  shows "\<exists>v. \<forall>a. sscanf_x (x # y # 0 # rest) a = Some v"
proof -
  note hx = hex_digit_scans [OF assms(1)] and hy = hex_digit_scans [OF assms(2)]
  obtain d e where d: "digit_value x = Some d" "d < 16" "digit_value y = Some e" "e < 16" using hx(1) hy(1) by blast
  have "cstr (x # y # 0 # rest) = Some [x, y]" using hx(3) hy(3) by (simp add: cstr_def)
  moreover have "16 * d + e < 2 ^ 32" using d(2,4) by simp
  then have "\<exists>v. scan_x 32 (Suc (Suc 0)) [x, y] = Some (Some (v, []))"
    using hx hy d by (simp add: scan_x_def Let_def)
  ultimately show ?thesis by (auto simp: sscanf_x_def)
qed

lemma analysed_frame:
  assumes "is_frame tx"
  shows "\<exists>tx'. length tx' = length tx \<and> (\<forall>u. analysed_packet u (tx @ 0 # rest) (length tx) = Some (tx' @ 0 # rest))"
proof -
  obtain t x y where tx: "tx = dollar # t @ [hash, x, y]" "is_hex x" "is_hex y" using assms by (auto simp: is_frame_def)
  obtain v where v: "\<And>a. sscanf_x (x # y # 0 # rest) a = Some v" using checksum_digits [OF tx(2,3)] by blast
  let ?i = "Suc (length t)"
  have i: "max 1 (length tx - 3) = ?i" "?i < length tx" by (simp_all add: tx(1))
  have "drop (?i + 1) (tx @ 0 # rest) = x # y # 0 # rest" by (simp add: tx(1))
  moreover have "aset (tx @ 0 # rest) ?i 0 = Some (tx[?i := 0] @ 0 # rest)" using i(2) by (simp add: list_update_append)
  ultimately have "analysed_packet u (tx @ 0 # rest) (length tx) =
      Some ((if ucast (packet_sum (tx @ 0 # rest) ?i) = v then tx[?i := 0] else tx) @ 0 # rest)" for u
    using i v by (simp add: analysed_packet_def Let_def)
  then show ?thesis
    by (intro exI [of _ "if ucast (packet_sum (tx @ 0 # rest) ?i) = v then tx[?i := 0] else tx"]) simp
qed

text \<open>
  A recognised token: its action runs on it, with what the buffer holds behind it, and the scanner waits
  behind it.
\<close>

lemma find_token:
  assumes "holds g bp bs" "chosen s cp (yy_last_accepting g) = Some (r, bp + n)" "0 < r" "r < 6" "n \<le> length bs"
    "r = 3 \<Longrightarrow> is_frame (take n bs)"
  shows "\<exists>g' tail. waiting g' (drop n bs) \<and> yy_buffer_status g' = yy_buffer_status g \<and>
    (\<forall>d. yy_step rd alloc junk_of fuel (Find_action s cp bp) g d w =
      and_then (yy_action junk_of fuel r (take n bs) tail d) (\<lambda>d'. Some (Continue (Goto Scan g' d' w))))"
proof -
  obtain pre junk where pre: "yy_ch_buf g = pre @ bs @ 0 # 0 # junk" "length pre = bp"
    and h: "yy_n_chars g = bp + length bs" "length (yy_ch_buf g) = yy_buf_size g + 2" "yy_n_chars g < yy_buf_size g"
      "yy_buffer_status g = YY_BUFFER_NEW \<longrightarrow> b_n_chars g = yy_n_chars g" using assms(1) unfolding holds_def by blast
  obtain c tail where c: "drop n bs @ 0 # 0 # junk = c # tail" by (cases "drop n bs") auto
  have buf: "yy_ch_buf g = pre @ take n bs @ c # tail"
    using pre(1) c append_take_drop_id [of n bs] by (metis append.assoc)
  have n: "length (take n bs) = n" using assms(5) by simp
  define G where "G tx = g\<lparr>yytext_ptr := bp, yyleng := n, yy_hold_char := c, yy_ch_buf := pre @ tx @ 0 # tail, yy_c_buf_p := bp + n\<rparr>"
    for tx
  have start: "YY_DO_BEFORE_ACTION g (bp + n) bp = Some (G (take n bs))"
    using buf pre(2) n by (simp add: YY_DO_BEFORE_ACTION_def G_def list_update_append nth_append)
  have wait: "waiting (G tx) (drop n bs)" if "length tx = n" for tx
  proof -
    have put: "unhold (G tx) (bp + n) = Some ((G tx)\<lparr>yy_ch_buf := pre @ tx @ c # tail\<rparr>)"
      using that pre(2) by (simp add: unhold_def G_def list_update_append)
    have "\<exists>xs zs. pre @ tx @ c # tail = xs @ drop n bs @ 0 # 0 # zs \<and> length xs = bp + n"
      using that pre(2) by (intro exI [of _ "pre @ tx"] exI [of _ junk]) (simp add: c)
    moreover have "length (pre @ tx @ c # tail) = yy_buf_size g + 2" using h(2) buf that n by simp
    ultimately have "holds ((G tx)\<lparr>yy_ch_buf := pre @ tx @ c # tail\<rparr>) (bp + n) (drop n bs)"
      unfolding holds_def using h(1,3,4) assms(5) by (simp add: G_def)
    with put show ?thesis by (auto simp: waiting_def G_def)
  qed
  have "\<exists>tx. length tx = n \<and> (\<forall>d. yy_written junk_of r d (G (take n bs)) = Some (G tx))"
  proof (cases "r = 3")
    case True
    from analysed_frame [OF assms(6) [OF True], of tail] obtain tx where
      "length tx = n" "\<And>u. analysed_packet u (take n bs @ 0 # tail) n = Some (tx @ 0 # tail)" using n by auto
    with True pre(2) show ?thesis by (intro exI [of _ tx]) (simp add: yy_written_def G_def)
  next
    case False
    with n show ?thesis by (intro exI [of _ "take n bs"]) (simp add: yy_written_def)
  qed
  then obtain tx where tx: "length tx = n" "\<And>d. yy_written junk_of r d (G (take n bs)) = Some (G tx)" by blast
  have "yy_step rd alloc junk_of fuel (Find_action s cp bp) g d w =
      and_then (yy_action junk_of fuel r (take n bs) tail d) (\<lambda>d'. Some (Continue (Goto Scan (G tx) d' w)))" for d
  proof -
    obtain a where a: "aget yy_accept s = Some a" "a \<noteq> 0 \<Longrightarrow> (a, cp) = (r, bp + n)"
      "a = 0 \<Longrightarrow> aget yy_accept (fst (yy_last_accepting g)) = Some r \<and> snd (yy_last_accepting g) = bp + n"
      using assms(2) by (auto simp: chosen_def bind_eq_Some_conv split: if_splits)
    have act: "(if a = 0 then do { x \<leftarrow> aget yy_accept (fst (yy_last_accepting g)); Some (x, snd (yy_last_accepting g)) }
      else Some (a, cp)) = Some (r, bp + n)" using a by auto
    have "yyleng (G (take n bs)) = n" "take n (drop bp (yy_ch_buf (G (take n bs)))) = take n bs"
      "drop (bp + n + 1) (yy_ch_buf (G (take n bs))) = tail"
      using pre(2) n by (simp_all add: G_def)
    with a(1) act show ?thesis
      using start tx(2) assms(3,4) by (simp add: yy_step_def yy_find_action_def)
  qed
  moreover have "yy_buffer_status (G tx) = yy_buffer_status g" by (simp add: G_def)
  ultimately show ?thesis using wait [OF tx(1)] by blast
qed

text \<open>The state recomputed from the token so far.\<close>

lemma recompute:
  assumes "holds g bp (xs @ ys)" "yytext_ptr g = bp" "yy_c_buf_p g = bp + length xs" "unfinished xs s"
  shows "\<exists>l. yy_get_previous_state g = Some (s, g\<lparr>yy_last_accepting := l\<rparr>) \<and> last_ok s bp l"
proof -
  obtain pre junk where g: "yy_ch_buf g = pre @ (xs @ ys) @ 0 # 0 # junk" "length pre = bp" using assms(1) by (rule holdsE)
  obtain l where "previous_state xs bp 1 (yy_last_accepting g) = Some (s, l)" "last_ok s bp l"
    using previous_state_unfinished [OF assms(4)] by blast
  with g assms(2,3) show ?thesis by (intro exI [of _ l]) (simp add: yy_get_previous_state_def)
qed

definition pending_end :: "yyguts \<Rightarrow> bool" where
  "pending_end g \<longleftrightarrow> yy_buffer_status g = YY_BUFFER_EOF_PENDING"

lemma status_defs: "YY_BUFFER_NEW = 0" "YY_BUFFER_NORMAL = 1" "YY_BUFFER_EOF_PENDING = 2"
  by (simp_all add: YY_BUFFER_NEW_def YY_BUFFER_NORMAL_def YY_BUFFER_EOF_PENDING_def)

text \<open>The start of the end-of-buffer case, after the matching loop met a zero byte behind \<open>xs\<close>.\<close>

lemma enter_end_of_buffer:
  assumes h: "holds g bp bs" and l: "yy_last_accepting g = (3, bp + k + 1)" and k: "k \<le> length bs"
  shows "\<exists>g'. holds g' bp bs \<and> yytext_ptr g' = bp \<and> yy_c_buf_p g' = bp + k + 1 \<and> yy_n_chars g' = bp + length bs \<and>
    pending_end g' = pending_end g \<and> yy_buffer_status g' \<noteq> YY_BUFFER_NEW \<and>
    yy_last_accepting g' = yy_last_accepting g \<and>
    (\<forall>d. yy_step rd alloc junk_of fuel (Find_action 13 cp bp) g d w =
      (if k < length bs then yy_real_NUL k g' d w else yy_refill rd alloc fuel k g' d w))"
proof -
  obtain g1 where g1: "YY_DO_BEFORE_ACTION g (bp + (k + 1)) bp = Some g1" "yytext_ptr g1 = bp" "yyleng g1 = k + 1"
    "yy_c_buf_p g1 = bp + (k + 1)" "yy_last_accepting g1 = yy_last_accepting g" "yy_n_chars g1 = yy_n_chars g"
    "b_n_chars g1 = b_n_chars g" "yy_buffer_status g1 = yy_buffer_status g"
    "unhold g1 (bp + (k + 1)) = Some (g1\<lparr>yy_ch_buf := yy_ch_buf g\<rparr>)" "holds (g1\<lparr>yy_ch_buf := yy_ch_buf g\<rparr>) bp bs"
    using before_action [OF h, of "k + 1"] k by auto
  let ?g2 = "g1\<lparr>yy_ch_buf := yy_ch_buf g\<rparr>"
  define g' where "g' = (if yy_buffer_status ?g2 = YY_BUFFER_NEW
    then ?g2\<lparr>yy_n_chars := b_n_chars ?g2, yy_buffer_status := YY_BUFFER_NORMAL\<rparr> else ?g2)"
  have n: "yy_n_chars g = bp + length bs" "yy_buffer_status g = YY_BUFFER_NEW \<Longrightarrow> b_n_chars g = yy_n_chars g"
    using h by (simp_all add: holds_def)
  have hg: "holds g' bp bs" using g1(6-8,10) n by (auto simp: g'_def holds_def status_defs)
  have same: "yytext_ptr g' = bp" "yy_c_buf_p g' = bp + k + 1" "yy_n_chars g' = bp + length bs"
    "pending_end g' = pending_end g" "yy_buffer_status g' \<noteq> YY_BUFFER_NEW" "yy_last_accepting g' = yy_last_accepting g"
    using g1 n by (auto simp: g'_def pending_end_def status_defs)
  have "yy_step rd alloc junk_of fuel (Find_action 13 cp bp) g d w =
      yy_end_of_buffer rd alloc fuel (bp + (k + 1)) g1 d w" for d
    using l g1(1) by (simp add: yy_step_def yy_find_action_def)
  moreover have "yy_end_of_buffer rd alloc fuel (bp + (k + 1)) g1 d w =
      (if yy_c_buf_p g' \<le> yy_n_chars g' then yy_real_NUL k g' d w else yy_refill rd alloc fuel k g' d w)" for d
    unfolding yy_end_of_buffer_def g1(9) Option.bind.bind_lunit Let_def g'_def [symmetric] g1(2) by simp
  ultimately show ?thesis
    using hg same by (intro exI [of _ g']) auto
qed

lemma real_zero:
  assumes h: "holds g bp (xs @ 0 # ys)" and s: "unfinished xs s" and l: "yy_last_accepting g = (3, bp + length xs + 1)"
  shows "\<exists>g'. holds g' bp (xs @ 0 # ys) \<and> pending_end g' = pending_end g \<and>
    ((\<exists>s2. unfinished (xs @ [0]) s2 \<and> last_ok s2 bp (yy_last_accepting g') \<and>
       (\<forall>d. yy_step rd alloc junk_of fuel (Find_action 13 cp bp) g d w =
         Some (Continue (Goto (Match s2 (bp + length (xs @ [0])) bp) g' d w)))) \<or>
     (\<exists>cp'. (\<forall>u. chosen s cp' (yy_last_accepting g') = Some (token_at bp (xs @ 0 # u))) \<and>
       (\<forall>d. yy_step rd alloc junk_of fuel (Find_action 13 cp bp) g d w =
         Some (Continue (Goto (Find_action s cp' bp) g' d w)))))"
proof -
  obtain g1 where g1: "holds g1 bp (xs @ 0 # ys)" "yytext_ptr g1 = bp" "yy_c_buf_p g1 = bp + length xs + 1"
    "yy_n_chars g1 = bp + length (xs @ 0 # ys)" "pending_end g1 = pending_end g" "yy_buffer_status g1 \<noteq> YY_BUFFER_NEW"
    "\<And>d. yy_step rd alloc junk_of fuel (Find_action 13 cp bp) g d w = yy_real_NUL (length xs) g1 d w"
    using enter_end_of_buffer [OF h l, of rd alloc junk_of fuel cp w] by auto
  let ?g = "g1\<lparr>yy_c_buf_p := bp + length xs\<rparr>"
  have hg: "holds (g1\<lparr>yy_c_buf_p := i, yy_last_accepting := j\<rparr>) bp (xs @ 0 # ys)" for i :: nat and j
    using g1(1) by (rule holds_same [rotated -1]) simp_all
  have "holds ?g bp (xs @ 0 # ys)" using g1(1) by (rule holds_same [rotated -1]) simp_all
  from recompute [OF this _ _ s] g1(2) obtain l1 where l1: "last_ok s bp l1"
    "yy_get_previous_state ?g = Some (s, ?g\<lparr>yy_last_accepting := l1\<rparr>)" by auto
  obtain l2 where l2: "note_accept s (bp + length xs) l1 = Some l2"
    "s \<noteq> 1 \<longrightarrow> snd l2 = bp + 1 \<and> aget yy_accept (fst l2) = Some 4" "s \<in> {6, 9, 10, 11} \<longrightarrow> l2 = (6, bp + 1)"
    using note_unfinished [OF s l1(1)] by blast
  define s2 where "s2 = delta s (class_of 0)"
  have "class_of 0 = 1" by (simp add: class_of_def is_hex_def)
  then have "yy_next s 1 = Some s2"
    using unfinished_states [OF s] by (auto simp: s2_def intro!: yy_next_table)
  then have nul: "yy_try_NUL_trans s (?g\<lparr>yy_last_accepting := l1\<rparr>) =
      Some (if s2 = 13 then 0 else s2, g1\<lparr>yy_c_buf_p := bp + length xs, yy_last_accepting := l2\<rparr>)"
    using l2(1) by (simp add: yy_try_NUL_trans_def)
  have on: "\<exists>g'. holds g' bp (xs @ 0 # ys) \<and> pending_end g' = pending_end g \<and> yy_last_accepting g' = l2 \<and>
      (\<forall>d. yy_step rd alloc junk_of fuel (Find_action 13 cp bp) g d w =
        Some (Continue (Goto (Match s2 (bp + length (xs @ [0])) bp) g' d w)))" if "s2 \<noteq> 13" "s2 \<noteq> 0"
    using that g1(2,5,7) l1(2) nul hg [of l2 "bp + length xs + 1"]
    by (intro exI [of _ "g1\<lparr>yy_c_buf_p := bp + length xs + 1, yy_last_accepting := l2\<rparr>"])
      (simp add: yy_real_NUL_def Let_def pending_end_def)
  have stop: "\<exists>g'. holds g' bp (xs @ 0 # ys) \<and> pending_end g' = pending_end g \<and> yy_last_accepting g' = l2 \<and>
      (\<forall>d. yy_step rd alloc junk_of fuel (Find_action 13 cp bp) g d w =
        Some (Continue (Goto (Find_action s (bp + length xs) bp) g' d w)))" if "s2 = 13"
    using that g1(2,5,7) l1(2) nul hg [of l2 "bp + length xs"]
    by (intro exI [of _ "g1\<lparr>yy_c_buf_p := bp + length xs, yy_last_accepting := l2\<rparr>"])
      (simp add: yy_real_NUL_def Let_def pending_end_def)
  from s show ?thesis
  proof (cases rule: unfinished_step [where b = 0])
    case more
    then have "s2 \<noteq> 13" "s2 \<noteq> 0" by (auto simp: s2_def)
    have "s \<in> {6, 9, 10, 11}" if "s2 \<in> {9, 10, 11}"
      using that unfinished_states [OF s] by (auto simp: s2_def delta_def split: if_splits)
    then have "last_ok s2 bp l2" using l2(3) by (auto simp: last_ok_def)
    with more on [OF \<open>s2 \<noteq> 13\<close> \<open>s2 \<noteq> 0\<close>] show ?thesis unfolding s2_def [symmetric] by blast
  next
    case short
    then have s2: "s2 = 4" by (simp add: s2_def)
    then have "s2 \<noteq> 13" "s2 \<noteq> 0" by simp_all
    moreover have "unfinished (xs @ [0]) 4" "last_ok 4 bp l2" using short(1) by (simp_all add: unfinished_def last_ok_def)
    ultimately show ?thesis using on [OF \<open>s2 \<noteq> 13\<close> \<open>s2 \<noteq> 0\<close>] unfolding s2 by blast
  next
    case frame
    then show ?thesis by (simp add: delta_states is_hex_def)
  next
    case error
    then have "chosen s (bp + length xs) l2 = Some (token_at bp (xs @ 0 # u))" for u
      using l2(2) length_unfinished [OF s] unfinished_states [OF s]
      by (auto simp: chosen_def token_at_def)
    with stop error(1) show ?thesis unfolding s2_def [symmetric] by blast
  qed
qed

section \<open>The refill\<close>

lemma length_resize: "(\<And>n. length (alloc n) = n) \<Longrightarrow> length (resize alloc buf n) = n"
  by (simp add: resize_def min_def)

lemma take_resize: "k \<le> length buf \<Longrightarrow> length buf \<le> n \<Longrightarrow> take k (resize alloc buf n) = take k buf"
  by (simp add: resize_def)

lemma finish_buffer_holds:
  assumes "yy_ch_buf g = bs @ rest" "length (yy_ch_buf g) = yy_buf_size g + 2" "length bs < yy_buf_size g"
    "yy_n_chars g + move = length bs" "yy_buffer_status g \<noteq> YY_BUFFER_NEW"
  shows "\<exists>g'. finish_buffer alloc move g = Some g' \<and> holds g' 0 bs \<and> yytext_ptr g' = 0 \<and>
    yy_buffer_status g' = yy_buffer_status g"
proof -
  obtain x y junk where rest: "rest = x # y # junk"
    using assms(1-3) by (cases rest; cases "tl rest") auto
  have "(bs @ x # y # junk)[length bs := 0, length bs + 1 := 0] = bs @ 0 # 0 # junk"
    by (simp add: list_update_append)
  then show ?thesis
    using assms rest by (simp add: finish_buffer_def Let_def holds_def)
qed

lemma move_token_holds:
  assumes "holds g bp xs" "yytext_ptr g = bp"
  shows "move_token g (length xs) = Some (g\<lparr>yy_ch_buf := xs @ drop (length xs) (yy_ch_buf g)\<rparr>)"
    "length xs + 2 \<le> length (yy_ch_buf g)"
  using assms by (auto simp: move_token_def elim!: holdsE)

lemma grow_loop_room:
  assumes "\<And>n. length (alloc n) = n" "length (yy_ch_buf g) = yy_buf_size g + 2" "move < yy_buf_size g"
  shows "\<exists>g'. grow_loop alloc 2 move g = Some g' \<and> length (yy_ch_buf g') = yy_buf_size g' + 2 \<and>
    0 < yy_buf_size g' - move - 1 \<and> take move (yy_ch_buf g') = take move (yy_ch_buf g) \<and>
    yy_buffer_status g' = yy_buffer_status g \<and> yytext_ptr g' = yytext_ptr g"
proof (cases "yy_buf_size g - move - 1 = 0")
  case False
  with assms show ?thesis by (simp add: numeral_2_eq_2)
next
  case True
  let ?n = "2 * yy_buf_size g"
  have "grow_loop alloc 2 move g =
      Some (g\<lparr>yy_buf_size := ?n, yy_ch_buf := resize alloc (yy_ch_buf g) (?n + 2)\<rparr>)"
    using True assms(3) by (simp add: numeral_2_eq_2 Let_def)
  then show ?thesis
    using assms(3) length_resize [OF assms(1)] take_resize [of move "yy_ch_buf g" "?n + 2" alloc] assms(2)
    by simp
qed

locale scanner_input = byte_reader +
  fixes alloc :: "nat \<Rightarrow> u8 list" and fuel :: nat
  assumes alloc_length: "length (alloc n) = n"
begin

lemma yy_input_content:
  "ready w \<Longrightarrow> delay w < f \<Longrightarrow> 0 < n \<Longrightarrow>
   \<exists>bs w'. yy_input rd f w n = Some (Continue (bs, w')) \<and> ready w' \<and> content w = bs @ content w' \<and>
     length bs \<le> n \<and> (bs = [] \<longrightarrow> content w = []) \<and> delay w' \<le> delay w"
proof (induction f arbitrary: w)
  case (Suc f)
  from Suc.prems(1,3) show ?case
  proof (cases rule: read_stepE)
    case (got b bs w')
    then show ?thesis by auto
  next
    case (eof w')
    then show ?thesis by auto
  next
    case (interrupted w')
    from Suc.IH [OF this(2)] Suc.prems interrupted show ?thesis by fastforce
  qed
qed simp

lemma fill_buffer_content:
  assumes "yy_ch_buf g = xs @ rest" "length (yy_ch_buf g) = yy_buf_size g + 2" "length xs < yy_buf_size g"
    "ready w" "delay w < fuel"
  shows "\<exists>g' bs w' rest'. fill_buffer rd alloc fuel (length xs) g w = Some (Continue (g', w')) \<and>
    yy_ch_buf g' = xs @ bs @ rest' \<and> yy_n_chars g' = length bs \<and> yy_buffer_status g' = yy_buffer_status g \<and>
    length (yy_ch_buf g') = yy_buf_size g' + 2 \<and> length (xs @ bs) < yy_buf_size g' \<and>
    ready w' \<and> content w = bs @ content w' \<and> (bs = [] \<longrightarrow> content w = []) \<and> delay w' \<le> delay w"
proof -
  obtain g1 where g1: "grow_loop alloc 2 (length xs) g = Some g1" "length (yy_ch_buf g1) = yy_buf_size g1 + 2"
    "0 < yy_buf_size g1 - length xs - 1" "take (length xs) (yy_ch_buf g1) = xs"
    "yy_buffer_status g1 = yy_buffer_status g"
    using grow_loop_room [OF alloc_length assms(2,3)] assms(1) by auto
  let ?n = "min (yy_buf_size g1 - length xs - 1) YY_READ_BUF_SIZE"
  have "0 < ?n" using g1(3) by (simp add: YY_READ_BUF_SIZE_def)
  from yy_input_content [OF assms(4,5) this] obtain bs w' where
    io: "yy_input rd fuel w ?n = Some (Continue (bs, w'))" "ready w'" "content w = bs @ content w'"
      "length bs \<le> ?n" "bs = [] \<longrightarrow> content w = []" "delay w' \<le> delay w" by blast
  have room: "length xs + length bs < yy_buf_size g1" using io(4) g1(3) by linarith
  have "xs @ drop (length xs) (yy_ch_buf g1) = yy_ch_buf g1"
    using g1(4) append_take_drop_id [of "length xs" "yy_ch_buf g1"] by simp
  then obtain rest' where "put_bytes (yy_ch_buf g1) (length xs) bs = Some (xs @ bs @ rest')"
    "length (xs @ bs @ rest') = length (yy_ch_buf g1)"
    using room g1(2,4) by (simp add: put_bytes_def)
  with g1 io room show ?thesis
    by (intro exI [of _ "g1\<lparr>yy_ch_buf := xs @ bs @ rest', yy_n_chars := length bs, b_n_chars := length bs\<rparr>"]
        exI [of _ bs] exI [of _ w'] exI [of _ rest']) (simp add: fill_buffer_def Let_def)
qed

lemma get_next_buffer_content:
  assumes h: "holds g bp xs" and p: "yytext_ptr g = bp" "yy_c_buf_p g = bp + length xs + 1"
    and st: "yy_buffer_status g \<noteq> YY_BUFFER_NEW" "pending_end g \<longrightarrow> content w = []"
    and w: "ready w" "delay w < fuel"
  shows "\<exists>ret g' w'. yy_get_next_buffer rd alloc fuel g w = Some (Continue (ret, g', w')) \<and> ready w' \<and> delay w' \<le> delay w \<and>
    (content w = [] \<and> content w' = [] \<and> xs = [] \<and> ret = END_OF_FILE \<or>
     content w = [] \<and> content w' = [] \<and> xs \<noteq> [] \<and> ret = LAST_MATCH \<and> holds g' 0 xs \<and> yytext_ptr g' = 0 \<and> pending_end g' \<or>
     (\<exists>bs. bs \<noteq> [] \<and> content w = bs @ content w' \<and> ret = CONTINUE_SCAN \<and> holds g' 0 (xs @ bs) \<and> yytext_ptr g' = 0 \<and>
       \<not> pending_end g'))"
proof -
  have n: "yy_n_chars g = bp + length xs" "length (yy_ch_buf g) = yy_buf_size g + 2" "yy_n_chars g < yy_buf_size g"
    using h by (simp_all add: holds_def)
  let ?g = "g\<lparr>yy_ch_buf := xs @ drop (length xs) (yy_ch_buf g)\<rparr>"
  have moved: "move_token g (length xs) = Some ?g" "length (yy_ch_buf ?g) = yy_buf_size ?g + 2"
    using move_token_holds [OF h p(1)] n(2) by simp_all
  have fill: "\<exists>g1 bs w1 rest. (if yy_buffer_status ?g = YY_BUFFER_EOF_PENDING
        then Some (Continue (?g\<lparr>yy_n_chars := 0, b_n_chars := 0\<rparr>, w))
        else fill_buffer rd alloc fuel (length xs) ?g w) = Some (Continue (g1, w1)) \<and>
      yy_ch_buf g1 = xs @ bs @ rest \<and> yy_n_chars g1 = length bs \<and> yy_buffer_status g1 = yy_buffer_status g \<and>
      length (yy_ch_buf g1) = yy_buf_size g1 + 2 \<and> length (xs @ bs) < yy_buf_size g1 \<and>
      ready w1 \<and> content w = bs @ content w1 \<and> (bs = [] \<longrightarrow> content w = []) \<and> delay w1 \<le> delay w"
  proof (cases "pending_end g")
    case True
    then show ?thesis
      using st(2) w n moved(2) by (intro exI [of _ "?g\<lparr>yy_n_chars := 0, b_n_chars := 0\<rparr>"] exI [of _ "[]"] exI [of _ w]
          exI [of _ "drop (length xs) (yy_ch_buf g)"]) (simp add: pending_end_def)
  next
    case False
    then show ?thesis
      using fill_buffer_content [of ?g xs "drop (length xs) (yy_ch_buf g)" w] moved(2) n w
      by (simp add: pending_end_def)
  qed
  then obtain g1 bs w1 rest where g1: "(if yy_buffer_status ?g = YY_BUFFER_EOF_PENDING
        then Some (Continue (?g\<lparr>yy_n_chars := 0, b_n_chars := 0\<rparr>, w))
        else fill_buffer rd alloc fuel (length xs) ?g w) = Some (Continue (g1, w1))"
      "yy_ch_buf g1 = xs @ bs @ rest" "yy_n_chars g1 = length bs" "yy_buffer_status g1 = yy_buffer_status g"
      "length (yy_ch_buf g1) = yy_buf_size g1 + 2" "length (xs @ bs) < yy_buf_size g1"
      "ready w1" "content w = bs @ content w1" "bs = [] \<longrightarrow> content w = []" "delay w1 \<le> delay w"
    by blast
  have unfold: "yy_get_next_buffer rd alloc fuel g w = do {
      (ret_val, g2) \<leftarrow> (if length bs = 0 then
          if length xs = 0 then do { g \<leftarrow> yyrestart g1; Some (END_OF_FILE, g) }
          else Some (LAST_MATCH, g1\<lparr>yy_buffer_status := YY_BUFFER_EOF_PENDING\<rparr>)
        else Some (CONTINUE_SCAN, g1));
      g3 \<leftarrow> finish_buffer alloc (length xs) g2;
      Some (Continue (ret_val, g3, w1))
    }"
    unfolding yy_get_next_buffer_def using n(1) p moved(1) g1(1) by (simp add: Let_def g1(3))
  show ?thesis
  proof (cases "bs = []")
    case False
    obtain g2 where "finish_buffer alloc (length xs) g1 = Some g2" "holds g2 0 (xs @ bs)" "yytext_ptr g2 = 0"
      "yy_buffer_status g2 = yy_buffer_status g1"
      using finish_buffer_holds [of g1 "xs @ bs" rest "length xs" alloc] g1(2-6) st(1) by auto
    moreover have "\<not> pending_end g" using False g1(8) st(2) by auto
    ultimately show ?thesis using unfold False g1(4,7,8,10) by (auto simp: pending_end_def)
  next
    case True
    then have c: "content w = []" "content w1 = []" using g1(8,9) by auto
    show ?thesis
    proof (cases "xs = []")
      case False
      let ?g2 = "g1\<lparr>yy_buffer_status := YY_BUFFER_EOF_PENDING\<rparr>"
      obtain g2 where "finish_buffer alloc (length xs) ?g2 = Some g2" "holds g2 0 xs" "yytext_ptr g2 = 0"
        "yy_buffer_status g2 = YY_BUFFER_EOF_PENDING"
        using finish_buffer_holds [of ?g2 xs rest "length xs" alloc] g1(2-6) True by (auto simp: status_defs)
      with unfold True False c g1(7,10) show ?thesis by (auto simp: pending_end_def)
    next
      case nil: True
      have "2 \<le> length (yy_ch_buf g1)" using g1(5) by simp
      then obtain x y junk where "yy_ch_buf g1 = x # y # junk"
        by (metis Suc_le_length_iff numeral_2_eq_2)
      then have "\<exists>g2 g3. yyrestart g1 = Some g2 \<and> finish_buffer alloc 0 g2 = Some g3"
        by (simp add: yyrestart_def yy_flush_buffer_def yy_load_buffer_state_def finish_buffer_def Let_def)
      then obtain g2 g3 where "yyrestart g1 = Some g2" "finish_buffer alloc 0 g2 = Some g3" by blast
      with unfold True nil c g1(7,10) show ?thesis by auto
    qed
  qed
qed

end

section \<open>One token\<close>

lemma frame_body_le: "frame_body bs = Some n \<Longrightarrow> n \<le> length bs"
  by (induction bs arbitrary: n) (auto split: if_splits list.splits)

lemma next_token_range:
  assumes "bs \<noteq> []"
  shows "fst (next_token bs) \<in> {1, 2, 3, 4, 5}" "snd (next_token bs) \<le> length bs"
  using assms by (cases bs; auto simp: next_token_def dest: frame_body_le split: option.split)+

context scanner_input
begin

text \<open>
  From a point of the scanner, with the bytes \<open>bs\<close> still to be scanned: at the end of the stream it
  reports the pending errors and returns; otherwise it runs the action of the next token and waits
  behind it. The number of jumps does not depend on the state of the debugger.
\<close>

definition reads_token :: "(nat \<Rightarrow> gdb_junk) \<Rightarrow> yy_label \<Rightarrow> yyguts \<Rightarrow> 'a \<Rightarrow> u8 list \<Rightarrow> bool" where
  "reads_token jk label g w bs \<longleftrightarrow>
     (if bs = [] then \<exists>k w'. content w' = [] \<and> (\<forall>j d. yylex_loop rd alloc jk fuel (k + j) label g d w =
        and_then (handle_error d) (\<lambda>d'. Some (Continue (d', w'))))
      else \<exists>k g' w' xs tail. waiting g' xs \<and> ready w' \<and> delay w' < fuel \<and> (pending_end g' \<longrightarrow> content w' = []) \<and>
        xs @ content w' = drop (snd (next_token bs)) bs \<and>
        (\<forall>j d. yylex_loop rd alloc jk fuel (k + j) label g d w =
          and_then (yy_action jk fuel (fst (next_token bs)) (take (snd (next_token bs)) bs) tail d)
            (\<lambda>d'. yylex_loop rd alloc jk fuel j Scan g' d' w')))"

lemma reads_jump:
  assumes "\<And>d. yy_step rd alloc jk fuel label g d w = Some (Continue (Goto label' g' d w'))"
    "reads_token jk label' g' w' bs"
  shows "reads_token jk label g w bs"
proof -
  have step: "yylex_loop rd alloc jk fuel (Suc k + j) label g d w = yylex_loop rd alloc jk fuel (k + j) label' g' d w'"
    for k j d using assms(1) by simp
  show ?thesis
  proof (cases "bs = []")
    case True
    with assms(2) obtain k w2 where k: "content w2 = []" "\<And>j d. yylex_loop rd alloc jk fuel (k + j) label' g' d w' =
        and_then (handle_error d) (\<lambda>d'. Some (Continue (d', w2)))" by (auto simp: reads_token_def)
    have "yylex_loop rd alloc jk fuel (Suc k + j) label g d w =
        and_then (handle_error d) (\<lambda>d'. Some (Continue (d', w2)))" for j d
      by (simp only: step k(2))
    with k(1) show ?thesis unfolding reads_token_def if_P [OF True] by blast
  next
    case False
    let ?act = "\<lambda>tail d. yy_action jk fuel (fst (next_token bs)) (take (snd (next_token bs)) bs) tail d"
    from False assms(2) obtain k g2 w2 xs tail where k: "waiting g2 xs" "ready w2" "delay w2 < fuel"
      "pending_end g2 \<longrightarrow> content w2 = []" "xs @ content w2 = drop (snd (next_token bs)) bs"
      "\<And>j d. yylex_loop rd alloc jk fuel (k + j) label' g' d w' =
        and_then (?act tail d) (\<lambda>d'. yylex_loop rd alloc jk fuel j Scan g2 d' w2)"
      unfolding reads_token_def if_not_P [OF False] by blast
    have "yylex_loop rd alloc jk fuel (Suc k + j) label g d w =
        and_then (?act tail d) (\<lambda>d'. yylex_loop rd alloc jk fuel j Scan g2 d' w2)" for j d
      by (simp only: step k(6))
    with k(1-5) False show ?thesis unfolding reads_token_def if_not_P [OF False] by blast
  qed
qed

lemma find_reads:
  assumes h: "holds g bp bs" and c: "chosen s cp (yy_last_accepting g) = Some (token_at bp (bs @ content w))"
    and n: "bs \<noteq> []" "snd (next_token (bs @ content w)) \<le> length bs"
    and w: "ready w" "delay w < fuel" "pending_end g \<longrightarrow> content w = []"
  shows "reads_token jk (Find_action s cp bp) g w (bs @ content w)"
proof -
  let ?t = "next_token (bs @ content w)"
  have t: "0 < fst ?t" "fst ?t < 6" using next_token_range(1) [of "bs @ content w"] n(1) by auto
  have c': "chosen s cp (yy_last_accepting g) = Some (fst ?t, bp + snd ?t)" using c by (simp add: token_at_def)
  have take: "take (snd ?t) (bs @ content w) = take (snd ?t) bs" using n(2) by simp
  have fr: "fst ?t = 3 \<Longrightarrow> is_frame (take (snd ?t) bs)" using frame_token [of "bs @ content w"] unfolding take by blast
  from find_token [OF h c' t n(2) fr, of rd alloc jk fuel w] obtain g' tail where g':
    "waiting g' (drop (snd ?t) bs)" "yy_buffer_status g' = yy_buffer_status g"
    "\<And>d. yy_step rd alloc jk fuel (Find_action s cp bp) g d w =
      and_then (yy_action jk fuel (fst ?t) (take (snd ?t) bs) tail d) (\<lambda>d'. Some (Continue (Goto Scan g' d' w)))"
    by blast
  have "yylex_loop rd alloc jk fuel (1 + j) (Find_action s cp bp) g d w =
      and_then (yy_action jk fuel (fst ?t) (take (snd ?t) (bs @ content w)) tail d)
        (\<lambda>d'. yylex_loop rd alloc jk fuel j Scan g' d' w)" for j d
    using g'(3) [of d] unfolding take
    by (cases "yy_action jk fuel (fst ?t) (take (snd ?t) bs) tail d"; cases "the (yy_action jk fuel (fst ?t) (take (snd ?t) bs) tail d)")
      simp_all
  moreover have "drop (snd ?t) bs @ content w = drop (snd ?t) (bs @ content w)" using n(2) by simp
  moreover have "pending_end g' \<longrightarrow> content w = []" using w(3) g'(2) by (simp add: pending_end_def)
  moreover have ne: "bs @ content w \<noteq> []" using n(1) by simp
  ultimately show ?thesis using g'(1) w(1,2) unfolding reads_token_def if_not_P [OF ne] by blast
qed

lemma find_reads_stop:
  assumes "holds g bp (ys @ b # zs)" "\<forall>u. chosen s cp (yy_last_accepting g) = Some (token_at bp (ys @ b # u))"
    "ready w" "delay w < fuel" "pending_end g \<longrightarrow> content w = []"
  shows "reads_token jk (Find_action s cp bp) g w ((ys @ b # zs) @ content w)"
proof (rule find_reads [OF assms(1)])
  show "chosen s cp (yy_last_accepting g) = Some (token_at bp ((ys @ b # zs) @ content w))"
    using assms(2) by simp
  have "token_at bp (ys @ b # zs @ content w) = token_at bp (ys @ [b])"
    using assms(2) by (metis option.inject)
  then have "snd (next_token ((ys @ b # zs) @ content w)) = snd (next_token (ys @ [b]))"
    by (simp add: token_at_def)
  then show "snd (next_token ((ys @ b # zs) @ content w)) \<le> length (ys @ b # zs)"
    using next_token_range(2) [of "ys @ [b]"] by simp
qed (use assms in auto)

lemma match_jump:
  assumes "yy_match (drop cp (yy_ch_buf g)) cp s (yy_last_accepting g) = Some (s', cp', l)"
    "reads_token jk (Find_action s' cp' bp) (g\<lparr>yy_last_accepting := l\<rparr>) w bs"
  shows "reads_token jk (Match s cp bp) g w bs"
  using assms by (intro reads_jump [OF _ assms(2)]) (simp add: yy_step_def)


lemma refill_reads:
  assumes h: "holds g bp xs" and s: "unfinished xs s" and l: "yy_last_accepting g = (3, bp + length xs + 1)"
    and w: "ready w" "delay w < fuel" "pending_end g \<longrightarrow> content w = []"
    and more: "\<And>g' w' bs l. bs \<noteq> [] \<Longrightarrow> content w = bs @ content w' \<Longrightarrow> holds g' 0 (xs @ bs) \<Longrightarrow>
      last_ok s 0 (yy_last_accepting g') \<Longrightarrow> ready w' \<Longrightarrow> delay w' < fuel \<Longrightarrow> \<not> pending_end g' \<Longrightarrow>
      reads_token jk (Match s (length xs) 0) g' w' (xs @ content w)"
  shows "reads_token jk (Find_action 13 cp bp) g w (xs @ content w)"
proof -
  obtain g1 where g1: "holds g1 bp xs" "yytext_ptr g1 = bp" "yy_c_buf_p g1 = bp + length xs + 1"
    "pending_end g1 = pending_end g" "yy_buffer_status g1 \<noteq> YY_BUFFER_NEW"
    "\<And>d. yy_step rd alloc jk fuel (Find_action 13 cp bp) g d w = yy_refill rd alloc fuel (length xs) g1 d w"
    using enter_end_of_buffer [OF h l order_refl, of rd alloc jk fuel cp w] by auto
  have "pending_end g1 \<longrightarrow> content w = []" using w(3) g1(4) by simp
  from get_next_buffer_content [OF g1(1-3,5) this w(1,2)] obtain ret g2 w2 where
    g2: "yy_get_next_buffer rd alloc fuel g1 w = Some (Continue (ret, g2, w2))" "ready w2" "delay w2 \<le> delay w"
    "content w = [] \<and> content w2 = [] \<and> xs = [] \<and> ret = END_OF_FILE \<or>
     content w = [] \<and> content w2 = [] \<and> xs \<noteq> [] \<and> ret = LAST_MATCH \<and> holds g2 0 xs \<and> yytext_ptr g2 = 0 \<and> pending_end g2 \<or>
     (\<exists>bs. bs \<noteq> [] \<and> content w = bs @ content w2 \<and> ret = CONTINUE_SCAN \<and> holds g2 0 (xs @ bs) \<and> yytext_ptr g2 = 0 \<and>
       \<not> pending_end g2)" by blast
  have d: "delay w2 < fuel" using g2(3) w(2) by simp
  from g2(4) show ?thesis
  proof (elim disjE conjE exE)
    assume c: "content w = []" "content w2 = []" "xs = []" "ret = END_OF_FILE"
    have "yylex_loop rd alloc jk fuel (1 + j) (Find_action 13 cp bp) g d w =
        and_then (handle_error d) (\<lambda>d'. Some (Continue (d', w2)))" for j d
      using g1(6) g2(1) c(4) by (cases "handle_error d"; cases "the (handle_error d)") (simp_all add: yy_refill_def)
    moreover have e: "xs @ content w = []" using c by simp
    ultimately show ?thesis using c(2) unfolding reads_token_def if_P [OF e] by blast
  next
    assume c: "content w = []" "content w2 = []" "xs \<noteq> []" "ret = LAST_MATCH" "holds g2 0 xs" "yytext_ptr g2 = 0"
      "pending_end g2"
    let ?g = "g2\<lparr>yy_c_buf_p := yy_n_chars g2\<rparr>"
    have n: "yy_n_chars g2 = length xs" using c(5) by (simp add: holds_def)
    have hg: "holds (?g\<lparr>yy_last_accepting := l\<rparr>) 0 xs" "holds ?g 0 (xs @ [])" for l
      using c(5) by (auto intro: holds_same [rotated -1])
    from recompute [OF hg(2) _ _ s] c(6) n obtain l where
      l: "yy_get_previous_state ?g = Some (s, ?g\<lparr>yy_last_accepting := l\<rparr>)" "last_ok s 0 l" by auto
    have t: "next_token xs = (4, 1)" by (rule unfinished_at_end [OF s c(3)])
    have "s \<noteq> 1" using s c(3) by (auto simp: unfinished_def)
    then have "chosen s (length xs) l = Some (token_at 0 (xs @ content w2))"
      using unfinished_states [OF s] length_unfinished [OF s] l(2) t c(2)
      by (auto simp: chosen_def token_at_def last_ok_def)
    moreover have "snd (next_token (xs @ content w2)) \<le> length xs" using t c(2,3) by (cases xs) auto
    ultimately have "reads_token jk (Find_action s (length xs) 0) (?g\<lparr>yy_last_accepting := l\<rparr>) w2 (xs @ content w2)"
      using find_reads [OF hg(1), of s "length xs" l w2 jk] c(2,3) g2(2) d by simp
    moreover have "yy_step rd alloc jk fuel (Find_action 13 cp bp) g d w =
        Some (Continue (Goto (Find_action s (length xs) 0) (?g\<lparr>yy_last_accepting := l\<rparr>) d w2))" for d
      using g1(6) g2(1) c(4,6) l(1) n by (simp add: yy_refill_def Let_def)
    ultimately show ?thesis using c(1,2) reads_jump by simp
  next
    fix bs assume c: "bs \<noteq> []" "content w = bs @ content w2" "ret = CONTINUE_SCAN" "holds g2 0 (xs @ bs)"
      "yytext_ptr g2 = 0" "\<not> pending_end g2"
    let ?g = "g2\<lparr>yy_c_buf_p := length xs\<rparr>"
    have hg: "holds (?g\<lparr>yy_last_accepting := l\<rparr>) 0 (xs @ bs)" "holds ?g 0 (xs @ bs)" for l
      using c(4) by (auto intro: holds_same [rotated -1])
    from recompute [OF hg(2) _ _ s] c(5) obtain l where
      l: "yy_get_previous_state ?g = Some (s, ?g\<lparr>yy_last_accepting := l\<rparr>)" "last_ok s 0 l" by auto
    have "reads_token jk (Match s (length xs) 0) (?g\<lparr>yy_last_accepting := l\<rparr>) w2 (xs @ content w)"
      using c(6) l(2) by (intro more [OF c(1,2) hg(1)]) (simp_all add: g2(2) d pending_end_def)
    moreover have "yy_step rd alloc jk fuel (Find_action 13 cp bp) g d w =
        Some (Continue (Goto (Match s (length xs) 0) (?g\<lparr>yy_last_accepting := l\<rparr>) d w2))" for d
      using g1(6) g2(1) c(3,5) l(1) by (simp add: yy_refill_def Let_def)
    ultimately show ?thesis using reads_jump by blast
  qed
qed


text \<open>The matching loop, wherever the token and the stream are cut.\<close>

lemma match_reads:
  "holds g bp (tx @ rest) \<Longrightarrow> unfinished tx s \<Longrightarrow> last_ok s bp (yy_last_accepting g) \<Longrightarrow> ready w \<Longrightarrow> delay w < fuel \<Longrightarrow>
   (pending_end g \<longrightarrow> content w = []) \<Longrightarrow>
   reads_token jk (Match s (bp + length tx) bp) g w (tx @ rest @ content w)"
proof (induction "2 * length (content w) + length rest" arbitrary: g bp tx rest s w rule: less_induct)
  case less
  note h = less.prems(1) and s = less.prems(2) and lo = less.prems(3)
  let ?cp = "bp + length tx"
  define xs where "xs = takeWhile (\<lambda>b. b \<noteq> 0) rest"
  define tl where "tl = dropWhile (\<lambda>b. b \<noteq> 0) rest"
  have rest: "rest = xs @ tl" "0 \<notin> set xs" by (auto simp: xs_def tl_def dest: set_takeWhileD)
  obtain junk where buf: "drop ?cp (yy_ch_buf g) = xs @ tl @ 0 # 0 # junk"
    using holds_drop_buf [OF holds_drop [OF h]] rest(1) by auto
  have keep: "holds (g\<lparr>yy_last_accepting := l\<rparr>) bp (tx @ rest)" for l
    using h by (rule holds_same [rotated -1]) simp_all
  from match_text [OF s lo rest(2), of "tl @ 0 # 0 # junk"] show ?case
  proof (elim disjE exE conjE)
    fix ys b zs s' l assume *: "xs = ys @ b # zs"
      "yy_match (xs @ tl @ 0 # 0 # junk) ?cp s (yy_last_accepting g) = Some (s', bp + length (tx @ ys) + 1, l)"
      "\<forall>u. chosen s' (bp + length (tx @ ys) + 1) l = Some (token_at bp (tx @ ys @ b # u))"
    have "holds (g\<lparr>yy_last_accepting := l\<rparr>) bp ((tx @ ys) @ b # zs @ tl)" using keep [of l] rest(1) *(1) by simp
    from find_reads_stop [OF this, of s' "bp + length (tx @ ys) + 1" w jk] *(3) less.prems(4-6)
    have "reads_token jk (Find_action s' (bp + length (tx @ ys) + 1) bp) (g\<lparr>yy_last_accepting := l\<rparr>) w
        (tx @ rest @ content w)" by (simp add: rest(1) *(1) pending_end_def)
    with *(2) show ?case by (intro match_jump) (simp_all add: buf)
  next
    fix s' l assume u: "unfinished (tx @ xs) s'" "last_ok s' bp l"
      "yy_match (xs @ tl @ 0 # 0 # junk) ?cp s (yy_last_accepting g) =
        yy_match (tl @ 0 # 0 # junk) (bp + length (tx @ xs)) s' l"
    let ?q = "bp + length (tx @ xs)" and ?g = "g\<lparr>yy_last_accepting := (3, bp + length (tx @ xs) + 1)\<rparr>"
    obtain y bs where tail: "tl @ 0 # 0 # junk = 0 # y # bs"
    proof (cases tl)
      case Nil
      then show thesis by (intro that) simp
    next
      case (Cons b bs)
      then have "b = 0" using hd_dropWhile [of "\<lambda>b. b \<noteq> 0" rest] by (simp flip: tl_def)
      with Cons show thesis by (cases bs) (auto intro: that)
    qed
    have "yy_match (drop ?cp (yy_ch_buf g)) ?cp s (yy_last_accepting g) = yy_match (0 # y # bs) ?q s' l"
      using u(3) unfolding buf tail .
    also have "\<dots> = Some (13, ?q + 2, 3, ?q + 1)" by (rule match_zero [OF u(1)])
    finally have "yy_match (drop ?cp (yy_ch_buf g)) ?cp s (yy_last_accepting g) = Some (13, ?q + 2, 3, ?q + 1)" .
    moreover have "reads_token jk (Find_action 13 (?q + 2) bp) ?g w (tx @ rest @ content w)"
    proof (cases tl)
      case Nil
      then have hx: "holds ?g bp (tx @ xs)" using keep rest(1) by simp
      have "reads_token jk (Find_action 13 (?q + 2) bp) ?g w ((tx @ xs) @ content w)"
      proof (rule refill_reads [OF hx u(1) _ less.prems(4,5)])
        fix g' w' bs l assume c: "bs \<noteq> []" "content w = bs @ content w'" "holds g' 0 ((tx @ xs) @ bs)"
          "last_ok s' 0 (yy_last_accepting g')" "ready w'" "delay w' < fuel" "\<not> pending_end g'"
        have "2 * length (content w') + length bs < 2 * length (content w) + length rest" using c(1,2) by simp
        from less.hyps [OF this c(3) u(1) c(4,5,6)] c(2,7)
        show "reads_token jk (Match s' (length (tx @ xs)) 0) g' w' ((tx @ xs) @ content w)" by simp
      qed (use less.prems(6) in \<open>simp_all add: pending_end_def\<close>)
      with Nil rest(1) show ?thesis by simp
    next
      case (Cons b ys)
      then have b: "b = 0" using hd_dropWhile [of "\<lambda>b. b \<noteq> 0" rest] by (simp flip: tl_def)
      have hx: "holds ?g bp ((tx @ xs) @ 0 # ys)" using keep rest(1) Cons b by simp
      from real_zero [OF hx u(1), of rd alloc jk fuel "?q + 2" w] obtain g' where g': "holds g' bp ((tx @ xs) @ 0 # ys)"
        "pending_end g' = pending_end g"
        "(\<exists>s2. unfinished ((tx @ xs) @ [0]) s2 \<and> last_ok s2 bp (yy_last_accepting g') \<and>
           (\<forall>d. yy_step rd alloc jk fuel (Find_action 13 (?q + 2) bp) ?g d w =
             Some (Continue (Goto (Match s2 (bp + length ((tx @ xs) @ [0])) bp) g' d w)))) \<or>
         (\<exists>cp'. (\<forall>u. chosen s' cp' (yy_last_accepting g') = Some (token_at bp ((tx @ xs) @ 0 # u))) \<and>
           (\<forall>d. yy_step rd alloc jk fuel (Find_action 13 (?q + 2) bp) ?g d w =
             Some (Continue (Goto (Find_action s' cp' bp) g' d w))))"
        by (auto simp: pending_end_def)
      have p: "pending_end g' \<longrightarrow> content w = []" using g'(2) less.prems(6) by simp
      from g'(3) show ?thesis
      proof (elim disjE exE conjE)
        fix s2 assume m: "unfinished ((tx @ xs) @ [0]) s2" "last_ok s2 bp (yy_last_accepting g')"
          "\<forall>d. yy_step rd alloc jk fuel (Find_action 13 (?q + 2) bp) ?g d w =
             Some (Continue (Goto (Match s2 (bp + length ((tx @ xs) @ [0])) bp) g' d w))"
        have "holds g' bp (((tx @ xs) @ [0]) @ ys)" using g'(1) by simp
        moreover have "2 * length (content w) + length ys < 2 * length (content w) + length rest"
          using rest(1) Cons by simp
        ultimately have "reads_token jk (Match s2 (bp + length ((tx @ xs) @ [0])) bp) g' w (((tx @ xs) @ [0]) @ ys @ content w)"
          using less.hyps [of w ys g' bp "(tx @ xs) @ [0]" s2] m(1,2) less.prems(4,5) p by blast
        from reads_jump [OF m(3) [rule_format] this] show ?thesis by (simp add: rest(1) Cons b)
      next
        fix cp' assume f: "\<forall>u. chosen s' cp' (yy_last_accepting g') = Some (token_at bp ((tx @ xs) @ 0 # u))"
          "\<forall>d. yy_step rd alloc jk fuel (Find_action 13 (?q + 2) bp) ?g d w =
             Some (Continue (Goto (Find_action s' cp' bp) g' d w))"
        from reads_jump [OF f(2) [rule_format] find_reads_stop [OF g'(1) f(1) less.prems(4,5) p]]
        show ?thesis by (simp add: rest(1) Cons b)
      qed
    qed
    ultimately show ?case by (rule match_jump)
  qed
qed

text \<open>The start of a token.\<close>

lemma scan_reads:
  assumes "waiting g xs" "ready w" "delay w < fuel" "pending_end g \<longrightarrow> content w = []"
  shows "reads_token jk Scan g w (xs @ content w)"
proof -
  obtain g' where g': "unhold g (yy_c_buf_p g) = Some g'" "holds g' (yy_c_buf_p g) xs"
    using assms(1) by (auto simp: waiting_def)
  then have "pending_end g' = pending_end g"
    by (auto simp: unhold_def pending_end_def bind_eq_Some_conv)
  then have r: "reads_token jk (Match 1 (yy_c_buf_p g) (yy_c_buf_p g)) g' w (xs @ content w)"
    using match_reads [of g' "yy_c_buf_p g" "[]" xs 1 w jk] g'(2) assms(2-4) by (simp add: unfinished_def last_ok_def)
  have "yy_step rd alloc jk fuel Scan g d w =
      Some (Continue (Goto (Match 1 (yy_c_buf_p g) (yy_c_buf_p g)) g' d w))" for d
    using g'(1) by (simp add: yy_step_def Let_def)
  then show ?thesis by (rule reads_jump) (rule r)
qed

end

section \<open>The whole stream\<close>

text \<open>
  What the rules say of a stream: the longest match at its start decides the action, and the scan
  goes on behind it; at its end the pending errors are reported.
\<close>

function spec_scan ::
  "(nat \<Rightarrow> u8 list \<Rightarrow> u8 list \<Rightarrow> parser_data \<Rightarrow> parser_data or_exit option) \<Rightarrow> (nat \<Rightarrow> u8 list) \<Rightarrow> u8 list \<Rightarrow>
   parser_data \<Rightarrow> parser_data or_exit option" where
  "spec_scan act behind bs d = (if bs = [] then handle_error d else
     and_then (act (fst (next_token bs)) (take (snd (next_token bs)) bs) (behind (length bs)) d)
       (\<lambda>d. spec_scan act behind (drop (snd (next_token bs)) bs) d))"
  by auto
termination
  by (relation "measure (\<lambda>(act, behind, bs, d). length bs)") (auto simp: next_token_pos)

declare spec_scan.simps [simp del]

lemma spec_scan_nil: "spec_scan act behind [] d = handle_error d"
  by (subst spec_scan.simps) simp

lemma spec_scan_cons:
  "bs \<noteq> [] \<Longrightarrow> spec_scan act behind bs d =
     and_then (act (fst (next_token bs)) (take (snd (next_token bs)) bs) (behind (length bs)) d)
       (\<lambda>d. spec_scan act behind (drop (snd (next_token bs)) bs) d)"
  by (subst spec_scan.simps) simp

text \<open>Only what lies behind the tokens of the stream itself matters.\<close>

lemma spec_scan_behind:
  "(\<And>n. n \<le> length bs \<Longrightarrow> behind n = behind' n) \<Longrightarrow> spec_scan act behind bs d = spec_scan act behind' bs d"
proof (induction "length bs" arbitrary: bs d rule: less_induct)
  case less
  show ?case
  proof (cases "bs = []")
    case False
    then have "length (drop (snd (next_token bs)) bs) < length bs" using next_token_pos [OF False] by (cases bs) auto
    from less.hyps [OF this] less.prems have
      "(\<lambda>d. spec_scan act behind (drop (snd (next_token bs)) bs) d) = (\<lambda>d. spec_scan act behind' (drop (snd (next_token bs)) bs) d)"
      by (intro ext) simp
    with less.prems [of "length bs"] show ?thesis by (simp add: spec_scan_cons [OF False])
  qed (simp add: spec_scan_nil)
qed

context scanner_input
begin

lemma loop_scans:
  assumes "waiting g xs" "ready w" "delay w < fuel" "pending_end g \<longrightarrow> content w = []"
  shows "\<exists>behind k w'. content w' = [] \<and> (\<forall>j d. yylex_loop rd alloc jk fuel (k + j) Scan g d w =
      and_then (spec_scan (yy_action jk fuel) behind (xs @ content w) d) (\<lambda>d'. Some (Continue (d', w'))))"
  using assms
proof (induction "length (xs @ content w)" arbitrary: g xs w rule: less_induct)
  case less
  let ?bs = "xs @ content w" and ?act = "yy_action jk fuel"
  have r: "reads_token jk Scan g w ?bs" using less.prems by (rule scan_reads)
  show ?case
  proof (cases "?bs = []")
    case True
    then have n: "xs = []" "content w = []" by auto
    from r show ?thesis unfolding reads_token_def n append_Nil spec_scan_nil by (simp only: if_True) blast
  next
    case False
    let ?n = "snd (next_token ?bs)" and ?r = "fst (next_token ?bs)"
    from r obtain k1 g' w' xs' tail where t: "waiting g' xs'" "ready w'" "delay w' < fuel" "pending_end g' \<longrightarrow> content w' = []"
      "xs' @ content w' = drop ?n ?bs"
      "\<And>j d. yylex_loop rd alloc jk fuel (k1 + j) Scan g d w =
        and_then (?act ?r (take ?n ?bs) tail d) (\<lambda>d'. yylex_loop rd alloc jk fuel j Scan g' d' w')"
      unfolding reads_token_def if_not_P [OF False] by blast
    have shorter: "length (xs' @ content w') < length ?bs" using next_token_pos [OF False] False t(5) by (cases ?bs) auto
    from less.hyps [OF shorter t(1-4)] obtain behind k2 w2 where k2: "content w2 = []"
      "\<And>j d. yylex_loop rd alloc jk fuel (k2 + j) Scan g' d w' =
        and_then (spec_scan ?act behind (xs' @ content w') d) (\<lambda>d'. Some (Continue (d', w2)))" by blast
    let ?behind = "behind(length ?bs := tail)"
    have "yylex_loop rd alloc jk fuel (k1 + k2 + j) Scan g d w =
        and_then (spec_scan ?act ?behind ?bs d) (\<lambda>d'. Some (Continue (d', w2)))" for j d
    proof -
      have "spec_scan ?act ?behind (xs' @ content w') d = spec_scan ?act behind (xs' @ content w') d" for d
        by (rule spec_scan_behind) (use shorter in auto)
      then have "spec_scan ?act ?behind ?bs d =
          and_then (?act ?r (take ?n ?bs) tail d) (spec_scan ?act behind (xs' @ content w'))"
        by (simp only: spec_scan_cons [OF False] t(5) fun_upd_same)
      then show ?thesis using t(6) [of "k2 + j" d] by (simp only: k2(2) and_then_assoc add.assoc)
    qed
    with k2(1) show ?thesis by blast
  qed
qed

text \<open>The first buffer, whatever its memory contains.\<close>

lemma first_buffer:
  "\<exists>g. yy_first_buffer alloc = Some g \<and> waiting g [] \<and> \<not> pending_end g"
proof -
  have n: "length (alloc (YY_BUF_SIZE + 2)) = YY_BUF_SIZE + 2" by (rule alloc_length)
  then obtain x y junk where "alloc (YY_BUF_SIZE + 2) = x # y # junk"
    by (metis Suc_le_length_iff add_2_eq_Suc' le_add2 numeral_2_eq_2)
  with n show ?thesis
    by (simp add: yy_first_buffer_def yy_flush_buffer_def yy_load_buffer_state_def waiting_def unhold_def
        holds_def pending_end_def status_defs) (auto simp: YY_BUF_SIZE_def)
qed

lemma lexer_scans:
  assumes "ready w" "delay w < fuel"
  shows "\<exists>behind k w'. content w' = [] \<and> (\<forall>j d. yylex rd alloc jk fuel (k + j) d w =
      and_then (spec_scan (yy_action jk fuel) behind (content w) d) (\<lambda>d'. Some (Continue (d', w'))))"
proof -
  obtain g where g: "yy_first_buffer alloc = Some g" "waiting g []" "\<not> pending_end g" using first_buffer by blast
  from loop_scans [OF g(2) assms, of jk] g(3) show ?thesis unfolding yylex_def g(1) Option.bind.bind_lunit by simp
qed

end

text \<open>The scripted connection and zeroed memory are an instance.\<close>

interpretation scripted: scanner_input scheduled_read "\<lambda>w. True" fst "\<lambda>w. length (snd w)" "\<lambda>n. replicate n 0" fuel
  for fuel
  by unfold_locales simp

section \<open>Properties\<close>

text \<open>
  (C2) The generated scanner, with its tables, its buffer of any content and the refills in the
  middle of a token, carries out the rules of \<^verbatim>\<open>scanner.l\<close> on the stream: whatever the pieces in
  which the connection delivers the bytes and whatever its interruptions, it runs the action of the
  longest match at the start of the stream, again on what follows, to the end of the stream, where
  the pending errors are reported; it returns once the stream is used up, ends the program exactly when an
  action does, and is undefined exactly when an action is. With enough fuel it returns, and more
  fuel changes nothing. An action also sees the memory behind its token: \<open>behind n\<close> is what the buffer holds
  there when \<open>n\<close> bytes of the stream are left.
\<close>

theorem scanner_follows_rules:
  assumes "byte_reader rd ready content delay" "\<And>n. length (alloc n) = n" "ready w" "delay w < fuel"
  shows "\<exists>behind k w'. content w' = [] \<and> (\<forall>j d. yylex rd alloc jk fuel (k + j) d w =
      and_then (spec_scan (yy_action jk fuel) behind (content w) d) (\<lambda>d'. Some (Continue (d', w'))))"
  by (rule scanner_input.lexer_scans [OF scanner_input.intro [OF assms(1) scanner_input_axioms.intro [OF assms(2)]] assms(3,4)])

definition quiet :: "gdb_protocol_data \<Rightarrow> parser_data" where
  "quiet g = \<lparr>gdb = g, buffer = [], len = 0, packets = 0, echoed = []\<rparr>"

theorem scanner_follows_rules_witness:
  "\<forall>jk g. \<exists>k w'. fst w' = [] \<and> (\<forall>j. yylex scheduled_read (\<lambda>n. replicate n 0) jk 5 (k + j) (quiet g) ([43, 10], [0, 1, 0]) =
     Some (Continue ((quiet g)\<lparr>echoed := [10]\<rparr>, w')))"
proof (intro allI)
  fix jk g
  have "spec_scan (yy_action jk 5) behind [43, 10] (quiet g) = Some (Continue ((quiet g)\<lparr>echoed := [10]\<rparr>))" for behind
    by (simp add: quiet_def spec_scan_cons spec_scan_nil next_token_def yy_action_def handle_error_def)
  moreover obtain behind k w' where "fst w' = []" "\<forall>j d. yylex scheduled_read (\<lambda>n. replicate n 0) jk 5 (k + j) d ([43, 10], [0, 1, 0]) =
      and_then (spec_scan (yy_action jk 5) behind [43, 10] d) (\<lambda>d'. Some (Continue (d', w')))"
    using scanner_follows_rules [OF kernel_in.byte_reader_axioms, of "\<lambda>n. replicate n 0" "([43, 10], [0, 1, 0])" 5 jk] by auto
  ultimately have "fst w' = [] \<and> (\<forall>j. yylex scheduled_read (\<lambda>n. replicate n 0) jk 5 (k + j) (quiet g) ([43, 10], [0, 1, 0]) =
     Some (Continue ((quiet g)\<lparr>echoed := [10]\<rparr>, w')))" by simp
  then show "\<exists>k w'. fst w' = [] \<and> (\<forall>j. yylex scheduled_read (\<lambda>n. replicate n 0) jk 5 (k + j) (quiet g) ([43, 10], [0, 1, 0]) =
     Some (Continue ((quiet g)\<lparr>echoed := [10]\<rparr>, w')))" by blast
qed

section \<open>A frame on the connection\<close>

lemma hex_byte_digits: "hex_byte c = [a, b] \<Longrightarrow> is_hex a \<and> is_hex b"
proof -
  have "\<forall>x \<in> set (map hex_digit (digits_of k n)). is_hex x" for k n
  proof -
    have "is_hex (hex_digit m)" if "m < 16" for m
    proof -
      have "list_all (\<lambda>m. is_hex (hex_digit m)) [0..<16]" by code_simp
      with that show ?thesis by (auto simp: list_all_iff)
    qed
    moreover have "\<forall>m \<in> set (digits_of k n). m < 16" by (induction k arbitrary: n) auto
    ultimately show ?thesis by auto
  qed
  then have "\<forall>x \<in> set (hex_byte c). is_hex x" by (simp add: hex_byte_def)
  then show "hex_byte c = [a, b] \<Longrightarrow> is_hex a \<and> is_hex b" by simp
qed

lemma next_token_of_frame:
  assumes "plain t"
  shows "next_token (frame t @ rest) = (3, length (frame t))"
proof -
  obtain a b where h: "hex_byte (sum_list t) = [a, b]" using hex_byte_two by blast
  then show ?thesis
    using next_token_frame(4) [OF assms, of a b rest] hex_byte_digits [OF h] by (simp add: frame_def)
qed

lemma spec_scan_frame:
  assumes "plain t"
  shows "spec_scan act behind (frame t @ rest) d =
    and_then (act 3 (frame t) (behind (length (frame t @ rest))) d) (spec_scan act behind rest)"
proof -
  have "frame t @ rest \<noteq> []" by (simp add: frame_def)
  then show ?thesis by (simp add: spec_scan_cons next_token_of_frame [OF assms])
qed

lemma action_frame:
  assumes "t \<noteq> []" "len d = 0"
  shows "yy_action jk fuel 3 (frame t) tail d =
    and_then (and_then (Some (rio_send (gdb d) (bytes ''+'')))
        (\<lambda>g. case gdb_init ! unat (hd t) of
           Some handler \<Rightarrow> handler (jk (packets d)) fuel g (tl t @ 0 # hex_byte (sum_list t) @ 0 # tail)
         | None \<Rightarrow> gdb_send_data g ''''))
      (\<lambda>g. Some (Continue (d\<lparr>gdb := g, packets := packets d + 1\<rparr>)))"
proof -
  have "length (frame t) = length t + 4" by (simp add: frame_def)
  then show ?thesis
    using analysis_of_frame [OF assms(1), of "jk (packets d)" fuel "gdb d" tail] assms(2)
    by (simp add: yy_action_def handle_error_def)
qed

text \<open>
  (C4) What \<open>gdb_send_data\<close> puts on a connection is one packet for the scanner at the other end,
  whatever the pieces in which it arrives: its checksum is accepted, it is acknowledged, and the
  handler of its first character gets the text behind it, or the empty reply is sent when there is
  none. The text must not be empty, have less than 4000 characters and not contain a zero byte, a dollar or a
  hash, and the scanner at the other end must have no pending error. If the write of the acknowledgement fails, the program
  there ends. What follows the text in the
  memory, \<open>rest\<close>, is that of the buffer of the scanner.
\<close>

theorem sent_packet_is_received:
  assumes "gdb_send_data g0 s = Some (Continue g1)" "sent g0 = []" "length (packet g0) = MAX_PACKET_SIZE"
    "s \<noteq> ''''" "length s < 4000" "0 \<notin> set (bytes s)" "plain (bytes s)"
    "byte_reader rd ready content delay" "\<And>n. length (alloc n) = n" "ready w" "delay w < fuel"
    "content w = sent g1" "len d = 0"
  shows "\<exists>rest k w'. content w' = [] \<and> (\<forall>j. yylex rd alloc jk fuel (k + j) d w =
      and_then (and_then (Some (rio_send (gdb d) (bytes ''+'')))
          (\<lambda>g. case gdb_init ! unat (hd (bytes s)) of
             Some handler \<Rightarrow> handler (jk (packets d)) fuel g (tl (bytes s) @ 0 # hex_byte (sum_list (bytes s)) @ 0 # rest)
           | None \<Rightarrow> gdb_send_data g ''''))
        (\<lambda>g'. Some (Continue (d\<lparr>gdb := g', packets := packets d + 1\<rparr>, w'))))"
proof -
  let ?t = "bytes s"
  have c: "content w = frame ?t @ []"
    using send_data_eval [OF assms(3,6,5)] assms(1,2,12) by (auto dest: rio_send_Continue [OF sym])
  have t: "?t \<noteq> []" using assms(4) by (simp add: bytes_def)
  obtain behind k w' where k: "content w' = []" "\<And>j d. yylex rd alloc jk fuel (k + j) d w =
      and_then (spec_scan (yy_action jk fuel) behind (content w) d) (\<lambda>d'. Some (Continue (d', w')))"
    using scanner_input.lexer_scans [OF scanner_input.intro [OF assms(8) scanner_input_axioms.intro [OF assms(9)]]
      assms(10,11), of jk] by blast
  have last: "and_then (spec_scan (yy_action jk fuel) behind [] (d\<lparr>gdb := g', packets := packets d + 1\<rparr>)) f =
      f (d\<lparr>gdb := g', packets := packets d + 1\<rparr>)" for g' and f :: "parser_data \<Rightarrow> 'b or_exit option"
    using assms(13) by (simp add: spec_scan_nil handle_error_def)
  show ?thesis
    by (intro exI [of _ "behind (length (frame ?t @ []))"] exI [of _ k] exI [of _ w'] conjI allI k(1))
      (simp only: k(2) c spec_scan_frame [OF assms(7)] action_frame [OF t assms(13)] and_then_assoc and_then_simps last)
qed

theorem sent_packet_is_received_witness:
  "\<exists>g1. gdb_send_data (sample_gdb 0xEF 1) ''k'' = Some (Continue g1) \<and>
     (\<forall>jk. \<exists>k w'. fst w' = [] \<and> (\<forall>j. yylex scheduled_read (\<lambda>n. replicate n 0) jk 5 (k + j)
       \<lparr>gdb = sample_gdb 0xEF 1, buffer = [], len = 0, packets = 0, echoed = []\<rparr> (sent g1, [2, 0, 1]) =
       Some (Continue (\<lparr>gdb = (sample_gdb 0xEF 1)\<lparr>sent := bytes ''+'', shut_down := True\<rparr>, buffer = [], len = 0,
         packets = 1, echoed = []\<rparr>, w'))))"
proof -
  have k: "bytes ''k'' = [107]" "plain (bytes ''k'')" "0 \<notin> set (bytes ''k'')" by (simp_all add: bytes_def)
  obtain g1 where g1: "gdb_send_data (sample_gdb 0xEF 1) ''k'' = Some (Continue g1)"
    using send_data_eval [of "sample_gdb 0xEF 1" "''k''"] k(3) by auto
  have "gdb_init ! 107 = Some kill_request" by (simp add: gdb_init_def slot_def)
  then show ?thesis
    using g1 sent_packet_is_received [OF g1, of scheduled_read, OF _ _ _ _ k(3,2) kernel_in.byte_reader_axioms,
        of "\<lambda>n. replicate n 0" "(sent g1, [2, 0, 1])" 5
          "\<lparr>gdb = sample_gdb 0xEF 1, buffer = [], len = 0, packets = 0, echoed = []\<rparr>"]
    by (fastforce simp: k(1) kill_request_def)
qed

end
