(* ===== verification/Gdb_Invariant.thy ===== *)
theory Gdb_Invariant
  imports Gdb_Scanner_Facts
begin

text \<open>
  The invariant of the debugger: every handler of \<^verbatim>\<open>gdb_protocol.c\<close>, every rule of the
  scanner and so every session, whatever bytes arrive, keeps the processor well formed, the memory
  size and the breakpoints sorted. A session in which a text leaves the packet buffer is undefined
  and returns nothing here; the text buffer of the scanner itself is never left.
\<close>

section \<open>The invariant\<close>

text \<open>The parameter is the size of the simulated memory.\<close>

definition gdb_wf :: "u64 \<Rightarrow> gdb_protocol_data \<Rightarrow> bool" where
  "gdb_wf n st \<longleftrightarrow> core_wf (arm st) \<and> taille (mem (arm st)) = n \<and> bp_wf st \<and>
     length (packet st) = MAX_PACKET_SIZE \<and> pkt_len st \<le> MAX_PACKET_SIZE \<and> target_exception st \<in> {0, 7, 255}"

text \<open>A computation that, when it returns, returns a state with the invariant, and rules to follow it.\<close>

named_theorems safe_rules \<open>rules that follow a computation of the debugger\<close>

definition safe :: "u64 \<Rightarrow> gdb_protocol_data option \<Rightarrow> bool" where
  "safe n m \<longleftrightarrow> (\<forall>g. m = Some g \<longrightarrow> gdb_wf n g)"

text \<open>The same for one that may end the program.\<close>

definition safe_end :: "u64 \<Rightarrow> gdb_protocol_data or_exit option \<Rightarrow> bool" where
  "safe_end n m \<longleftrightarrow> (\<forall>g. m = Some (Continue g) \<longrightarrow> gdb_wf n g)"

lemma safeD: "safe n m \<Longrightarrow> m = Some g \<Longrightarrow> gdb_wf n g"
  by (simp add: safe_def)

lemma safe_endD: "safe_end n m \<Longrightarrow> m = Some (Continue g) \<Longrightarrow> gdb_wf n g"
  by (simp add: safe_end_def)

lemma safe_Continue [safe_rules]: "gdb_wf n g \<Longrightarrow> safe_end n (Some (Continue g))"
  by (simp add: safe_end_def)

lemma safe_end_if [safe_rules]: "safe_end n m \<Longrightarrow> safe_end n m' \<Longrightarrow> safe_end n (if b then m else m')"
  by simp

lemma safe_Some [safe_rules]: "gdb_wf n g \<Longrightarrow> safe n (Some g)"
  by (simp add: safe_def)

lemma safe_if [safe_rules]: "safe n m \<Longrightarrow> safe n m' \<Longrightarrow> safe n (if b then m else m')"
  by simp

text \<open>A step that computes a value, and one that computes the next state.\<close>

lemma safe_value: "(\<And>x. m = Some x \<Longrightarrow> safe n (f x)) \<Longrightarrow> safe n (Option.bind m f)"
  by (cases m) (simp_all add: safe_def)

lemma safe_end_value: "(\<And>x. m = Some x \<Longrightarrow> safe_end n (f x)) \<Longrightarrow> safe_end n (Option.bind m f)"
  by (cases m) (simp_all add: safe_end_def)

lemma safe_end_state: "safe n m \<Longrightarrow> (\<And>g. gdb_wf n g \<Longrightarrow> safe_end n (f g)) \<Longrightarrow> safe_end n (Option.bind m f)"
  by (cases m) (simp_all add: safe_def safe_end_def)

lemma safe_end_then: "safe_end n m \<Longrightarrow> (\<And>g. gdb_wf n g \<Longrightarrow> safe_end n (f g)) \<Longrightarrow> safe_end n (and_then m f)"
  by (auto simp: safe_end_def and_then_Continue)

lemma safe_state: "safe n m \<Longrightarrow> (\<And>g. gdb_wf n g \<Longrightarrow> safe n (f g)) \<Longrightarrow> safe n (Option.bind m f)"
  by (cases m) (simp_all add: safe_def)

lemma gdb_wf_sel:
  "gdb_wf n st \<Longrightarrow> core_wf (arm st)" "gdb_wf n st \<Longrightarrow> taille (mem (arm st)) = n"
  "gdb_wf n st \<Longrightarrow> bp_wf st" "gdb_wf n st \<Longrightarrow> length (packet st) = MAX_PACKET_SIZE"
  by (simp_all add: gdb_wf_def)

text \<open>Only the breakpoint table of a state matters for its invariant.\<close>

lemma bp_wf_other [simp]:
  "bp_wf (st\<lparr>packet := x1\<rparr>) = bp_wf st" "bp_wf (st\<lparr>pkt_len := x2\<rparr>) = bp_wf st"
  "bp_wf (st\<lparr>sent := x3\<rparr>) = bp_wf st" "bp_wf (st\<lparr>arm := x4\<rparr>) = bp_wf st"
  "bp_wf (st\<lparr>target_exception := x5\<rparr>) = bp_wf st" "bp_wf (st\<lparr>shut_down := x6\<rparr>) = bp_wf st"
  by (simp_all add: bp_wf_def bp_list_def)

lemma gdb_wf_update [safe_rules]:
  "gdb_wf n st \<Longrightarrow> gdb_wf n (st\<lparr>sent := s\<rparr>)"
  "gdb_wf n st \<Longrightarrow> gdb_wf n (st\<lparr>shut_down := d\<rparr>)"
  "gdb_wf n st \<Longrightarrow> length p = MAX_PACKET_SIZE \<Longrightarrow> gdb_wf n (st\<lparr>packet := p\<rparr>)"
  "gdb_wf n st \<Longrightarrow> core_wf a \<Longrightarrow> taille (mem a) = n \<Longrightarrow> gdb_wf n (st\<lparr>arm := a\<rparr>)"
  by (simp_all add: gdb_wf_def)

section \<open>Sending\<close>

lemma put_bytes_length: "put_bytes pkt pos bs = Some p \<Longrightarrow> length p = length pkt"
  by (auto simp: put_bytes_def split: if_splits)

lemma put_text_safe [safe_rules]: "gdb_wf n st \<Longrightarrow> safe n (put_text st pos t)"
  unfolding put_text_def by (intro safe_value safe_rules) (auto dest!: put_bytes_length simp: gdb_wf_def)

lemma rio_send_safe [safe_rules]: "gdb_wf n st \<Longrightarrow> safe_end n (Some (rio_send st bs))"
  by (auto simp: safe_end_def dest!: rio_send_Continue intro: gdb_wf_update)

lemma transmit_safe [safe_rules]: "gdb_wf n st \<Longrightarrow> safe_end n (gdb_transmit_packet st)"
  unfolding gdb_transmit_packet_def by (simp add: rio_send_safe) (simp add: safe_end_def)

lemma send_buffer_safe [safe_rules]:
  assumes "gdb_wf n st"
  shows "safe_end n (gdb_send_buffer st)"
proof -
  have "gdb_wf n g" if sent: "gdb_send_buffer st = Some (Continue g)" for g
  proof -
    from sent obtain pkt check i pkt1 pkt2 pkt3 where
      *: "aset (packet st) 0 (of_char CHR ''$'') = Some pkt" "aset pkt i (of_char CHR ''#'') = Some pkt1"
      "put_bytes pkt1 (i + 1) (hex_byte check @ [0]) = Some pkt2" "aset pkt2 (i + 1 + 2) 0 = Some pkt3"
      "gdb_transmit_packet (st\<lparr>packet := pkt3, pkt_len := i + 1 + 2\<rparr>) = Some (Continue g)"
      unfolding gdb_send_buffer_def Let_def by (auto elim!: bind_SomeE)
    then have "length pkt3 = length (packet st)" "i + 1 + 2 < length (packet st)"
      by (auto dest: aset_length put_bytes_length simp: aset_def split: if_splits)
    with assms have "gdb_wf n (st\<lparr>packet := pkt3, pkt_len := i + 1 + 2\<rparr>)" by (simp add: gdb_wf_def)
    from safe_endD [OF transmit_safe [OF this] *(5)] show ?thesis .
  qed
  then show ?thesis by (simp add: safe_end_def)
qed

lemma send_data_safe [safe_rules]: "gdb_wf n st \<Longrightarrow> safe_end n (gdb_send_data st s)"
  unfolding gdb_send_data_def by (intro safe_end_state safe_rules)

lemma stop_reason_safe [safe_rules]: "gdb_wf n st \<Longrightarrow> safe_end n (gdb_send_stop_reason st)"
  unfolding gdb_send_stop_reason_def Let_def by (intro safe_rules)

section \<open>Handlers\<close>

lemma single_step_safe [safe_rules]:
  assumes "gdb_wf n st"
  shows "safe n (single_step u st)"
proof -
  have "gdb_wf n g" if step: "single_step u st = Some g" for g
  proof -
    obtain r a where ra: "arm_step u (arm st) = Some (r, a)"
      "g = st\<lparr>target_exception := r, arm := log_call a (Trace_arm_state (reg a))\<rparr>"
      using step by (auto simp: single_step_def bind_eq_Some_conv)
    have "core_wf (arm st)" using assms by (rule gdb_wf_sel)
    from step_keeps [OF this ra(1)] assms show ?thesis by (auto simp: gdb_wf_def ra(2) kept_def)
  qed
  then show ?thesis by (simp add: safe_def)
qed

lemma cont_loop_safe: "gdb_wf n st \<Longrightarrow> safe n (cont_loop u k fuel st)"
proof (induction fuel arbitrary: k st)
  case (Suc fuel)
  show ?case unfolding cont_loop.simps Let_def
    by (intro safe_state [OF single_step_safe [OF Suc.prems]] safe_value safe_rules Suc.IH)
qed (simp add: safe_def)

lemma execution_safe [safe_rules]:
  assumes "gdb_wf n st"
  shows "safe_end n (cont u fuel st data)" "safe_end n (cont_with_signal u fuel st data)" "safe_end n (step u fuel st data)"
    "safe_end n (step_with_signal u fuel st data)" "safe_end n (kill_request u fuel st data)" "safe_end n (reason u fuel st data)"
  using assms unfolding cont_with_signal_def cont_def step_def step_with_signal_def kill_request_def reason_def
    single_step_with_signal_def
  by (auto intro!: safe_end_state [OF cont_loop_safe] safe_end_state [OF single_step_safe] safe_rules)

lemma query_safe [safe_rules]: "gdb_wf n st \<Longrightarrow> safe_end n (query u fuel st data)"
  unfolding query_def by (intro safe_end_value safe_rules)

lemma set_thread_safe [safe_rules]: "gdb_wf n st \<Longrightarrow> safe_end n (set_thread u fuel st data)"
  unfolding set_thread_def by (intro safe_end_value safe_rules)

lemma read_register_safe [safe_rules]: "gdb_wf n st \<Longrightarrow> safe n (read_register st pos r)"
  unfolding read_register_def write_uint32_def by (intro safe_value safe_rules)

lemma put_registers_safe [safe_rules]: "gdb_wf n st \<Longrightarrow> safe n (put_registers st pos is)"
  by (induction "is" arbitrary: st pos) (auto intro!: safe_state [OF read_register_safe] safe_rules)

lemma put_unknown_safe [safe_rules]: "gdb_wf n st \<Longrightarrow> safe n (put_unknown st pos k)"
  by (induction k arbitrary: st pos) (auto intro!: safe_state [OF put_text_safe] safe_rules)

lemma read_registers_safe [safe_rules]:
  assumes "gdb_wf n st"
  shows "safe_end n (read_general_registers u fuel st data)" "safe_end n (read_single_register u fuel st data)"
proof -
  show "safe_end n (read_general_registers u fuel st data)" unfolding read_general_registers_def write_uint32_def
    by (intro safe_end_state [OF put_registers_safe [OF assms]] safe_end_state [OF put_unknown_safe] safe_end_value
        safe_end_state [OF put_text_safe] send_buffer_safe)
  show "safe_end n (read_single_register u fuel st data)" unfolding read_single_register_def
    by (intro safe_end_value safe_end_state [OF read_register_safe [OF assms]] send_buffer_safe)
qed

lemma set_registers_wf: "gdb_wf n st \<Longrightarrow> regs_wf r \<Longrightarrow> gdb_wf n (set_registers st r)"
  unfolding set_registers_def by (intro safe_rules) (auto simp: core_wf_def gdb_wf_def simp del: core_wf_sel)

lemma write_register_safe [safe_rules]:
  assumes "gdb_wf n st"
  shows "safe n (write_register u st r data)"
proof -
  have wf: "regs_wf (reg (arm st))" using assms by (simp add: gdb_wf_def)
  have "regs_wf regs" if "r < 16" "registers_write (reg (arm st)) (ucast r) m v = Some regs" for regs m v
  proof -
    have u: "unat (ucast r :: u8) = unat r" "unat r < 16"
      using that(1) by (simp_all add: unsigned_ucast_eq take_bit_nat_eq_self word_less_nat_alt)
    then have "(ucast r :: u8) < 18" by (simp add: word_less_nat_alt)
    from registers_write_wf [OF wf this] that(2) u show ?thesis by (auto intro: reg_upd_wf [OF wf])
  qed
  with assms show ?thesis unfolding write_register_def
    by (intro safe_value safe_rules set_registers_wf) (auto simp: c_assert_def split: if_splits)
qed

lemma write_registers_safe [safe_rules]: "gdb_wf n st \<Longrightarrow> safe n (write_registers u st is data)"
  by (induction "is" arbitrary: st data) (auto intro!: safe_state [OF write_register_safe] safe_rules)

lemma write_general_registers_safe [safe_rules]: "gdb_wf n st \<Longrightarrow> safe_end n (write_general_registers u fuel st data)"
  unfolding write_general_registers_def
proof (intro safe_end_state [OF write_registers_safe] safe_end_value send_data_safe set_registers_wf)
  fix g v regs assume "gdb_wf n g" "registers_write_cpsr (reg (arm g)) v = Some regs"
  then show "regs_wf regs" by (auto simp: gdb_wf_def registers_write_cpsr_wf intro: reg_upd_cpsr_wf)
qed

lemma write_single_register_safe [safe_rules]: "gdb_wf n st \<Longrightarrow> safe_end n (write_single_register u fuel st data)"
  unfolding write_single_register_def
  by (intro safe_end_value safe_end_state [OF write_register_safe] safe_rules)

lemma read_memory_loop_safe: "gdb_wf n st \<Longrightarrow> safe n (read_memory_loop st a pos v left)"
proof (induction left arbitrary: st a pos v)
  case (Suc left)
  show ?case unfolding read_memory_loop.simps
    by (intro safe_value) (auto intro!: safe_state [OF put_text_safe] safe_rules Suc)
qed (simp add: safe_def)

lemma read_memory_safe [safe_rules]: "gdb_wf n st \<Longrightarrow> safe_end n (read_memory u fuel st data)"
  unfolding read_memory_def
  by (intro safe_end_value) (auto intro!: safe_end_state [OF safe_if] safe_state [OF put_text_safe] read_memory_loop_safe safe_rules)

lemma write_memory_loop_wf:
  "gdb_wf n st \<Longrightarrow> write_memory_loop st a left content = Some (ok, g) \<Longrightarrow> gdb_wf n g"
proof (induction left arbitrary: st a content)
  case (Suc left)
  obtain v content' r m where *: "memory_write_byte (mem (arm st)) a v = Some (r, m)"
    "(if r = 0 then write_memory_loop (st\<lparr>arm := (arm st)\<lparr>mem := m\<rparr>\<rparr>) (a + 1) left content'
      else Some (False, st\<lparr>arm := (arm st)\<lparr>mem := m\<rparr>\<rparr>)) = Some (ok, g)"
    using Suc.prems(2) by (auto simp: Let_def elim!: bind_SomeE split: if_splits)
  have "core_wf (arm st)" "taille (mem (arm st)) = n" using Suc.prems(1) by (simp_all add: gdb_wf_def)
  with write_byte_wf [OF *(1)] have "gdb_wf n (st\<lparr>arm := (arm st)\<lparr>mem := m\<rparr>\<rparr>)"
    using Suc.prems(1) by (intro gdb_wf_update) (auto simp: core_wf_mem_update)
  with Suc.IH *(2) show ?case by (auto split: if_splits)
qed simp

lemma write_memory_safe [safe_rules]: "gdb_wf n st \<Longrightarrow> safe_end n (write_memory_binary u fuel st data)"
  unfolding write_memory_binary_def
  by (intro safe_end_value)
    (auto intro!: safe_end_value safe_rules dest: write_memory_loop_wf split: if_splits)

text \<open>The breakpoint commands change nothing but the table.\<close>

definition same_but_table :: "gdb_protocol_data \<Rightarrow> gdb_protocol_data \<Rightarrow> bool" where
  "same_but_table st g \<longleftrightarrow> arm g = arm st \<and> packet g = packet st \<and> pkt_len g = pkt_len st \<and> sent g = sent st \<and>
     target_exception g = target_exception st \<and> shut_down g = shut_down st"

lemma breakpoint_frame:
  "gdb_add_breakpoint st a = Some (r, g) \<Longrightarrow> same_but_table st g"
  "gdb_remove_breakpoint st a = Some (r, g) \<Longrightarrow> same_but_table st g"
  by (auto simp: same_but_table_def gdb_add_breakpoint_def gdb_remove_breakpoint_def Let_def elim!: bind_SomeE
      split: if_splits)

lemma breakpoint_wf:
  assumes "gdb_wf n st"
  shows "gdb_add_breakpoint st a = Some (r, g) \<Longrightarrow> gdb_wf n g"
    "gdb_remove_breakpoint st a = Some (r, g) \<Longrightarrow> gdb_wf n g"
proof -
  have wf: "bp_wf st" using assms by (rule gdb_wf_sel)
  have other: "same_but_table st g \<Longrightarrow> bp_wf g \<Longrightarrow> gdb_wf n g" for g
    using assms by (simp add: gdb_wf_def same_but_table_def)
  show "gdb_add_breakpoint st a = Some (r, g) \<Longrightarrow> gdb_wf n g"
    using add_breakpoint_spec [OF wf, of a] wf
    by (intro other breakpoint_frame(1)) (auto split: if_splits)
  show "gdb_remove_breakpoint st a = Some (r, g) \<Longrightarrow> gdb_wf n g"
    using remove_breakpoint_spec [OF wf, of a] by (intro other breakpoint_frame(2)) auto
qed

lemma breakpoint_commands_safe [safe_rules]:
  assumes "gdb_wf n st"
  shows "safe_end n (set_breakpoint u fuel st data)" "safe_end n (remove_breakpoint u fuel st data)"
  unfolding set_breakpoint_def remove_breakpoint_def
  using breakpoint_wf [OF assms] send_data_safe assms
  by (auto intro!: safe_end_value split: if_splits)

section \<open>Packets and the scanner\<close>

lemma handlers: "set gdb_init \<subseteq> insert None (Some ` {cont, cont_with_signal, kill_request, query, read_general_registers,
  read_memory, read_single_register, reason, set_thread, step, step_with_signal, write_general_registers,
  write_memory_binary, write_single_register, remove_breakpoint, set_breakpoint})"
  unfolding gdb_init_def by (rule order_trans [OF set_update_subset_insert], intro insert_subsetI,
    simp, (rule order_trans [OF set_update_subset_insert], intro insert_subsetI, simp)+, simp)

lemma handlers_safe:
  assumes "gdb_wf n st" "gdb_init ! unat (i :: u8) = Some handler"
  shows "safe_end n (handler u fuel st data)"
proof -
  have "unat i < length gdb_init" using unsigned_less [of i] by (simp add: gdb_init_def)
  then have "Some handler \<in> set gdb_init" using assms(2) by (metis nth_mem)
  with handlers have "handler \<in> {cont, cont_with_signal, kill_request, query, read_general_registers,
    read_memory, read_single_register, reason, set_thread, step, step_with_signal, write_general_registers,
    write_memory_binary, write_single_register, remove_breakpoint, set_breakpoint}" by auto
  then show ?thesis using assms(1) by (elim insertE emptyE; simp) (rule safe_rules; assumption)+
qed

lemma packet_analysis_safe [safe_rules]:
  assumes "gdb_wf n st"
  shows "safe_end n (gdb_packet_analysis u fuel st pkt k)"
  unfolding gdb_packet_analysis_def Let_def gdb_send_ack_def gdb_require_retransmission_def
  by (intro safe_end_value safe_end_if safe_end_then [OF rio_send_safe [OF assms]] rio_send_safe assms)
    (auto split: option.split intro: send_data_safe handlers_safe)

text \<open>The state of the scanner: the error buffer never runs over.\<close>

definition parser_wf :: "u64 \<Rightarrow> parser_data \<Rightarrow> bool" where
  "parser_wf n d \<longleftrightarrow> gdb_wf n (gdb d) \<and> length (buffer d) = MAX_ERROR_SIZE \<and> len d < MAX_ERROR_SIZE"

lemma handle_error_cases:
  assumes "parser_wf n d"
  obtains code msg where "handle_error d = Some (Exit code msg)"
  | d' where "handle_error d = Some (Continue d')" "parser_wf n d'" "len d' = 0" "packets d' = packets d" "echoed d' = echoed d"
proof (cases "len d = 0")
  case True
  with assms show ?thesis by (intro that(2)) (auto simp: handle_error_def parser_wf_def)
next
  case False
  then have c: "len d \<le> length (buffer d)" "len d \<noteq> 0" using assms by (auto simp: parser_wf_def)
  show ?thesis
  proof (cases "rio_send (gdb d) (bytes ''-'')")
    case (Exit code msg)
    with c assms show ?thesis by (intro that(1)) (auto simp: handle_error_def gdb_require_retransmission_def parser_wf_def)
  next
    case (Continue g)
    have "gdb_wf n g" using safe_endD [OF rio_send_safe] Continue assms by (auto simp: parser_wf_def)
    with Continue c assms show ?thesis
      by (intro that(2) [of "d\<lparr>buffer := (buffer d)[len d := 0], gdb := g, len := 0\<rparr>"])
        (auto simp: handle_error_def gdb_require_retransmission_def parser_wf_def)
  qed
qed

lemma handle_error_wf: "handle_error d = Some (Continue d') \<Longrightarrow> parser_wf n d \<Longrightarrow> parser_wf n d' \<and> packets d' = packets d"
  by (erule handle_error_cases) auto

lemma handle_error_defined: "parser_wf n d \<Longrightarrow> handle_error d \<noteq> None"
  by (erule handle_error_cases) auto

lemma add_character_cases:
  assumes "parser_wf n d"
  obtains code msg where "add_character_to_error d c = Some (Exit code msg)"
  | d' where "add_character_to_error d c = Some (Continue d')" "parser_wf n d'"
proof (cases "MAX_ERROR_SIZE - 2 < len d")
  case True
  from handle_error_cases [OF assms] show ?thesis
  proof cases
    case 1
    with True show ?thesis by (intro that(1)) (simp add: add_character_to_error_def)
  next
    case 2
    with True show ?thesis
      by (intro that(2)) (auto simp: add_character_to_error_def parser_wf_def MAX_ERROR_SIZE_def)
  qed
next
  case False
  with assms show ?thesis by (intro that(2)) (auto simp: add_character_to_error_def parser_wf_def MAX_ERROR_SIZE_def)
qed

lemma add_character_wf: "add_character_to_error d c = Some (Continue d') \<Longrightarrow> parser_wf n d \<Longrightarrow> parser_wf n d'"
  by (erule add_character_cases [of n d c]) auto

lemma add_character_defined: "parser_wf n d \<Longrightarrow> add_character_to_error d c \<noteq> None"
  by (erule add_character_cases [of n d c]) auto

lemma yy_action_wf:
  assumes wf: "parser_wf n d" and act: "yy_action jk fuel r tx tail d = Some (Continue d')"
  shows "parser_wf n d'"
proof -
  have with_gdb: "parser_wf n (d1\<lparr>gdb := g\<rparr>)" "parser_wf n (d1\<lparr>gdb := g, packets := k\<rparr>)"
    if "gdb_wf n g" "parser_wf n d1" for g k d1
    using that by (simp_all add: parser_wf_def)
  have g1: "gdb_wf n (gdb d1)" if "parser_wf n d1" for d1 using that by (simp add: parser_wf_def)
  have "parser_wf n (d\<lparr>echoed := e\<rparr>)" for e using wf by (simp add: parser_wf_def)
  with act handle_error_wf [OF _ wf] add_character_wf [OF _ wf] with_gdb
    safe_endD [OF transmit_safe [OF g1]] safe_endD [OF packet_analysis_safe [OF g1]]
  show ?thesis unfolding yy_action_def
    by (auto simp: and_then_Continue elim!: bind_SomeE split: if_splits)
qed

text \<open>The scanner changes the state of the debugger only by the actions of its rules.\<close>

definition next_data :: "'w yy_next_label \<Rightarrow> parser_data" where
  "next_data x = (case x of Goto label g d w \<Rightarrow> d | Return d w \<Rightarrow> d)"

lemma refill_data: "yy_refill rd alloc fuel amount g d w = Some (Continue x) \<Longrightarrow> parser_wf n d \<Longrightarrow> parser_wf n (next_data x)"
  using handle_error_wf [of d _ n]
  by (auto simp: yy_refill_def Let_def next_data_def and_then_Continue elim!: bind_SomeE split: or_exit.splits eob_action.splits)

lemma real_NUL_data: "yy_real_NUL amount g d w = Some (Continue x) \<Longrightarrow> next_data x = d"
  by (auto simp: yy_real_NUL_def Let_def next_data_def elim!: bind_SomeE split: if_splits)

lemma end_of_buffer_data:
  "yy_end_of_buffer rd alloc fuel cp g d w = Some (Continue x) \<Longrightarrow> parser_wf n d \<Longrightarrow> parser_wf n (next_data x)"
  unfolding yy_end_of_buffer_def Let_def
  by (elim bind_SomeE) (simp split: if_splits; drule real_NUL_data refill_data; simp)

lemma find_action_data:
  assumes "yy_find_action rd alloc jk fuel s cp bp g d w = Some (Continue x)" "parser_wf n d"
  shows "parser_wf n (next_data x)"
proof -
  obtain act cp' g1 where a: "YY_DO_BEFORE_ACTION g cp' bp = Some g1"
    "(if act = 0 then do {
       g \<leftarrow> unhold g1 cp';
       Some (Continue (Goto (Find_action (fst (yy_last_accepting g)) (snd (yy_last_accepting g)) bp) g d w))
     }
     else if act < 6 then
       and_then (yy_action jk fuel act (take (yyleng g1) (drop bp (yy_ch_buf g1))) (drop (cp' + 1) (yy_ch_buf g1)) d) (\<lambda>d'. do {
         g \<leftarrow> yy_written jk act d g1;
         Some (Continue (Goto Scan g d' w))
       })
     else if act = 6 then yy_end_of_buffer rd alloc fuel cp' g1 d w
     else Some (Exit 2 ''fatal flex scanner internal error--no action found'')) = Some (Continue x)"
    using assms(1) unfolding yy_find_action_def by (auto elim!: bind_SomeE)
  consider "act = 0" | "0 < act" "act < 6" | "act = 6" | "6 < act" by linarith
  then show ?thesis
  proof cases
    case 2
    then obtain d' where "yy_action jk fuel act (take (yyleng g1) (drop bp (yy_ch_buf g1))) (drop (cp' + 1) (yy_ch_buf g1)) d =
        Some (Continue d')" "next_data x = d'"
      using a(2) by (auto simp: next_data_def and_then_Continue elim!: bind_SomeE)
    with yy_action_wf [OF assms(2)] show ?thesis by simp
  next
    case 3
    with a(2) assms(2) end_of_buffer_data show ?thesis by simp
  qed (use a(2) assms(2) in \<open>auto simp: next_data_def elim!: bind_SomeE\<close>)
qed

lemma yy_step_data:
  assumes "yy_step rd alloc jk fuel label g d w = Some (Continue x)" "parser_wf n d"
  shows "parser_wf n (next_data x)"
proof (cases label)
  case (Find_action s cp bp)
  with assms find_action_data show ?thesis unfolding yy_step_def by simp
qed (use assms in \<open>auto simp: yy_step_def next_data_def Let_def elim!: bind_SomeE\<close>)

lemma yylex_loop_data:
  "yylex_loop rd alloc jk fuel jumps label g d w = Some (Continue (d', w')) \<Longrightarrow> parser_wf n d \<Longrightarrow> parser_wf n d'"
proof (induction jumps arbitrary: label g d w)
  case (Suc jumps)
  obtain r where r: "yy_step rd alloc jk fuel label g d w = Some r" using Suc.prems(1) by (auto elim: bind_SomeE)
  then obtain x where x: "r = Continue x" using Suc.prems(1) by (cases r) auto
  have "parser_wf n (next_data x)" using r x by (intro yy_step_data [OF _ Suc.prems(2)]) simp
  with Suc.prems(1) Suc.IH r x show ?case by (cases x) (auto simp: next_data_def)
qed simp

section \<open>The session\<close>

text \<open>
  Whatever bytes a debugger sends and however they arrive, when the scanner returns the
  processor is well formed, the memory has its size, the breakpoints are sorted and at most 1024, and the
  code of the last step is 0, UNDEFINED_INSTRUCTION or 255. So the stop reasons \<open>S0A\<close>, \<open>S0B\<close> and \<open>X05\<close>
  are never sent.
\<close>

lemma debugger_invariant:
  assumes "parser_wf n d" "yylex rd alloc jk fuel jumps d w = Some (Continue (d', w'))"
  shows "parser_wf n d'"
  using assms(2) by (auto simp: yylex_def elim!: bind_SomeE intro: yylex_loop_data [OF _ assms(1)])

end
