(* ===== verification/Gdb_Data.thy ===== *)
theory Gdb_Data
  imports Gdb_Invariant
begin

text \<open>
  What the debugger reads and writes: the registers as one text of hexadecimal words
  (commands \<open>g\<close> and \<open>G\<close>), the memory as hexadecimal bytes (\<open>m\<close>) and as escaped binary data (\<open>X\<close>). A
  reply is given as the \<open>rio_send\<close> that ends the command: it adds the frame to the bytes sent, or the
  write fails and the program ends.
\<close>

text \<open>Nothing has been sent and the connection is the same.\<close>

definition same_conn :: "gdb_protocol_data \<Rightarrow> gdb_protocol_data \<Rightarrow> bool" where
  "same_conn st g \<longleftrightarrow> sent g = sent st \<and> shut_down g = shut_down st \<and> conn g = conn st"

lemma same_conn_update [simp]:
  "same_conn st (g\<lparr>packet := p\<rparr>) = same_conn st g" "same_conn st (g\<lparr>pkt_len := n\<rparr>) = same_conn st g"
  "same_conn st (g\<lparr>arm := a\<rparr>) = same_conn st g" "same_conn st st"
  by (simp_all add: same_conn_def)

section \<open>The reply as it grows\<close>

text \<open>
  The packet buffer of \<open>g\<close> holds the text \<open>t\<close> behind its first byte, followed by a zero byte once
  something has been written; nothing else differs from \<open>st\<close>.
\<close>

definition text_in :: "gdb_protocol_data \<Rightarrow> u8 list \<Rightarrow> gdb_protocol_data \<Rightarrow> bool" where
  "text_in st t g \<longleftrightarrow> (\<exists>y rest. g = st\<lparr>packet := y # t @ rest\<rparr> \<and> length (y # t @ rest) = MAX_PACKET_SIZE \<and>
     (t \<noteq> [] \<longrightarrow> rest \<noteq> [] \<and> hd rest = 0))"

lemma text_inE:
  assumes "text_in st t g"
  obtains y rest where "g = st\<lparr>packet := y # t @ rest\<rparr>" "length (y # t @ rest) = MAX_PACKET_SIZE"
    "t \<noteq> [] \<Longrightarrow> rest \<noteq> [] \<and> hd rest = 0"
  using assms unfolding text_in_def by blast

lemma text_in_start: "length (packet st) = MAX_PACKET_SIZE \<Longrightarrow> text_in st [] st"
proof -
  assume l: "length (packet st) = MAX_PACKET_SIZE"
  then obtain y rest where p: "packet st = y # rest" by (cases "packet st") (auto simp: MAX_PACKET_SIZE_def)
  then have "st = st\<lparr>packet := y # [] @ rest\<rparr>" by simp
  with l p show ?thesis unfolding text_in_def by (intro exI [of _ y] exI [of _ rest]) simp
qed

lemma text_in_same:
  "text_in st t g \<Longrightarrow> arm g = arm st \<and> sent g = sent st \<and> breakpoints g = breakpoints st \<and>
     breakpoints_number g = breakpoints_number st \<and> target_exception g = target_exception st \<and> shut_down g = shut_down st"
  by (auto simp: text_in_def)

text \<open>Writing at the end of the text.\<close>

lemma put_text_in:
  assumes "text_in st t g" "s \<noteq> []" "length t + length s + 2 \<le> MAX_PACKET_SIZE"
  shows "\<exists>g'. put_text g (1 + length t) s = Some g' \<and> text_in st (t @ s) g'"
proof -
  obtain y rest where g: "g = st\<lparr>packet := y # t @ rest\<rparr>" "length (y # t @ rest) = MAX_PACKET_SIZE"
    using assms(1) by (rule text_inE)
  let ?p = "y # (t @ s) @ 0 # drop (length s + 1) rest"
  have l: "length s + 1 \<le> length rest" using g(2) assms(3) by simp
  then have p: "put_bytes (y # t @ rest) (1 + length t) (s @ [0]) = Some ?p" "length ?p = MAX_PACKET_SIZE"
    using g(2) by (simp_all add: put_bytes_def)
  then have "put_text g (1 + length t) s = Some (st\<lparr>packet := ?p\<rparr>)" by (simp add: put_text_def g(1))
  moreover have "text_in st (t @ s) (st\<lparr>packet := ?p\<rparr>)"
    unfolding text_in_def using p(2) by (intro exI [of _ y] exI [of _ "0 # drop (length s + 1) rest"]) simp
  ultimately show ?thesis by blast
qed

text \<open>Sending the text: the reply is its frame.\<close>

lemma send_text_in:
  assumes "text_in st t g" "t \<noteq> []" "0 \<notin> set t" "length t + 5 \<le> MAX_PACKET_SIZE"
  shows "\<exists>pkt. gdb_send_buffer g = Some (rio_send (st\<lparr>packet := pkt, pkt_len := length t + 4\<rparr>) (frame t))"
proof -
  obtain y rest where g: "g = st\<lparr>packet := y # t @ rest\<rparr>" "length (y # t @ rest) = MAX_PACKET_SIZE" "rest \<noteq> []" "hd rest = 0"
    using assms(1,2) by (auto elim: text_inE)
  then obtain r where r: "rest = 0 # r" by (cases rest) auto
  have "3 \<le> length r" using g(2) assms(4) r by simp
  from send_buffer_eval [OF _ assms(3) this, of g y] g(1) r show ?thesis by auto
qed

section \<open>Registers\<close>

definition unknown_text :: "nat \<Rightarrow> u8 list" where
  "unknown_text k = concat (replicate k (bytes ''xxxxxxxx''))"

text \<open>The text of the registers: R0 to R15, 25 registers the simulator does not have, and the CPSR.\<close>

definition reg_text :: "arm_core \<Rightarrow> u8 list" where
  "reg_text p = concat (map (\<lambda>i. hex_word (gpr p i)) [0..<16]) @ unknown_text 25 @ hex_word (cpsr p)"

lemma length_unknown [simp]: "length (unknown_text k) = 8 * k"
  by (induction k) (simp_all add: unknown_text_def bytes_def)

lemma length_words: "length (concat (map (\<lambda>i. hex_word (f i)) is)) = 8 * length is"
  by (induction "is") simp_all

lemma hex_word_ne [simp]: "hex_word v \<noteq> []" "hex_byte b \<noteq> []"
  using length_hex(2) [of v] length_hex(1) [of b] by (metis list.size(3) zero_neq_numeral)+

lemma put_registers_in:
  "text_in st t g \<Longrightarrow> core_wf (arm st) \<Longrightarrow> \<forall>i \<in> set is. i < 16 \<Longrightarrow> length t + 8 * length is + 2 \<le> MAX_PACKET_SIZE \<Longrightarrow>
   \<exists>g'. put_registers g (1 + length t) is = Some g' \<and>
     text_in st (t @ concat (map (\<lambda>i. hex_word (gpr (arm st) i)) is)) g'"
proof (induction "is" arbitrary: g t)
  case (Cons i "is")
  have i: "i < 16" "unat (of_nat i :: u8) = i"
    using Cons.prems(3) by (simp_all add: unat_of_nat take_bit_nat_eq_self)
  then have "(of_nat i :: u8) < 16" "(of_nat i :: u8) < 18" by (simp_all add: word_less_nat_alt)
  then have "read_register g (1 + length t) (of_nat i) = put_text g (1 + length t) (hex_word (gpr (arm st) i))"
    using Cons.prems(2) i by (simp add: read_register_def write_uint32_def registers_read_wf gpr_def text_in_same [OF Cons.prems(1)])
  moreover obtain g1 where g1: "put_text g (1 + length t) (hex_word (gpr (arm st) i)) = Some g1"
    "text_in st (t @ hex_word (gpr (arm st) i)) g1"
    using put_text_in [OF Cons.prems(1), of "hex_word (gpr (arm st) i)"] Cons.prems(4) by auto
  ultimately show ?case
    using Cons.IH [OF g1(2) Cons.prems(2)] Cons.prems(3,4) by simp
qed auto

lemma put_unknown_in:
  "text_in st t g \<Longrightarrow> length t + 8 * k + 2 \<le> MAX_PACKET_SIZE \<Longrightarrow>
   \<exists>g'. put_unknown g (1 + length t) k = Some g' \<and> text_in st (t @ unknown_text k) g'"
proof (induction k arbitrary: g t)
  case (Suc k)
  have l: "length (bytes ''xxxxxxxx'') = 8" by (simp add: bytes_def)
  obtain g1 where g1: "put_text g (1 + length t) (bytes ''xxxxxxxx'') = Some g1" "text_in st (t @ bytes ''xxxxxxxx'') g1"
    using put_text_in [OF Suc.prems(1), of "bytes ''xxxxxxxx''"] Suc.prems(2) by (auto simp: bytes_def)
  from Suc.IH [OF g1(2)] Suc.prems(2) g1(1) show ?case by (simp add: unknown_text_def l)
qed (simp add: unknown_text_def)

lemma words_clean: "0 \<notin> set (concat (map (\<lambda>i. hex_word (f i)) is))" "0 \<notin> set (hex_word v)" "0 \<notin> set (unknown_text k)"
  using hex_text_clean by (auto simp: hex_word_def unknown_text_def bytes_def)

text \<open>The command \<open>g\<close>.\<close>

lemma read_registers_eval:
  assumes "core_wf (arm st)" "length (packet st) = MAX_PACKET_SIZE"
  shows "\<exists>pkt. read_general_registers u fuel st data =
    Some (rio_send (st\<lparr>packet := pkt, pkt_len := 340\<rparr>) (frame (reg_text (arm st))))"
proof -
  let ?w = "concat (map (\<lambda>i. hex_word (gpr (arm st) i)) [0..<16])"
  have lw: "length ?w = 128" by (simp add: length_words)
  obtain g1 where g1: "put_registers st 1 [0..<16] = Some g1" "text_in st ?w g1"
    using put_registers_in [OF text_in_start [OF assms(2)] assms(1), of "[0..<16]"] by (auto simp: MAX_PACKET_SIZE_def)
  obtain g2 where g2: "put_unknown g1 129 24 = Some g2" "text_in st (?w @ unknown_text 24) g2"
    using put_unknown_in [OF g1(2), of 24] lw by (auto simp: MAX_PACKET_SIZE_def)
  obtain g3 where g3: "put_unknown g2 321 1 = Some g3" "text_in st ((?w @ unknown_text 24) @ unknown_text 1) g3"
    using put_unknown_in [OF g2(2), of 1] lw by (auto simp: MAX_PACKET_SIZE_def)
  have "replicate 24 (bytes ''xxxxxxxx'') @ replicate 1 (bytes ''xxxxxxxx'') = replicate 25 (bytes ''xxxxxxxx'')"
    by (subst replicate_add [symmetric]) simp
  then have "unknown_text 24 @ unknown_text 1 = unknown_text 25" unfolding unknown_text_def by (metis concat_append)
  then have t3: "text_in st (?w @ unknown_text 25) g3" using g3(2) by simp
  have cpsr: "registers_read_cpsr (reg (arm g3)) = Some (cpsr (arm st))"
    using assms(1) by (simp add: text_in_same [OF t3] registers_read_cpsr_wf cpsr_def)
  obtain g4 where g4: "put_text g3 329 (hex_word (cpsr (arm st))) = Some g4" "text_in st (reg_text (arm st)) g4"
    using put_text_in [OF t3, of "hex_word (cpsr (arm st))"] lw by (auto simp: MAX_PACKET_SIZE_def reg_text_def)
  have t: "reg_text (arm st) \<noteq> []" "0 \<notin> set (reg_text (arm st))" "length (reg_text (arm st)) = 336"
    using words_clean lw by (auto simp: reg_text_def)
  have k: "8 * 3 = (24 :: nat)" by simp
  have "read_general_registers u fuel st data = gdb_send_buffer g4"
    unfolding read_general_registers_def k write_uint32_def g1(1) Option.bind.bind_lunit g2(1) g3(1) cpsr g4(1) ..
  with send_text_in [OF g4(2) t(1,2)] t(3) show ?thesis by (simp add: MAX_PACKET_SIZE_def)
qed

text \<open>The command \<open>G\<close> on the text of a well-formed processor.\<close>

lemma set_registers_sel [simp]:
  "reg (arm (set_registers st r)) = r" "mem (arm (set_registers st r)) = mem (arm st)"
  "packet (set_registers st r) = packet st"
  by (simp_all add: set_registers_def)

lemma write_registers_eval:
  "regs_wf (reg (arm st)) \<Longrightarrow> \<forall>i \<in> set is. i < 16 \<Longrightarrow> distinct is \<Longrightarrow> 0 \<in> set rest \<Longrightarrow>
   \<exists>r. write_registers u st is (concat (map (\<lambda>i. hex_word (f i)) is) @ rest) = Some (set_registers st r) \<and> regs_wf r \<and>
     (\<forall>i < 18. regv r i = (if i \<in> set is then f i else regv (reg (arm st)) i))"
proof (induction "is" arbitrary: st)
  case Nil
  then show ?case by (intro exI [of _ "reg (arm st)"]) (simp add: set_registers_def)
next
  case (Cons i "is")
  have i: "i < 16" "unat (of_nat i :: u32) = i" "unat (of_nat i :: u8) = i"
    using Cons.prems(2) by (simp_all add: unat_of_nat take_bit_nat_eq_self)
  then have lt: "(of_nat i :: u32) < 16" "(of_nat i :: u8) < 18" by (simp_all add: word_less_nat_alt)
  let ?r = "reg_upd (reg (arm st)) i (f i)" and ?data = "concat (map (\<lambda>i. hex_word (f i)) is) @ rest"
  have "ucast (of_nat i :: u32) = (of_nat i :: u8)" using i by (simp add: word_unat_eq_iff unsigned_ucast_eq take_bit_nat_eq_self)
  moreover have "read_uint32 (hex_word (f i) @ ?data) (junk_a u) = Some (f i)"
    unfolding read_uint32_def using Cons.prems(4) by (intro sscanf_hex_word) simp
  ultimately have step: "write_register u st (of_nat i) (hex_word (f i) @ ?data) = Some (set_registers st ?r)"
    using Cons.prems(1) i lt by (simp add: write_register_def registers_write_wf)
  have wf: "regs_wf ?r" using Cons.prems(1) i by (intro reg_upd_wf) simp_all
  from Cons.IH [of "set_registers st ?r"] wf Cons.prems obtain r where
    r: "write_registers u (set_registers st ?r) is ?data = Some (set_registers (set_registers st ?r) r)" "regs_wf r"
      "\<forall>j < 18. regv r j = (if j \<in> set is then f j else regv ?r j)" by auto
  have "set_registers (set_registers st ?r) r = set_registers st r" by (simp add: set_registers_def)
  with step r Cons.prems(1,3) i show ?case by (intro exI [of _ r]) auto
qed

lemma write_registers_command:
  assumes "core_wf (arm st)" "length (packet st) = MAX_PACKET_SIZE" "regs_wf r0" "0 \<in> set rest"
    "text = concat (map (\<lambda>i. hex_word (regv r0 i)) [0..<16]) @ unknown_text 25 @ hex_word (regv r0 16)"
  shows "\<exists>r pkt. write_general_registers u fuel st (text @ rest) =
      Some (rio_send (st\<lparr>arm := (arm st)\<lparr>reg := r\<rparr>, packet := pkt, pkt_len := 6\<rparr>) (frame (bytes ''OK''))) \<and>
    regs_wf r \<and> (\<forall>i < 17. regv r i = regv r0 i) \<and> regv r 17 = regv (reg (arm st)) 17"
proof -
  let ?w = "concat (map (\<lambda>i. hex_word (regv r0 i)) [0..<16])"
  have lw: "length ?w = 128" by (simp add: length_words)
  have wf: "regs_wf (reg (arm st))" using assms(1) by simp
  have z: "0 \<in> set (unknown_text 25 @ hex_word (regv r0 16) @ rest)" using assms(4) by simp
  obtain r1 where r1: "write_registers u st [0..<16] (text @ rest) = Some (set_registers st r1)" "regs_wf r1"
    "\<forall>i < 18. regv r1 i = (if i \<in> set [0..<16] then regv r0 i else regv (reg (arm st)) i)"
    using write_registers_eval [OF wf _ _ z, of "[0..<16]" u "regv r0"] unfolding assms(5) append_assoc by fastforce
  have "drop 328 (text @ rest) = hex_word (regv r0 16) @ rest" using lw by (simp add: assms(5))
  then have c: "read_uint32 (drop (16 * 8 + 8 * 3 * 8 + 8) (text @ rest)) (junk_a u) = Some (regv r0 16)"
    using sscanf_hex_word [OF assms(4)] by (simp add: read_uint32_def)
  let ?r = "reg_upd r1 16 (regv r0 16 AND NOT CPSR_Reserved_Mask)"
  have "regv r0 16 AND NOT CPSR_Reserved_Mask = regv r0 16" using cpsr_reserved [OF assms(3)] by (rule and_not_disjoint)
  then have r: "regs_wf ?r" "\<forall>i < 17. regv ?r i = regv r0 i" "regv ?r 17 = regv (reg (arm st)) 17"
    using r1(2,3) reg_upd_cpsr_wf [OF r1(2), of "regv r0 16"] by auto
  have ok: "0 \<notin> set (bytes ''OK'')" "length ''OK'' = 2" by (simp_all add: bytes_codes)
  obtain pkt where "gdb_send_data (set_registers (set_registers st r1) ?r) ''OK'' =
      Some (rio_send ((set_registers (set_registers st r1) ?r)\<lparr>packet := pkt, pkt_len := 6\<rparr>) (frame (bytes ''OK'')))"
    using send_data_eval [of "set_registers (set_registers st r1) ?r" "''OK''"] assms(2) ok by (auto simp: set_registers_def)
  then have "write_general_registers u fuel st (text @ rest) =
      Some (rio_send (st\<lparr>arm := (arm st)\<lparr>reg := ?r\<rparr>, packet := pkt, pkt_len := 6\<rparr>) (frame (bytes ''OK'')))"
    unfolding write_general_registers_def r1(1) c Option.bind.bind_lunit
    using registers_write_cpsr_wf [OF r1(2)] by (simp add: set_registers_def)
  with r show ?thesis by blast
qed

section \<open>Addresses and sizes\<close>

text \<open>A number as the hexadecimal digits that the debugger sends, in any length.\<close>

definition number :: "nat list \<Rightarrow> u32 \<Rightarrow> bool" where
  "number ds v \<longleftrightarrow> ds \<noteq> [] \<and> (\<forall>d \<in> set ds. d < 16) \<and> foldl (\<lambda>a d. 16 * a + d) 0 ds = unat v"

lemma hex_digits_stop:
  "\<forall>d \<in> set ds. d < 16 \<Longrightarrow> length ds \<le> w \<Longrightarrow> r = [] \<or> digit_value (hd r) = None \<Longrightarrow>
   hex_digits w acc (map hex_digit ds @ r) = (length ds, foldl (\<lambda>a d. 16 * a + d) acc ds, r)"
proof (induction ds arbitrary: acc w)
  case Nil
  then show ?case by (cases w; cases r) auto
next
  case (Cons d ds)
  then obtain w' where "w = Suc w'" by (cases w) auto
  with Cons show ?case by (simp add: digit_value_hex_digit)
qed

lemma scan_x_number:
  assumes "number ds v" "length ds \<le> w" "r = [] \<or> digit_value (hd r) = None \<and> hd r \<noteq> 120 \<and> hd r \<noteq> 88"
  shows "scan_x 32 w (map hex_digit ds @ r) = Some (Some (v, r))"
proof -
  obtain d ds' where ds: "ds = d # ds'" "\<forall>d \<in> set ds. d < 16" using assms(1) by (cases ds) (auto simp: number_def)
  have h: "\<not> is_space (hex_digit d)" "hex_digit d \<noteq> 45" "hex_digit d \<noteq> 43" using hex_digit_not_special [of d] ds by auto
  define xs where "xs = map hex_digit ds @ r"
  have x: "hd xs = hex_digit d" "dropWhile is_space xs = xs" using h ds(1) by (simp_all add: xs_def)
  have p: "xs ! 1 \<noteq> 120 \<and> xs ! 1 \<noteq> 88" if "2 \<le> length xs"
  proof (cases ds')
    case Nil
    then show ?thesis using assms(3) that by (cases r) (auto simp: xs_def ds(1))
  next
    case (Cons e es)
    then show ?thesis using hex_digit_not_special [of e] ds by (simp add: xs_def)
  qed
  have no: "(0 < w \<and> xs \<noteq> [] \<and> hd xs = 45) = False" "(0 < w \<and> xs \<noteq> [] \<and> (hd xs = 45 \<or> hd xs = 43)) = False"
    "(2 \<le> w \<and> 2 \<le> length xs \<and> hd xs = 48 \<and> (xs ! 1 = 120 \<or> xs ! 1 = 88)) = False"
    using x h p by auto
  have d: "hex_digits w 0 xs = (length ds, unat v, r)"
    using hex_digits_stop [OF ds(2) assms(2), of r 0] assms(1,3) by (auto simp: xs_def number_def)
  have "unat v < 2 ^ LENGTH(32)" by (rule unsigned_less)
  then show ?thesis
    unfolding xs_def [symmetric] scan_x_def Let_def x(2) no if_False d using ds(1) by simp
qed

text \<open>An address, a comma and a size, up to a zero byte or a colon.\<close>

definition range_text :: "nat list \<Rightarrow> nat list \<Rightarrow> u8 list" where
  "range_text ads szs = map hex_digit ads @ 44 # map hex_digit szs"

lemma digits_clean: "\<forall>d \<in> set ds. d < 16 \<Longrightarrow> 0 \<notin> set (map hex_digit ds) \<and> 58 \<notin> set (map hex_digit ds)"
proof -
  have "list_all (\<lambda>d. hex_digit d \<noteq> 58) [0..<16]" by code_simp
  then have "d < 16 \<Longrightarrow> hex_digit d \<noteq> 58" for d by (auto simp: list_all_iff)
  then show "\<forall>d \<in> set ds. d < 16 \<Longrightarrow> ?thesis" using hex_digit_not_special by fastforce
qed

lemma range_text_clean: "number ads a \<Longrightarrow> number szs n \<Longrightarrow> 0 \<notin> set (range_text ads szs) \<and> 58 \<notin> set (range_text ads szs)"
  using digits_clean by (simp add: range_text_def number_def)

lemma sscanf_range:
  assumes "number ads a" "number szs n" "0 \<in> set r" "hd r = 58 \<or> hd r = 0"
  shows "sscanf_x_x (range_text ads szs @ r) x y = Some (a, n)"
proof -
  let ?r = "takeWhile (\<lambda>c. c \<noteq> 0) r"
  have r: "?r = [] \<or> digit_value (hd ?r) = None \<and> hd ?r \<noteq> 120 \<and> hd ?r \<noteq> 88"
    using assms(3,4) by (cases r) (auto simp: digit_value_def)
  have "cstr (range_text ads szs @ r) = Some (range_text ads szs @ ?r)"
    using range_text_clean [OF assms(1,2)] assms(3) by (intro cstr_clean) auto
  moreover have "scan_x 32 w (map hex_digit ads @ 44 # map hex_digit szs @ ?r) = Some (Some (a, 44 # map hex_digit szs @ ?r))"
    if "length ads \<le> w" for w
    using scan_x_number [OF assms(1) that, of "44 # map hex_digit szs @ ?r"] by (simp add: digit_value_def)
  moreover have "scan_x 32 w (map hex_digit szs @ ?r) = Some (Some (n, ?r))" if "length szs \<le> w" for w
    by (rule scan_x_number [OF assms(2) that r])
  ultimately show ?thesis by (simp add: sscanf_x_x_def range_text_def scan_comma_x_def)
qed

section \<open>Memory\<close>

definition bytes_from :: "memory_data \<Rightarrow> u32 \<Rightarrow> nat \<Rightarrow> u8 list" where
  "bytes_from m a n = map (\<lambda>i. byte_at m (a + of_nat i)) [0..<n]"

lemma bytes_from_Suc: "bytes_from m a (Suc n) = byte_at m a # bytes_from m (a + 1) n"
  unfolding bytes_from_def upt_rec [of 0 "Suc n"] map_Suc_upt [symmetric] by (simp add: add.assoc)

lemma next_address: "mem_wf m \<Longrightarrow> unat a + Suc n \<le> unat (taille m) \<Longrightarrow> 0 < n \<Longrightarrow> unat (a + 1 :: u32) = Suc (unat a)"
  by (erule mem_wfE) (simp add: unat_word_ariths)

lemma hex_bytes_clean: "0 \<notin> set (concat (map hex_byte bs))"
  using hex_byte_clean by auto

lemma length_hex_bytes [simp]: "length (concat (map hex_byte bs)) = 2 * length bs"
  by (induction bs) simp_all

lemma length_bytes_from [simp]: "length (bytes_from m a n) = n"
  by (simp add: bytes_from_def)

text \<open>Reading: the text of the bytes, as long as it fits; a longer one leaves the buffer.\<close>

lemma read_loop_step:
  assumes "text_in st t g" "core_wf (arm st)" "unat a + Suc left \<le> unat (taille (mem (arm st)))"
  shows "read_memory_loop g a (1 + length t) v (Suc left) = Option.bind (put_text g (1 + length t) (hex_byte (byte_at (mem (arm st)) a)))
    (\<lambda>g. read_memory_loop g (a + 1) (1 + length t + 2) (byte_at (mem (arm st)) a) left)"
  using assms(2,3) by (simp add: text_in_same [OF assms(1)] read_byte_in in_mem_def)

lemma read_loop_in:
  "text_in st t g \<Longrightarrow> core_wf (arm st) \<Longrightarrow> unat a + left \<le> unat (taille (mem (arm st))) \<Longrightarrow>
   length t + 2 * left + 2 \<le> MAX_PACKET_SIZE \<Longrightarrow>
   \<exists>g'. read_memory_loop g a (1 + length t) v left = Some g' \<and>
     text_in st (t @ concat (map hex_byte (bytes_from (mem (arm st)) a left))) g'"
proof (induction left arbitrary: g t a v)
  case (Suc left)
  let ?b = "byte_at (mem (arm st)) a"
  obtain g1 where g1: "put_text g (1 + length t) (hex_byte ?b) = Some g1" "text_in st (t @ hex_byte ?b) g1"
    using put_text_in [OF Suc.prems(1), of "hex_byte ?b"] Suc.prems(4) by auto
  show ?case
  proof (cases "left = 0")
    case True
    with g1 read_loop_step [OF Suc.prems(1-3), of v] show ?thesis
      by (simp add: bytes_from_Suc) (simp add: bytes_from_def)
  next
    case False
    have "mem_wf (mem (arm st))" using Suc.prems(2) by simp
    from next_address [OF this Suc.prems(3)] False Suc.prems(3) have "unat (a + 1) + left \<le> unat (taille (mem (arm st)))" by simp
    from Suc.IH [OF g1(2) Suc.prems(2) this, of ?b] Suc.prems(4) g1(1) read_loop_step [OF Suc.prems(1-3), of v]
    show ?thesis by (simp add: bytes_from_Suc del: read_memory_loop.simps)
  qed
qed (simp add: bytes_from_def)

lemma put_text_full:
  assumes "text_in st t g" "MAX_PACKET_SIZE < length t + length s + 2"
  shows "put_text g (1 + length t) s = None"
  using assms by (auto simp: put_text_def put_bytes_def elim!: text_inE)

lemma read_loop_full:
  "text_in st t g \<Longrightarrow> core_wf (arm st) \<Longrightarrow> unat a + left \<le> unat (taille (mem (arm st))) \<Longrightarrow> left \<noteq> 0 \<Longrightarrow>
   MAX_PACKET_SIZE < length t + 2 * left + 2 \<Longrightarrow> read_memory_loop g a (1 + length t) v left = None"
proof (induction left arbitrary: g t a v)
  case (Suc left)
  let ?b = "byte_at (mem (arm st)) a"
  show ?case
  proof (cases "length t + 4 \<le> MAX_PACKET_SIZE")
    case False
    then show ?thesis using put_text_full [OF Suc.prems(1), of "hex_byte ?b"] read_loop_step [OF Suc.prems(1-3)] by simp
  next
    case True
    then obtain g1 where g1: "put_text g (1 + length t) (hex_byte ?b) = Some g1" "text_in st (t @ hex_byte ?b) g1"
      using put_text_in [OF Suc.prems(1), of "hex_byte ?b"] by auto
    have l: "left \<noteq> 0" using True Suc.prems(5) by simp
    have "mem_wf (mem (arm st))" using Suc.prems(2) by simp
    from next_address [OF this Suc.prems(3)] l Suc.prems(3) have "unat (a + 1) + left \<le> unat (taille (mem (arm st)))" by simp
    from Suc.IH [OF g1(2) Suc.prems(2) this l, of ?b] Suc.prems(5) g1(1) read_loop_step [OF Suc.prems(1-3), of v]
    show ?thesis by (simp del: read_memory_loop.simps)
  qed
qed simp

lemma send_text_full:
  assumes "text_in st t g" "t \<noteq> []" "0 \<notin> set t" "MAX_PACKET_SIZE < length t + 5"
  shows "gdb_send_buffer g = None"
proof -
  obtain y rest where g: "g = st\<lparr>packet := y # t @ rest\<rparr>" "length (y # t @ rest) = MAX_PACKET_SIZE" "rest \<noteq> []" "hd rest = 0"
    using assms(1,2) by (auto elim: text_inE)
  then obtain r where r: "rest = 0 # r" by (cases rest) auto
  then show ?thesis
    using g(1,2) assms(4) checksum_loop_text [OF assms(3), of r 1 0]
    by (simp add: gdb_send_buffer_def put_bytes_def list_update_append)
qed

text \<open>The command \<open>m\<close> on a range of the memory.\<close>

lemma read_memory_eval:
  assumes wf: "core_wf (arm st)" "length (packet st) = MAX_PACKET_SIZE"
    and n: "number ads a" "number szs n" "0 < n" "unat a + unat n \<le> unat (taille (mem (arm st)))"
  shows "if unat n \<le> 2045 then \<exists>pkt. read_memory u fuel st (range_text ads szs @ 0 # rest) =
      Some (rio_send (st\<lparr>packet := pkt, pkt_len := 2 * unat n + 4\<rparr>)
        (frame (concat (map hex_byte (bytes_from (mem (arm st)) a (unat n))))))
    else read_memory u fuel st (range_text ads szs @ 0 # rest) = None"
proof -
  let ?t = "concat (map hex_byte (bytes_from (mem (arm st)) a (unat n)))"
  have n0: "0 < unat n" using n(3) by (simp add: unat_gt_0)
  have "unat a < unat (taille (mem (arm st)))" using n(4) n0 by simp
  then have inside: "(ucast a :: u64) < memory_get_size (mem (arm st))"
    by (simp add: memory_get_size_def word_less_nat_alt)
  obtain y z rest' where p: "packet st = y # z # rest'" "length rest' + 2 = MAX_PACKET_SIZE"
    using wf(2) by (cases "packet st"; cases "tl (packet st)") (auto simp: MAX_PACKET_SIZE_def)
  let ?g0 = "st\<lparr>packet := y # 0 # rest'\<rparr>"
  have g0: "put_text st 1 [] = Some ?g0" by (simp add: put_text_def put_bytes_def p(1))
  have in0: "text_in st [] ?g0"
    unfolding text_in_def using p(2) by (intro exI [of _ y] exI [of _ "0 # rest'"]) simp
  have data: "sscanf_x_x (range_text ads szs @ 0 # rest) (junk_a u) (junk_b u) = Some (a, n)"
    by (rule sscanf_range [OF n(1,2)]) simp_all
  have eval: "read_memory u fuel st (range_text ads szs @ 0 # rest) =
      Option.bind (read_memory_loop ?g0 a 1 (junk_value u) (unat n)) gdb_send_buffer"
    using inside by (simp add: read_memory_def data g0 del: One_nat_def)
  have t: "?t \<noteq> []" "0 \<notin> set ?t" "length ?t = 2 * unat n"
    using n0 hex_bytes_clean length_bytes_from [of "mem (arm st)" a "unat n"]
    by (simp_all del: set_concat length_bytes_from, cases "bytes_from (mem (arm st)) a (unat n)") auto
  show ?thesis
  proof (cases "2 * unat n + 2 \<le> MAX_PACKET_SIZE")
    case True
    then obtain g1 where g1: "read_memory_loop ?g0 a 1 (junk_value u) (unat n) = Some g1" "text_in st ?t g1"
      using read_loop_in [OF in0 wf(1) n(4), of "junk_value u"] by auto
    show ?thesis
      using send_text_in [OF g1(2) t(1,2)] send_text_full [OF g1(2) t(1,2)] t(3)
      unfolding eval g1(1) Option.bind.bind_lunit by (simp add: MAX_PACKET_SIZE_def)
  next
    case False
    then show ?thesis
      using read_loop_full [OF in0 wf(1) n(4), of "junk_value u"] n0 by (simp add: eval MAX_PACKET_SIZE_def)
  qed
qed

text \<open>The binary data of the command \<open>X\<close>: the debugger escapes the characters of the protocol.\<close>

definition escape :: "u8 list \<Rightarrow> u8 list" where
  "escape bs = concat (map (\<lambda>b. if b \<in> {0x23, 0x24, 0x7d} then [0x7d, b XOR 0x20] else [b]) bs)"

definition bytes_at :: "memory_data \<Rightarrow> u32 \<Rightarrow> u8 list \<Rightarrow> memory_data \<Rightarrow> bool" where
  "bytes_at m a bs m' \<longleftrightarrow> mem_wf m' \<and> taille m' = taille m \<and>
     (\<forall>x. byte_at m' x = (if unat a \<le> unat x \<and> unat x < unat a + length bs then bs ! (unat x - unat a) else byte_at m x))"

lemma xor_twice: "(b XOR c) XOR c = (b :: u8)"
  by (simp add: xor.assoc)

lemma write_loop_step:
  assumes "core_wf (arm st)" "unat a < unat (taille (mem (arm st)))"
  shows "write_memory_loop st a (Suc left) (escape (b # bs) @ rest) =
    write_memory_loop (st\<lparr>arm := (arm st)\<lparr>mem := mem_upd (mem (arm st)) a b\<rparr>\<rparr>) (a + 1) left (escape bs @ rest)"
  using assms by (auto simp: escape_def write_byte_in in_mem_def Let_def xor_twice)

lemma write_loop_in:
  "core_wf (arm st) \<Longrightarrow> unat a + length bs \<le> unat (taille (mem (arm st))) \<Longrightarrow>
   \<exists>m. write_memory_loop st a (length bs) (escape bs @ rest) = Some (True, st\<lparr>arm := (arm st)\<lparr>mem := m\<rparr>\<rparr>) \<and>
     bytes_at (mem (arm st)) a bs m"
proof (induction bs arbitrary: st a)
  case Nil
  then show ?case by (intro exI [of _ "mem (arm st)"]) (auto simp: bytes_at_def)
next
  case (Cons b bs)
  have wf: "mem_wf (mem (arm st))" using Cons.prems(1) by simp
  let ?m = "mem_upd (mem (arm st)) a b"
  let ?st = "st\<lparr>arm := (arm st)\<lparr>mem := ?m\<rparr>\<rparr>"
  have i: "unat a < unat (taille (mem (arm st)))" using Cons.prems(2) by simp
  have w: "core_wf (arm ?st)" using Cons.prems(1) wf by (simp add: core_wf_mem_update)
  show ?case
  proof (cases "bs = []")
    case True
    have "bytes_at (mem (arm st)) a [b] ?m"
      using wf i by (auto simp: bytes_at_def word_unat_eq_iff)
    with True show ?thesis using write_loop_step [OF Cons.prems(1) i, of 0 b "[]" rest] by auto
  next
    case False
    then have nx: "unat (a + 1) = Suc (unat a)" using next_address [OF wf, of a "length bs"] Cons.prems(2) by simp
    with Cons.prems(2) have "unat (a + 1) + length bs \<le> unat (taille (mem (arm ?st)))" by simp
    from Cons.IH [OF w this] obtain m where
      m: "write_memory_loop ?st (a + 1) (length bs) (escape bs @ rest) = Some (True, ?st\<lparr>arm := (arm ?st)\<lparr>mem := m\<rparr>\<rparr>)"
        "bytes_at ?m (a + 1) bs m" by auto
    have "bytes_at (mem (arm st)) a (b # bs) m"
      using m(2) wf i nx unfolding bytes_at_def
      by (auto simp: word_unat_eq_iff nth_Cons' not_less_eq_eq dest!: spec [where P = "\<lambda>x. byte_at m x = _ x"])
    with m(1) write_loop_step [OF Cons.prems(1) i, of "length bs" b bs rest] show ?thesis by auto
  qed
qed

lemma bytes_at_from:
  assumes "bytes_at m a bs m'" "mem_wf m" "unat a + length bs \<le> unat (taille m)"
  shows "bytes_from m' a (length bs) = bs"
proof (rule nth_equalityI)
  fix i assume "i < length (bytes_from m' a (length bs))"
  then have i: "i < length bs" by simp
  have "unat (taille m) < 2 ^ LENGTH(32)" using assms(2) by (auto elim: mem_wfE)
  with assms(3) i have "unat a + i < 2 ^ LENGTH(32)" by simp
  then have "unat (a + of_nat i) = unat a + i"
    by (simp add: unat_word_ariths unat_of_nat take_bit_nat_eq_self mod_simps)
  with assms(1) i show "bytes_from m' a (length bs) ! i = bs ! i" by (simp add: bytes_from_def bytes_at_def)
qed simp

text \<open>The command \<open>X\<close> on a range of the memory.\<close>

lemma write_memory_eval:
  assumes wf: "core_wf (arm st)" "length (packet st) = MAX_PACKET_SIZE"
    and n: "number ads a" "number szs n" "unat n = length bs" "bs \<noteq> []" "unat a + length bs \<le> unat (taille (mem (arm st)))"
    and r: "0 \<in> set rest"
  shows "\<exists>m pkt. write_memory_binary u fuel st (range_text ads szs @ 58 # escape bs @ rest) =
      Some (rio_send (st\<lparr>arm := (arm st)\<lparr>mem := m\<rparr>, packet := pkt, pkt_len := 6\<rparr>) (frame (bytes ''OK''))) \<and>
    bytes_at (mem (arm st)) a bs m \<and> length pkt = MAX_PACKET_SIZE"
proof -
  let ?data = "range_text ads szs @ 58 # escape bs @ rest"
  have "unat a < unat (taille (mem (arm st)))" using n(4,5) by (cases bs) auto
  then have inside: "(ucast a :: u64) < memory_get_size (mem (arm st))" by (simp add: memory_get_size_def word_less_nat_alt)
  have scan: "sscanf_x_x ?data (junk_a u) (junk_b u) = Some (a, n)"
    using r by (intro sscanf_range [OF n(1,2)]) simp_all
  have clean: "0 \<notin> set (range_text ads szs)" "58 \<notin> set (range_text ads szs)" using range_text_clean [OF n(1,2)] by simp_all
  have "cstr ?data = Some (range_text ads szs @ 58 # takeWhile (\<lambda>c. c \<noteq> 0) (escape bs @ rest))"
    using cstr_clean [of "range_text ads szs @ [58]" "escape bs @ rest"] clean(1) r by auto
  moreover have "dropWhile (\<lambda>x. x \<noteq> 58) ?data = 58 # escape bs @ rest"
    using clean(2) by (subst dropWhile_append2) auto
  ultimately have idx: "after_index ?data 58 = Some (escape bs @ rest)"
    by (simp add: after_index_def)
  obtain m where m: "write_memory_loop st a (unat n) (escape bs @ rest) = Some (True, st\<lparr>arm := (arm st)\<lparr>mem := m\<rparr>\<rparr>)"
    "bytes_at (mem (arm st)) a bs m"
    using write_loop_in [OF wf(1) n(5), of rest] n(3) by auto
  have ok: "0 \<notin> set (bytes ''OK'')" "length ''OK'' = 2" by (simp_all add: bytes_codes)
  obtain pkt where "gdb_send_data (st\<lparr>arm := (arm st)\<lparr>mem := m\<rparr>\<rparr>) ''OK'' = Some (rio_send (st\<lparr>arm := (arm st)\<lparr>mem := m\<rparr>, packet := pkt,
      pkt_len := 6\<rparr>) (frame (bytes ''OK'')))" "length pkt = MAX_PACKET_SIZE"
    using send_data_eval [of "st\<lparr>arm := (arm st)\<lparr>mem := m\<rparr>\<rparr>" "''OK''"] wf(2) ok by auto
  with m inside show ?thesis by (auto simp: write_memory_binary_def scan idx)
qed

section \<open>Properties of the registers\<close>

text \<open>
  (C6) The text that the command \<open>g\<close> replies, given to the command \<open>G\<close> in any later state, restores the
  sixteen registers and the status register and changes nothing else of the processor: the saved status
  register, the memory, the cycle counter, the console and the log stay as they are. The command \<open>g\<close> changes
  nothing of the processor. Each command ends with the write of its reply, before which nothing has been sent.
\<close>

theorem registers_roundtrip:
  assumes "core_wf (arm st)" "length (packet st) = MAX_PACKET_SIZE"
    "core_wf (arm st')" "length (packet st') = MAX_PACKET_SIZE" "0 \<in> set rest"
  shows "\<exists>g t. read_general_registers u fuel st data = Some (rio_send g (frame t)) \<and> same_conn st g \<and> arm g = arm st \<and>
    (\<exists>g'. write_general_registers u' fuel' st' (t @ rest) = Some (rio_send g' (frame (bytes ''OK''))) \<and> same_conn st' g' \<and>
      (\<forall>i < 16. gpr (arm g') i = gpr (arm st) i) \<and> cpsr (arm g') = cpsr (arm st) \<and>
      regv (reg (arm g')) 17 = regv (reg (arm st')) 17 \<and> arm g' = (arm st')\<lparr>reg := reg (arm g')\<rparr> \<and> core_wf (arm g'))"
proof -
  have wf: "regs_wf (reg (arm st))" using assms(1) by simp
  have t: "reg_text (arm st) = concat (map (\<lambda>i. hex_word (regv (reg (arm st)) i)) [0..<16]) @ unknown_text 25 @
      hex_word (regv (reg (arm st)) 16)"
    by (simp add: reg_text_def gpr_def cpsr_def)
  obtain pkt where g: "read_general_registers u fuel st data =
      Some (rio_send (st\<lparr>packet := pkt, pkt_len := 340\<rparr>) (frame (reg_text (arm st))))"
    using read_registers_eval [OF assms(1,2)] by blast
  obtain r pkt' where r: "write_general_registers u' fuel' st' (reg_text (arm st) @ rest) =
      Some (rio_send (st'\<lparr>arm := (arm st')\<lparr>reg := r\<rparr>, packet := pkt', pkt_len := 6\<rparr>) (frame (bytes ''OK'')))"
    "regs_wf r" "\<forall>i < 17. regv r i = regv (reg (arm st)) i" "regv r 17 = regv (reg (arm st')) 17"
    using write_registers_command [OF assms(3,4) wf assms(5) t] by blast
  have "mem_wf (mem (arm st'))" using assms(3) by simp
  with r have "\<exists>g'. write_general_registers u' fuel' st' (reg_text (arm st) @ rest) = Some (rio_send g' (frame (bytes ''OK''))) \<and>
      same_conn st' g' \<and> (\<forall>i < 16. gpr (arm g') i = gpr (arm st) i) \<and> cpsr (arm g') = cpsr (arm st) \<and>
      regv (reg (arm g')) 17 = regv (reg (arm st')) 17 \<and> arm g' = (arm st')\<lparr>reg := reg (arm g')\<rparr> \<and> core_wf (arm g')"
    by (intro exI [of _ "st'\<lparr>arm := (arm st')\<lparr>reg := r\<rparr>, packet := pkt', pkt_len := 6\<rparr>"])
      (simp add: gpr_def cpsr_def core_wf_def del: core_wf_sel)
  with g show ?thesis
    by (intro exI [of _ "st\<lparr>packet := pkt, pkt_len := 340\<rparr>"] exI [of _ "reg_text (arm st)"]) simp
qed

text \<open>The registers of a processor that has run and those of one that has not.\<close>

theorem registers_roundtrip_witness:
  "\<forall>(u :: gdb_junk) (u' :: gdb_junk). \<exists>g t g'. read_general_registers u 0 (sample_gdb 0xEF 1) [0] = Some (Continue g) \<and> sent g = frame t \<and>
     write_general_registers u' 0 ((sample_gdb 0xEF 1)\<lparr>arm := set_reg (program_core 0xEF 1) 3 77\<rparr>) (t @ [0]) = Some (Continue g') \<and>
     gpr (arm g') 3 = gpr (program_core 0xEF 1) 3"
proof (intro allI)
  fix u u' :: gdb_junk
  let ?st = "sample_gdb 0xEF 1" and ?st' = "(sample_gdb 0xEF 1)\<lparr>arm := set_reg (program_core 0xEF 1) 3 77\<rparr>"
  obtain g t g' where *: "read_general_registers u 0 ?st [0] = Some (rio_send g (frame t))" "same_conn ?st g"
    "write_general_registers u' 0 ?st' (t @ [0]) = Some (rio_send g' (frame (bytes ''OK'')))" "same_conn ?st' g'"
    "\<forall>i < 16. gpr (arm g') i = gpr (arm ?st) i"
    using registers_roundtrip [of ?st ?st' "[0]" u 0 "[0]" u' 0] by fastforce
  have "open_conn g" "open_conn g'" "sent g = []" using *(2,4) by (simp_all add: open_conn_def same_conn_def sample_gdb_def)
  with *(1,3,5) show "\<exists>g t g'. read_general_registers u 0 ?st [0] = Some (Continue g) \<and> sent g = frame t \<and>
     write_general_registers u' 0 ?st' (t @ [0]) = Some (Continue g') \<and> gpr (arm g') 3 = gpr (program_core 0xEF 1) 3"
    by (intro exI [of _ "g\<lparr>sent := sent g @ frame t\<rparr>"] exI [of _ t] exI [of _ "g'\<lparr>sent := sent g' @ frame (bytes ''OK'')\<rparr>"]) simp
qed

section \<open>Properties of the memory\<close>

text \<open>
  (C7) Bytes that the command \<open>X\<close> writes in binary, with the characters of the protocol escaped, are what
  the command \<open>m\<close> then reads from the same range: the reply is the frame of their hexadecimal text. No
  other byte of the memory and nothing else of the processor changes. The range must be inside the memory
  and have from one to 2045 bytes; \<open>m\<close> follows unless the write of the reply to \<open>X\<close> fails, which ends the program.
\<close>

theorem memory_roundtrip:
  assumes "core_wf (arm st)" "length (packet st) = MAX_PACKET_SIZE" "number ads a" "number szs n" "unat n = length bs"
    "bs \<noteq> []" "length bs \<le> 2045" "unat a + length bs \<le> unat (taille (mem (arm st)))" "0 \<in> set rest"
  shows "\<exists>g. write_memory_binary u fuel st (range_text ads szs @ 58 # escape bs @ rest) = Some (rio_send g (frame (bytes ''OK''))) \<and>
    same_conn st g \<and> arm g = (arm st)\<lparr>mem := mem (arm g)\<rparr> \<and>
    (\<forall>x. unat x < unat a \<or> unat a + length bs \<le> unat x \<longrightarrow> byte_at (mem (arm g)) x = byte_at (mem (arm st)) x) \<and>
    (\<forall>g1. rio_send g (frame (bytes ''OK'')) = Continue g1 \<longrightarrow>
      (\<exists>g'. read_memory u' fuel' g1 (range_text ads szs @ 0 # rest') = Some (rio_send g' (frame (concat (map hex_byte bs)))) \<and>
        same_conn g1 g' \<and> arm g' = arm g))"
proof -
  obtain m pkt where w: "write_memory_binary u fuel st (range_text ads szs @ 58 # escape bs @ rest) =
      Some (rio_send (st\<lparr>arm := (arm st)\<lparr>mem := m\<rparr>, packet := pkt, pkt_len := 6\<rparr>) (frame (bytes ''OK'')))"
    "bytes_at (mem (arm st)) a bs m" "length pkt = MAX_PACKET_SIZE"
    using write_memory_eval [OF assms(1-6,8,9)] by blast
  let ?g = "st\<lparr>arm := (arm st)\<lparr>mem := m\<rparr>, packet := pkt, pkt_len := 6\<rparr>"
  let ?g1 = "?g\<lparr>sent := sent ?g @ frame (bytes ''OK'')\<rparr>"
  have m: "mem_wf m" "taille m = taille (mem (arm st))" using w(2) by (simp_all add: bytes_at_def)
  then have g: "core_wf (arm ?g1)" "length (packet ?g1) = MAX_PACKET_SIZE" "unat a + unat n \<le> unat (taille (mem (arm ?g1)))"
    using assms(1,5,8) w(3) by (simp_all add: core_wf_mem_update)
  have n: "0 < n" "unat n \<le> 2045" using assms(5-7) by (simp_all add: word_less_nat_alt)
  have same: "bytes_from m a (length bs) = bs" using bytes_at_from [OF w(2) _ assms(8)] assms(1) by simp
  obtain pkt' where r: "read_memory u' fuel' ?g1 (range_text ads szs @ 0 # rest') =
      Some (rio_send (?g1\<lparr>packet := pkt', pkt_len := 2 * unat n + 4\<rparr>) (frame (concat (map hex_byte bs))))"
    using read_memory_eval [OF g(1,2) assms(3,4) n(1) g(3), of u' fuel' rest'] n(2) same by (auto simp: assms(5))
  have "byte_at m x = byte_at (mem (arm st)) x" if "unat x < unat a \<or> unat a + length bs \<le> unat x" for x
    using w(2) that by (auto simp: bytes_at_def)
  moreover have "\<exists>g'. read_memory u' fuel' g1 (range_text ads szs @ 0 # rest') = Some (rio_send g' (frame (concat (map hex_byte bs)))) \<and>
      same_conn g1 g' \<and> arm g' = arm ?g" if "rio_send ?g (frame (bytes ''OK'')) = Continue g1" for g1
    using rio_send_Continue [OF that] r
    by (intro exI [of _ "?g1\<lparr>packet := pkt', pkt_len := 2 * unat n + 4\<rparr>"]) (simp add: same_conn_def)
  ultimately show ?thesis using w(1) by (intro exI [of _ ?g]) simp
qed

text \<open>
  (C32) The command \<open>m\<close> on a range inside the memory replies with its bytes up to a size of 2045; from
  2046 on the text, or its checksum, is written behind the packet buffer of 4096 bytes, because the
  size that the debugger asks for is not tested.
\<close>

theorem read_memory_bounds:
  assumes "core_wf (arm st)" "length (packet st) = MAX_PACKET_SIZE" "number ads a" "number szs n" "0 < n"
    "unat a + unat n \<le> unat (taille (mem (arm st)))"
  shows "if unat n \<le> 2045 then
      (\<exists>g. read_memory u fuel st (range_text ads szs @ 0 # rest) =
          Some (rio_send g (frame (concat (map hex_byte (bytes_from (mem (arm st)) a (unat n)))))) \<and>
        same_conn st g \<and> arm g = arm st)
    else read_memory u fuel st (range_text ads szs @ 0 # rest) = None"
proof (cases "unat n \<le> 2045")
  case True
  then obtain pkt where "read_memory u fuel st (range_text ads szs @ 0 # rest) =
      Some (rio_send (st\<lparr>packet := pkt, pkt_len := 2 * unat n + 4\<rparr>)
        (frame (concat (map hex_byte (bytes_from (mem (arm st)) a (unat n))))))"
    using read_memory_eval [OF assms, of u fuel rest] by auto
  with True show ?thesis
    by (simp only: if_True) (intro exI [of _ "st\<lparr>packet := pkt, pkt_len := 2 * unat n + 4\<rparr>"], simp)
qed (use read_memory_eval [OF assms, of u fuel rest] in simp)

text \<open>A debugger with a memory of 4096 bytes.\<close>

definition memory_gdb :: gdb_protocol_data where
  "memory_gdb = (sample_gdb 0xEF 1)\<lparr>arm := (program_core 0xEF 1)\<lparr>mem := \<lparr>mem_value = Some (replicate 4096 9), taille = 4096\<rparr>\<rparr>\<rparr>"

lemma memory_gdb_facts: "core_wf (arm memory_gdb)" "length (packet memory_gdb) = MAX_PACKET_SIZE"
  "taille (mem (arm memory_gdb)) = 4096" "sent memory_gdb = []" "open_conn memory_gdb"
  using core_wf_mem_update [of "program_core 0xEF 1" "\<lparr>mem_value = Some (replicate 4096 9), taille = 4096\<rparr>"]
  by (simp_all add: memory_gdb_def mem_wf_def)

theorem read_memory_bounds_witness:
  "\<forall>u. read_memory u 0 memory_gdb (range_text [1, 0] [8, 0, 0] @ [0]) = None"
  using read_memory_bounds [OF memory_gdb_facts(1,2), where ads = "[1, 0]" and a = "0x10" and szs = "[8, 0, 0]" and n = "0x800"
    and fuel = 0 and rest = "[]"] memory_gdb_facts(3)
  by (simp add: number_def)

theorem memory_roundtrip_witness:
  "\<forall>u. \<exists>g g'. write_memory_binary u 0 memory_gdb (range_text [1, 0] [3] @ 58 # escape [0x24, 0, 0x7d] @ [0]) = Some (Continue g) \<and>
     read_memory u 0 g (range_text [1, 0] [3] @ [0]) = Some (Continue g') \<and>
     sent g' = frame (bytes ''OK'') @ frame (bytes ''24007d'')"
proof
  fix u
  have hex: "concat (map hex_byte [0x24, 0, 0x7d]) = bytes ''24007d''" by code_simp
  have n: "number [1, 0] 0x10" "number [3] 3" by (simp_all add: number_def)
  let ?ok = "frame (bytes ''OK'')"
  obtain g where g: "write_memory_binary u 0 memory_gdb (range_text [1, 0] [3] @ 58 # escape [0x24, 0, 0x7d] @ [0]) = Some (rio_send g ?ok)"
    "same_conn memory_gdb g"
    "\<forall>g1. rio_send g ?ok = Continue g1 \<longrightarrow> (\<exists>g'. read_memory u 0 g1 (range_text [1, 0] [3] @ [0]) =
        Some (rio_send g' (frame (concat (map hex_byte [0x24, 0, 0x7d])))) \<and> same_conn g1 g' \<and> arm g' = arm g)"
    using memory_roundtrip [OF memory_gdb_facts(1,2) n, where bs = "[0x24, 0, 0x7d]" and rest = "[0]" and u = u and u' = u
        and fuel = 0 and fuel' = 0 and rest' = "[]"] memory_gdb_facts(3) by auto
  have o: "open_conn g" "sent g = []" using g(2) memory_gdb_facts(4,5) by (simp_all add: open_conn_def same_conn_def)
  then obtain g' where "read_memory u 0 (g\<lparr>sent := ?ok\<rparr>) (range_text [1, 0] [3] @ [0]) =
      Some (rio_send g' (frame (bytes ''24007d'')))" "same_conn (g\<lparr>sent := ?ok\<rparr>) g'" using g(3) unfolding hex by auto
  moreover from this(2) o have "open_conn g'" "sent g' = ?ok" by (simp_all add: open_conn_def same_conn_def)
  ultimately show "\<exists>g g'. write_memory_binary u 0 memory_gdb (range_text [1, 0] [3] @ 58 # escape [0x24, 0, 0x7d] @ [0]) =
        Some (Continue g) \<and> read_memory u 0 g (range_text [1, 0] [3] @ [0]) = Some (Continue g') \<and>
      sent g' = ?ok @ frame (bytes ''24007d'')"
    using g(1) o by (intro exI [of _ "g\<lparr>sent := ?ok\<rparr>"] exI [of _ "g'\<lparr>sent := sent g' @ frame (bytes ''24007d'')\<rparr>"]) simp
qed

end
