(* ===== verification/Gdb_Session.thy ===== *)
theory Gdb_Session
  imports Gdb_Data
begin

text \<open>
  A session of the debugger on the connection, from the bytes to the memory: the scanner, the analysis of
  the packets, the commands \<open>X\<close> and \<open>m\<close> and the acknowledgements of both sides.
\<close>

section \<open>Commands as packets\<close>

definition write_packet :: "nat list \<Rightarrow> nat list \<Rightarrow> u8 list \<Rightarrow> u8 list" where
  "write_packet ads szs bs = of_char CHR ''X'' # range_text ads szs @ 58 # escape bs"

definition read_packet :: "nat list \<Rightarrow> nat list \<Rightarrow> u8 list" where
  "read_packet ads szs = of_char CHR ''m'' # range_text ads szs"

text \<open>What the debugger sends to write bytes and to read them back, with a \<open>+\<close> for each reply.\<close>

definition write_and_read :: "nat list \<Rightarrow> nat list \<Rightarrow> u8 list \<Rightarrow> u8 list" where
  "write_and_read ads szs bs = frame (write_packet ads szs bs) @ bytes ''+'' @ frame (read_packet ads szs) @ bytes ''+''"

lemma digits_plain:
  assumes "\<forall>d \<in> set ds. d < 16"
  shows "plain (map hex_digit ds)"
proof -
  have "list_all (\<lambda>d. hex_digit d \<noteq> hash) [0..<16]" "list_all (\<lambda>d. hex_digit d \<noteq> dollar) [0..<16]" by code_simp+
  then have "hex_digit d \<noteq> hash \<and> hex_digit d \<noteq> dollar" if "d < 16" for d using that by (simp add: list_all_iff)
  with assms show ?thesis by (simp add: plain_def)
qed

lemma escape_plain: "plain (escape bs)"
proof (induction bs)
  case (Cons b bs)
  have "plain (if b \<in> {0x23, 0x24, 0x7d} then [0x7d, b XOR 0x20] else [b])"
  proof (cases "b \<in> {0x23, 0x24, 0x7d}")
    case True
    then show ?thesis by (elim insertE emptyE) simp_all
  qed simp
  moreover have "escape (b # bs) = (if b \<in> {0x23, 0x24, 0x7d} then [0x7d, b XOR 0x20] else [b]) @ escape bs"
    unfolding escape_def by (simp only: list.map concat.simps)
  ultimately show ?case using Cons by (simp only: plain_append)
qed (simp add: escape_def)

lemma packets_plain:
  assumes "number ads a" "number szs n"
  shows "plain (write_packet ads szs bs)" "plain (read_packet ads szs)"
  using assms digits_plain escape_plain by (simp_all add: write_packet_def read_packet_def range_text_def number_def)

lemma command_handlers:
  "gdb_init ! unat (of_char CHR ''X'' :: u8) = Some write_memory_binary"
  "gdb_init ! unat (of_char CHR ''m'' :: u8) = Some read_memory"
  by (simp_all add: gdb_init_def slot_def)

section \<open>Tokens of a session\<close>

lemma scan_ack:
  "len d = 0 \<Longrightarrow> spec_scan (yy_action jk fuel) behind (bytes ''+'' @ rest) d = spec_scan (yy_action jk fuel) behind rest d"
  by (simp add: spec_scan_cons next_token_def yy_action_def handle_error_def bytes_def)

text \<open>A frame whose command is known, when no error is pending and the connection takes what is written.\<close>

lemma scan_command:
  assumes "plain t" "t \<noteq> []" "len d = 0" "open_conn (gdb d)" "gdb_init ! unat (hd t) = Some handler"
    "handler (jk (packets d)) fuel ((gdb d)\<lparr>sent := sent (gdb d) @ bytes ''+''\<rparr>)
      (tl t @ 0 # hex_byte (sum_list t) @ 0 # behind (length (frame t @ rest))) = Some (Continue g)"
  shows "spec_scan (yy_action jk fuel) behind (frame t @ rest) d =
    spec_scan (yy_action jk fuel) behind rest (d\<lparr>gdb := g, packets := packets d + 1\<rparr>)"
  by (simp add: spec_scan_frame [OF assms(1)] action_frame [OF assms(2,3)] assms(4-6) del: append_assoc length_append)

lemma session_scans:
  fixes d :: parser_data
  assumes wf: "core_wf (arm (gdb d))" "length (packet (gdb d)) = MAX_PACKET_SIZE" "len d = 0" "open_conn (gdb d)"
    and n: "number ads a" "number szs n" "unat n = length bs" "bs \<noteq> []" "length bs \<le> 2045"
      "unat a + length bs \<le> unat (taille (mem (arm (gdb d))))"
  shows "\<exists>d'. spec_scan (yy_action jk fuel) behind (write_and_read ads szs bs) d = Some (Continue d') \<and>
    sent (gdb d') = sent (gdb d) @ bytes ''+'' @ frame (bytes ''OK'') @ bytes ''+'' @ frame (concat (map hex_byte bs)) \<and>
    bytes_at (mem (arm (gdb d))) a bs (mem (arm (gdb d'))) \<and> arm (gdb d') = (arm (gdb d))\<lparr>mem := mem (arm (gdb d'))\<rparr>"
proof -
  define st where "st = (gdb d)\<lparr>sent := sent (gdb d) @ bytes ''+''\<rparr>"
  let ?X = "write_packet ads szs bs" and ?m = "read_packet ads szs" and ?ok = "frame (bytes ''OK'')"
  let ?rest = "bytes ''+'' @ frame ?m @ bytes ''+''"
  have st: "core_wf (arm st)" "length (packet st) = MAX_PACKET_SIZE" "unat a + length bs \<le> unat (taille (mem (arm st)))" "open_conn st"
    using wf n(6) by (simp_all add: st_def)
  have X: "?X \<noteq> []" "hd ?X = of_char CHR ''X''" "tl ?X @ rest = range_text ads szs @ 58 # escape bs @ rest" for rest
    by (simp_all add: write_packet_def)
  have m: "?m \<noteq> []" "hd ?m = of_char CHR ''m''" "tl ?m @ rest = range_text ads szs @ rest" for rest
    by (simp_all add: read_packet_def)
  let ?tX = "0 # hex_byte (sum_list ?X) @ 0 # behind (length (frame ?X @ ?rest))"
  have zX: "0 \<in> set ?tX" by simp
  obtain mem' pkt where w: "write_memory_binary (jk (packets d)) fuel st (tl ?X @ ?tX) =
      Some (rio_send (st\<lparr>arm := (arm st)\<lparr>mem := mem'\<rparr>, packet := pkt, pkt_len := 6\<rparr>) ?ok)"
    "bytes_at (mem (arm st)) a bs mem'" "length pkt = MAX_PACKET_SIZE"
    using write_memory_eval [OF st(1,2) n(1-4) st(3) zX, of "jk (packets d)" fuel] unfolding X(3) by auto
  let ?g = "st\<lparr>arm := (arm st)\<lparr>mem := mem'\<rparr>, packet := pkt, pkt_len := 6, sent := sent st @ ?ok\<rparr>"
  let ?d = "d\<lparr>gdb := ?g, packets := packets d + 1\<rparr>"
  define st' where "st' = ?g\<lparr>sent := sent ?g @ bytes ''+''\<rparr>"
  have mem': "mem_wf mem'" "taille mem' = taille (mem (arm st))" using w(2) by (simp_all add: bytes_at_def)
  have g: "core_wf (arm st')" "length (packet st') = MAX_PACKET_SIZE" "unat a + unat n \<le> unat (taille (mem (arm st')))" "open_conn st'"
    using st w(3) mem' n(3) by (simp_all add: st'_def core_wf_mem_update)
  have pos: "0 < n" "unat n \<le> 2045" using n(3-5) by (simp_all add: word_less_nat_alt)
  have same: "bytes_from mem' a (length bs) = bs" using bytes_at_from [OF w(2) _ st(3)] st(1) by simp
  let ?tm = "hex_byte (sum_list ?m) @ 0 # behind (length (frame ?m @ bytes ''+''))"
  obtain pkt' where r: "read_memory (jk (packets ?d)) fuel st' (tl ?m @ 0 # ?tm) =
      Some (rio_send (st'\<lparr>packet := pkt', pkt_len := 2 * unat n + 4\<rparr>) (frame (concat (map hex_byte bs))))"
    using read_memory_eval [OF g(1,2) n(1,2) pos(1) g(3), of "jk (packets ?d)" fuel ?tm] pos(2) same
    unfolding m(3) by (auto simp: n(3) st'_def)
  let ?g' = "st'\<lparr>packet := pkt', pkt_len := 2 * unat n + 4, sent := sent st' @ frame (concat (map hex_byte bs))\<rparr>"
  let ?d' = "?d\<lparr>gdb := ?g', packets := packets ?d + 1\<rparr>"
  have "spec_scan (yy_action jk fuel) behind (write_and_read ads szs bs) d = spec_scan (yy_action jk fuel) behind ?rest ?d"
    unfolding write_and_read_def
  proof (rule scan_command [OF packets_plain(1) [OF n(1,2)] X(1) wf(3,4), of write_memory_binary])
    show "write_memory_binary (jk (packets d)) fuel ((gdb d)\<lparr>sent := sent (gdb d) @ bytes ''+''\<rparr>) (tl ?X @ ?tX) = Some (Continue ?g)"
      using w(1) st(4) by (simp add: st_def)
  qed (simp only: X(2) command_handlers)
  also have "\<dots> = spec_scan (yy_action jk fuel) behind (frame ?m @ bytes ''+'') ?d" by (rule scan_ack) (simp add: wf(3))
  also have "\<dots> = spec_scan (yy_action jk fuel) behind (bytes ''+'') ?d'"
  proof (rule scan_command [OF packets_plain(2) [OF n(1,2)] m(1), of _ read_memory])
    show "read_memory (jk (packets ?d)) fuel ((gdb ?d)\<lparr>sent := sent (gdb ?d) @ bytes ''+''\<rparr>) (tl ?m @ 0 # ?tm) = Some (Continue ?g')"
      using r g(4) by (simp add: st'_def)
  qed (use m(2) wf(3) st(4) command_handlers in simp_all)
  also have "\<dots> = Some (Continue ?d')" using scan_ack [of ?d' jk fuel behind "[]"] wf(3) by (simp add: spec_scan_nil handle_error_def)
  finally show ?thesis using w(2) by (intro exI [of _ ?d']) (simp add: st_def st'_def)
qed

section \<open>Property\<close>

text \<open>
  (C5) A session on the connection: the debugger writes from one to 2045 bytes of any values with \<open>X\<close>, to a range
  that lies inside the memory, acknowledges
  the reply and reads the same range with \<open>m\<close>. However the connection cuts the stream, if the scanner has no pending error and no
  write to the connection fails, the simulator
  acknowledges both packets, answers \<open>OK\<close> and the hexadecimal text of the bytes, has them in its memory
  and has changed no other byte and nothing else of the processor; the scanner returns when the stream ends.
\<close>

theorem memory_session:
  fixes d :: parser_data
  assumes "byte_reader rd ready content delay" "\<And>n. length (alloc n) = n" "ready w" "delay w < fuel"
    "content w = write_and_read ads szs bs"
    "core_wf (arm (gdb d))" "length (packet (gdb d)) = MAX_PACKET_SIZE" "len d = 0" "open_conn (gdb d)"
    "number ads a" "number szs n" "unat n = length bs" "bs \<noteq> []" "length bs \<le> 2045"
    "unat a + length bs \<le> unat (taille (mem (arm (gdb d))))"
  shows "\<exists>d' k w'. content w' = [] \<and> (\<forall>j. yylex rd alloc jk fuel (k + j) d w = Some (Continue (d', w'))) \<and>
    sent (gdb d') = sent (gdb d) @ bytes ''+'' @ frame (bytes ''OK'') @ bytes ''+'' @ frame (concat (map hex_byte bs)) \<and>
    bytes_at (mem (arm (gdb d))) a bs (mem (arm (gdb d'))) \<and> arm (gdb d') = (arm (gdb d))\<lparr>mem := mem (arm (gdb d'))\<rparr>"
proof -
  obtain behind k w' where k: "content w' = []" "\<forall>j d. yylex rd alloc jk fuel (k + j) d w =
      and_then (spec_scan (yy_action jk fuel) behind (content w) d) (\<lambda>d'. Some (Continue (d', w')))"
    using scanner_input.lexer_scans [OF scanner_input.intro [OF assms(1) scanner_input_axioms.intro [OF assms(2)]] assms(3,4)] by blast
  obtain d' where d': "spec_scan (yy_action jk fuel) behind (content w) d = Some (Continue d')"
    "sent (gdb d') = sent (gdb d) @ bytes ''+'' @ frame (bytes ''OK'') @ bytes ''+'' @ frame (concat (map hex_byte bs))"
    "bytes_at (mem (arm (gdb d))) a bs (mem (arm (gdb d')))" "arm (gdb d') = (arm (gdb d))\<lparr>mem := mem (arm (gdb d'))\<rparr>"
    using session_scans [OF assms(6-15)] assms(5) by metis
  with k show ?thesis by (intro exI [of _ d'] exI [of _ k] exI [of _ w']) simp
qed

text \<open>Three bytes at address 16, among them a zero byte and two characters of the protocol.\<close>

theorem memory_session_witness:
  "\<forall>jk. \<exists>d' k w'. fst w' = [] \<and> (\<forall>j. yylex scheduled_read (\<lambda>n. replicate n 0) jk 5 (k + j) (quiet memory_gdb)
        (write_and_read [1, 0] [3] [0x24, 0, 0x7d], [2, 0, 1]) = Some (Continue (d', w'))) \<and>
     sent (gdb d') = bytes ''+'' @ frame (bytes ''OK'') @ bytes ''+'' @ frame (bytes ''24007d'')"
proof
  fix jk
  have hex: "concat (map hex_byte [0x24, 0, 0x7d]) = bytes ''24007d''" by code_simp
  have n: "number [1, 0] 0x10" "number [3] 3" by (simp_all add: number_def)
  have q: "gdb (quiet memory_gdb) = memory_gdb" "len (quiet memory_gdb) = 0" by (simp_all add: quiet_def)
  let ?w = "(write_and_read [1, 0] [3] [0x24, 0, 0x7d], [2, 0, 1])"
  have "\<exists>d' k w'. fst w' = [] \<and> (\<forall>j. yylex scheduled_read (\<lambda>n. replicate n 0) jk 5 (k + j) (quiet memory_gdb) ?w =
        Some (Continue (d', w'))) \<and>
      sent (gdb d') = sent (gdb (quiet memory_gdb)) @ bytes ''+'' @ frame (bytes ''OK'') @ bytes ''+'' @
        frame (concat (map hex_byte [0x24, 0, 0x7d])) \<and>
      bytes_at (mem (arm (gdb (quiet memory_gdb)))) 0x10 [0x24, 0, 0x7d] (mem (arm (gdb d'))) \<and>
      arm (gdb d') = (arm (gdb (quiet memory_gdb)))\<lparr>mem := mem (arm (gdb d'))\<rparr>"
    by (rule memory_session [OF kernel_in.byte_reader_axioms _ _ _ _ _ _ _ _ n])
      (simp_all add: q memory_gdb_facts)
  then show "\<exists>d' k w'. fst w' = [] \<and> (\<forall>j. yylex scheduled_read (\<lambda>n. replicate n 0) jk 5 (k + j) (quiet memory_gdb) ?w =
        Some (Continue (d', w'))) \<and>
      sent (gdb d') = bytes ''+'' @ frame (bytes ''OK'') @ bytes ''+'' @ frame (bytes ''24007d'')"
    unfolding q memory_gdb_facts hex append_Nil by blast
qed

end
