(* ===== verification/Flex_Buffers.thy ===== *)
theory Flex_Buffers
  imports Csapp_Rio C_Strings
begin

text \<open>
  The input buffers of the scanner that flex generates, \<^verbatim>\<open>scanner.c\<close>: creating and
  destroying a scanner, the stack of its buffers, scanning a file, a string or some bytes, and the
  accessors. \<open>Gdb_Scanner\<close> models \<open>yylex\<close> over the one buffer that the simulator uses; here the
  buffers are objects in an explicit heap, so that sharing, leaks and accesses to freed memory show.

  An address is a number that no other allocation has. The k-th call of \<open>malloc\<close> succeeds when
  \<open>grants k\<close> holds, and \<open>content\<close> and \<open>fresh_state\<close> are what the new memory holds. \<open>realloc\<close> always
  moves. Sizes are natural numbers: buffers of 2 GiB, whose size does not fit an \<open>int\<close>, are left out.
\<close>

section \<open>Memory\<close>

text \<open>A pointer to a character; the null pointer, or a position in an allocated block.\<close>

datatype ptr = Null | At nat nat

text \<open>\<open>struct yy_buffer_state\<close>. Files are numbers, and a null pointer to a file or a buffer is \<open>None\<close>.\<close>

record yy_buffer_state =
  st_input_file :: "nat option"
  st_ch_buf :: ptr
  st_buf_pos :: ptr
  st_buf_size :: nat
  st_n_chars :: nat
  st_is_our_buffer :: int
  st_is_interactive :: int
  st_at_bol :: int
  st_bs_lineno :: int
  st_bs_column :: int
  st_fill_buffer :: int
  st_buffer_status :: nat

text \<open>What an allocated object is: characters, a buffer, the array of the stack, or \<open>struct yyguts_t\<close>.\<close>

datatype cell = Chars "u8 list" | Buffer yy_buffer_state | Stack "nat option list" | Guts

record flex_heap =
  heap :: "nat \<rightharpoonup> cell"
  allocs :: nat

text \<open>The scanner: the memory, and the content of its \<open>struct yyguts_t\<close>, which is at the address \<open>self\<close>.\<close>

record 'x flex_scanner = flex_heap +
  self :: nat
  yyextra_r :: "'x option"
  yyin_r :: "nat option"
  yyout_r :: "nat option"
  yy_buffer_stack_top :: nat
  yy_buffer_stack_max :: nat
  yy_buffer_stack :: "nat option"
  hold_char_r :: u8
  n_chars_r :: nat
  yyleng_r :: nat
  c_buf_p_r :: ptr
  yy_init :: int
  yy_start :: int
  yy_did_buffer_switch_on_eof :: int
  yy_start_stack_ptr :: int
  yy_start_stack_depth :: int
  yy_start_stack :: ptr
  last_accepting_state_r :: nat
  last_accepting_cpos_r :: ptr
  yy_flex_debug_r :: int
  yytext_r :: ptr

record allocator =
  grants :: "nat \<Rightarrow> bool"
  content :: "nat \<Rightarrow> nat \<Rightarrow> u8 list"
  fresh_state :: "nat \<Rightarrow> yy_buffer_state"

definition yyalloc :: "allocator \<Rightarrow> (nat \<Rightarrow> cell) \<Rightarrow> 's flex_heap_scheme \<Rightarrow> nat option \<times> 's flex_heap_scheme" where
  "yyalloc al new g = (let k = allocs g in
     if grants al k then (Some k, g\<lparr>heap := (heap g)(k \<mapsto> new k), allocs := k + 1\<rparr>)
     else (None, g\<lparr>allocs := k + 1\<rparr>))"

text \<open>\<open>free\<close>: of the address of an object, or of a null pointer, which does nothing.\<close>

definition yyfree_object :: "nat \<Rightarrow> 's flex_heap_scheme \<Rightarrow> 's flex_heap_scheme option" where
  "yyfree_object a g = (if heap g a = None then None else Some (g\<lparr>heap := (heap g)(a := None)\<rparr>))"

definition yyfree :: "ptr \<Rightarrow> 's flex_heap_scheme \<Rightarrow> 's flex_heap_scheme option" where
  "yyfree p g = (case p of Null \<Rightarrow> Some g | At a i \<Rightarrow> if i = 0 then yyfree_object a g else None)"

text \<open>Reading and writing memory; undefined on freed objects, outside of a block, and through null pointers.\<close>

definition chars_at :: "'s flex_heap_scheme \<Rightarrow> nat \<Rightarrow> u8 list option" where
  "chars_at g a = (case heap g a of Some (Chars cs) \<Rightarrow> Some cs | _ \<Rightarrow> None)"

definition peek :: "'s flex_heap_scheme \<Rightarrow> ptr \<Rightarrow> nat \<Rightarrow> u8 option" where
  "peek g p j = (case p of Null \<Rightarrow> None | At a i \<Rightarrow> do { cs \<leftarrow> chars_at g a; aget cs (i + j) })"

definition poke :: "ptr \<Rightarrow> nat \<Rightarrow> u8 \<Rightarrow> 's flex_heap_scheme \<Rightarrow> 's flex_heap_scheme option" where
  "poke p j v g = (case p of Null \<Rightarrow> None
     | At a i \<Rightarrow> do { cs \<leftarrow> chars_at g a; cs \<leftarrow> aset cs (i + j) v; Some (g\<lparr>heap := (heap g)(a \<mapsto> Chars cs)\<rparr>) })"

definition buffer_at :: "'s flex_heap_scheme \<Rightarrow> nat \<Rightarrow> yy_buffer_state option" where
  "buffer_at g b = (case heap g b of Some (Buffer st) \<Rightarrow> Some st | _ \<Rightarrow> None)"

definition upd_buffer :: "nat \<Rightarrow> (yy_buffer_state \<Rightarrow> yy_buffer_state) \<Rightarrow> 's flex_heap_scheme \<Rightarrow> 's flex_heap_scheme option" where
  "upd_buffer b f g = do { st \<leftarrow> buffer_at g b; Some (g\<lparr>heap := (heap g)(b \<mapsto> Buffer (f st))\<rparr>) }"

section \<open>The stack of buffers\<close>

definition YY_END_OF_BUFFER_CHAR :: u8 where "YY_END_OF_BUFFER_CHAR = 0"

definition stack_array :: "'x flex_scanner \<Rightarrow> nat \<Rightarrow> nat option list option" where
  "stack_array g a = (case heap g a of Some (Stack xs) \<Rightarrow> Some xs | _ \<Rightarrow> None)"

definition YY_CURRENT_BUFFER :: "'x flex_scanner \<Rightarrow> nat option option" where
  "YY_CURRENT_BUFFER g = (case yy_buffer_stack g of
     None \<Rightarrow> Some None
   | Some a \<Rightarrow> do { xs \<leftarrow> stack_array g a; aget xs (yy_buffer_stack_top g) })"

text \<open>An assignment to \<open>YY_CURRENT_BUFFER_LVALUE\<close>, and the buffer it points to.\<close>

definition set_current :: "nat option \<Rightarrow> 'x flex_scanner \<Rightarrow> 'x flex_scanner option" where
  "set_current b g = do {
     a \<leftarrow> yy_buffer_stack g;
     xs \<leftarrow> stack_array g a;
     xs \<leftarrow> aset xs (yy_buffer_stack_top g) b;
     Some (g\<lparr>heap := (heap g)(a \<mapsto> Stack xs)\<rparr>)
   }"

definition YY_CURRENT_BUFFER_LVALUE :: "'x flex_scanner \<Rightarrow> nat option" where
  "YY_CURRENT_BUFFER_LVALUE g = do { b \<leftarrow> YY_CURRENT_BUFFER g; b }"

text \<open>
  The first allocation of the stack, and its growth by eight entries. The new entries are zeroed
  at once; when the growth fails the pointer is null and the old array is lost.
\<close>

definition yyensure_buffer_stack :: "allocator \<Rightarrow> 'x flex_scanner \<Rightarrow> 'x flex_scanner or_exit option" where
  "yyensure_buffer_stack al g = (case yy_buffer_stack g of
     None \<Rightarrow> (case yyalloc al (\<lambda>k. Stack (replicate 1 None)) g of
         (None, g) \<Rightarrow> Some (Exit 2 ''out of dynamic memory in yyensure_buffer_stack()'')
       | (Some a, g) \<Rightarrow> Some (Continue (g\<lparr>yy_buffer_stack := Some a, yy_buffer_stack_max := 1, yy_buffer_stack_top := 0\<rparr>)))
   | Some a \<Rightarrow>
       if 1 \<le> yy_buffer_stack_max g \<and> yy_buffer_stack_max g - 1 \<le> yy_buffer_stack_top g then do {
         xs \<leftarrow> stack_array g a;
         let num_to_alloc = yy_buffer_stack_max g + 8;
         case yyalloc al (\<lambda>k. Stack (take (yy_buffer_stack_max g) xs @ replicate 8 None)) g of
           (None, g) \<Rightarrow> Some (Exit 2 ''out of dynamic memory in yyensure_buffer_stack()'')
         | (Some a', g) \<Rightarrow> do {
             g \<leftarrow> yyfree_object a g;
             Some (Continue (g\<lparr>yy_buffer_stack := Some a', yy_buffer_stack_max := num_to_alloc\<rparr>))
           }
       } else Some (Continue g))"

definition yy_load_buffer_state_of :: "'x flex_scanner \<Rightarrow> 'x flex_scanner option" where
  "yy_load_buffer_state_of g = do {
     b \<leftarrow> YY_CURRENT_BUFFER_LVALUE g;
     st \<leftarrow> buffer_at g b;
     h \<leftarrow> peek g (st_buf_pos st) 0;
     Some (g\<lparr>n_chars_r := st_n_chars st, c_buf_p_r := st_buf_pos st, yytext_r := st_buf_pos st,
       yyin_r := st_input_file st, hold_char_r := h\<rparr>)
   }"

definition yy_flush_buffer_of :: "nat option \<Rightarrow> 'x flex_scanner \<Rightarrow> 'x flex_scanner option" where
  "yy_flush_buffer_of b g = (case b of None \<Rightarrow> Some g | Some b \<Rightarrow> do {
     g \<leftarrow> upd_buffer b (\<lambda>st. st\<lparr>st_n_chars := 0\<rparr>) g;
     st \<leftarrow> buffer_at g b;
     g \<leftarrow> poke (st_ch_buf st) 0 YY_END_OF_BUFFER_CHAR g;
     g \<leftarrow> poke (st_ch_buf st) 1 YY_END_OF_BUFFER_CHAR g;
     g \<leftarrow> upd_buffer b (\<lambda>st. st\<lparr>st_buf_pos := st_ch_buf st, st_at_bol := 1, st_buffer_status := 0\<rparr>) g;
     cur \<leftarrow> YY_CURRENT_BUFFER g;
     if cur = Some b then yy_load_buffer_state_of g else Some g
   })"

definition yy_init_buffer :: "nat \<Rightarrow> nat option \<Rightarrow> 'x flex_scanner \<Rightarrow> 'x flex_scanner option" where
  "yy_init_buffer b file g = do {
     g \<leftarrow> yy_flush_buffer_of (Some b) g;
     g \<leftarrow> upd_buffer b (\<lambda>st. st\<lparr>st_input_file := file, st_fill_buffer := 1\<rparr>) g;
     cur \<leftarrow> YY_CURRENT_BUFFER g;
     g \<leftarrow> (if cur \<noteq> Some b then upd_buffer b (\<lambda>st. st\<lparr>st_bs_lineno := 1, st_bs_column := 0\<rparr>) g else Some g);
     upd_buffer b (\<lambda>st. st\<lparr>st_is_interactive := 1\<rparr>) g
   }"

definition yy_create_buffer ::
  "allocator \<Rightarrow> nat option \<Rightarrow> nat \<Rightarrow> 'x flex_scanner \<Rightarrow> (nat \<times> 'x flex_scanner) or_exit option" where
  "yy_create_buffer al file sz g = (case yyalloc al (\<lambda>k. Buffer (fresh_state al k)) g of
     (None, g) \<Rightarrow> Some (Exit 2 ''out of dynamic memory in yy_create_buffer()'')
   | (Some b, g) \<Rightarrow> do {
       g \<leftarrow> upd_buffer b (\<lambda>st. st\<lparr>st_buf_size := sz\<rparr>) g;
       case yyalloc al (\<lambda>k. Chars (content al k (sz + 2))) g of
         (None, g) \<Rightarrow> Some (Exit 2 ''out of dynamic memory in yy_create_buffer()'')
       | (Some c, g) \<Rightarrow> do {
           g \<leftarrow> upd_buffer b (\<lambda>st. st\<lparr>st_ch_buf := At c 0, st_is_our_buffer := 1\<rparr>) g;
           g \<leftarrow> yy_init_buffer b file g;
           Some (Continue (b, g))
         }
     })"

definition yy_delete_buffer :: "nat option \<Rightarrow> 'x flex_scanner \<Rightarrow> 'x flex_scanner option" where
  "yy_delete_buffer b g = (case b of None \<Rightarrow> Some g | Some b \<Rightarrow> do {
     cur \<leftarrow> YY_CURRENT_BUFFER g;
     g \<leftarrow> (if cur = Some b then set_current None g else Some g);
     st \<leftarrow> buffer_at g b;
     g \<leftarrow> (if st_is_our_buffer st \<noteq> 0 then yyfree (st_ch_buf st) g else Some g);
     yyfree_object b g
   })"

text \<open>Several places provide a buffer of 16 KiB on \<open>yyin\<close> when there is none.\<close>

definition provide_buffer :: "allocator \<Rightarrow> 'x flex_scanner \<Rightarrow> 'x flex_scanner or_exit option" where
  "provide_buffer al g = do {
     cur \<leftarrow> YY_CURRENT_BUFFER g;
     if cur \<noteq> None then Some (Continue g) else
       and_then (yyensure_buffer_stack al g) (\<lambda>g.
       and_then (yy_create_buffer al (yyin_r g) 16384 g) (\<lambda>(b, g). do {
         g \<leftarrow> set_current (Some b) g;
         Some (Continue g)
       }))
   }"

definition yyrestart_of :: "allocator \<Rightarrow> nat option \<Rightarrow> 'x flex_scanner \<Rightarrow> 'x flex_scanner or_exit option" where
  "yyrestart_of al input_file g = and_then (provide_buffer al g) (\<lambda>g. do {
     b \<leftarrow> YY_CURRENT_BUFFER_LVALUE g;
     g \<leftarrow> yy_init_buffer b input_file g;
     g \<leftarrow> yy_load_buffer_state_of g;
     Some (Continue g)
   })"

text \<open>The macros that set a field of the current buffer, and \<open>YY_AT_BOL\<close>.\<close>

definition yy_set_interactive :: "allocator \<Rightarrow> int \<Rightarrow> 'x flex_scanner \<Rightarrow> 'x flex_scanner or_exit option" where
  "yy_set_interactive al is_interactive g = and_then (provide_buffer al g) (\<lambda>g. do {
     b \<leftarrow> YY_CURRENT_BUFFER_LVALUE g;
     g \<leftarrow> upd_buffer b (\<lambda>st. st\<lparr>st_is_interactive := is_interactive\<rparr>) g;
     Some (Continue g)
   })"

definition yy_set_bol :: "allocator \<Rightarrow> int \<Rightarrow> 'x flex_scanner \<Rightarrow> 'x flex_scanner or_exit option" where
  "yy_set_bol al at_bol g = and_then (provide_buffer al g) (\<lambda>g. do {
     b \<leftarrow> YY_CURRENT_BUFFER_LVALUE g;
     g \<leftarrow> upd_buffer b (\<lambda>st. st\<lparr>st_at_bol := at_bol\<rparr>) g;
     Some (Continue g)
   })"

definition YY_AT_BOL :: "'x flex_scanner \<Rightarrow> int option" where
  "YY_AT_BOL g = do { b \<leftarrow> YY_CURRENT_BUFFER_LVALUE g; st \<leftarrow> buffer_at g b; Some (st_at_bol st) }"

text \<open>The information about the current buffer, if there is one, is written back before another takes its place.\<close>

definition flush_out :: "'x flex_scanner \<Rightarrow> 'x flex_scanner option" where
  "flush_out g = do {
     cur \<leftarrow> YY_CURRENT_BUFFER g;
     case cur of None \<Rightarrow> Some g | Some b \<Rightarrow> do {
       g \<leftarrow> poke (c_buf_p_r g) 0 (hold_char_r g) g;
       g \<leftarrow> upd_buffer b (\<lambda>st. st\<lparr>st_buf_pos := c_buf_p_r g\<rparr>) g;
       upd_buffer b (\<lambda>st. st\<lparr>st_n_chars := n_chars_r g\<rparr>) g
     }
   }"

definition yy_switch_to_buffer :: "allocator \<Rightarrow> nat option \<Rightarrow> 'x flex_scanner \<Rightarrow> 'x flex_scanner or_exit option" where
  "yy_switch_to_buffer al new_buffer g = and_then (yyensure_buffer_stack al g) (\<lambda>g. do {
     cur \<leftarrow> YY_CURRENT_BUFFER g;
     if cur = new_buffer then Some (Continue g) else do {
       g \<leftarrow> flush_out g;
       g \<leftarrow> set_current new_buffer g;
       g \<leftarrow> yy_load_buffer_state_of g;
       Some (Continue (g\<lparr>yy_did_buffer_switch_on_eof := 1\<rparr>))
     }
   })"

definition yypush_buffer_state :: "allocator \<Rightarrow> nat option \<Rightarrow> 'x flex_scanner \<Rightarrow> 'x flex_scanner or_exit option" where
  "yypush_buffer_state al new_buffer g = (case new_buffer of
     None \<Rightarrow> Some (Continue g)
   | Some b \<Rightarrow> and_then (yyensure_buffer_stack al g) (\<lambda>g. do {
       g \<leftarrow> flush_out g;
       cur \<leftarrow> YY_CURRENT_BUFFER g;
       let g = (if cur \<noteq> None then g\<lparr>yy_buffer_stack_top := yy_buffer_stack_top g + 1\<rparr> else g);
       g \<leftarrow> set_current (Some b) g;
       g \<leftarrow> yy_load_buffer_state_of g;
       Some (Continue (g\<lparr>yy_did_buffer_switch_on_eof := 1\<rparr>))
     }))"

definition yypop_buffer_state :: "'x flex_scanner \<Rightarrow> 'x flex_scanner option" where
  "yypop_buffer_state g = do {
     cur \<leftarrow> YY_CURRENT_BUFFER g;
     if cur = None then Some g else do {
       g \<leftarrow> yy_delete_buffer cur g;
       g \<leftarrow> set_current None g;
       let g = (if 0 < yy_buffer_stack_top g then g\<lparr>yy_buffer_stack_top := yy_buffer_stack_top g - 1\<rparr> else g);
       cur \<leftarrow> YY_CURRENT_BUFFER g;
       if cur \<noteq> None then do {
         g \<leftarrow> yy_load_buffer_state_of g;
         Some (g\<lparr>yy_did_buffer_switch_on_eof := 1\<rparr>)
       } else Some g
     }
   }"

section \<open>Scanning memory\<close>

text \<open>\<open>yy_scan_buffer\<close> on the block at \<open>base\<close>; the result is null when the two zero bytes are missing.\<close>

definition yy_scan_buffer ::
  "allocator \<Rightarrow> nat \<Rightarrow> nat \<Rightarrow> 'x flex_scanner \<Rightarrow> (nat option \<times> 'x flex_scanner) or_exit option" where
  "yy_scan_buffer al base sz g = do {
     bad \<leftarrow> (if sz < 2 then Some True else do {
       x \<leftarrow> peek g (At base 0) (sz - 2);
       if x \<noteq> YY_END_OF_BUFFER_CHAR then Some True
       else do { y \<leftarrow> peek g (At base 0) (sz - 1); Some (y \<noteq> YY_END_OF_BUFFER_CHAR) }
     });
     if bad then Some (Continue (None, g)) else
       (case yyalloc al (\<lambda>k. Buffer (fresh_state al k)) g of
         (None, g) \<Rightarrow> Some (Exit 2 ''out of dynamic memory in yy_scan_buffer()'')
       | (Some b, g) \<Rightarrow> do {
           g \<leftarrow> upd_buffer b (\<lambda>st. st\<lparr>st_buf_size := sz - 2, st_ch_buf := At base 0, st_buf_pos := At base 0,
               st_is_our_buffer := 0, st_input_file := None, st_n_chars := sz - 2, st_is_interactive := 0,
               st_at_bol := 1, st_fill_buffer := 0, st_buffer_status := 0\<rparr>) g;
           and_then (yy_switch_to_buffer al (Some b) g) (\<lambda>g. Some (Continue (Some b, g)))
         })
   }"

text \<open>\<open>yy_scan_bytes\<close> copies the bytes; the copied block is complete before it is scanned.\<close>

definition yy_scan_bytes ::
  "allocator \<Rightarrow> u8 list \<Rightarrow> 'x flex_scanner \<Rightarrow> (nat \<times> 'x flex_scanner) or_exit option" where
  "yy_scan_bytes al yybytes g =
     (case yyalloc al (\<lambda>k. Chars (yybytes @ [YY_END_OF_BUFFER_CHAR, YY_END_OF_BUFFER_CHAR])) g of
       (None, g) \<Rightarrow> Some (Exit 2 ''out of dynamic memory in yy_scan_bytes()'')
     | (Some buf, g) \<Rightarrow> and_then (yy_scan_buffer al buf (length yybytes + 2) g) (\<lambda>(b, g). case b of
         None \<Rightarrow> Some (Exit 2 ''bad buffer in yy_scan_bytes()'')
       | Some b \<Rightarrow> do {
           g \<leftarrow> upd_buffer b (\<lambda>st. st\<lparr>st_is_our_buffer := 1\<rparr>) g;
           Some (Continue (b, g))
         }))"

text \<open>\<open>yy_scan_string\<close>; the argument is the memory behind the pointer.\<close>

definition yy_scan_string ::
  "allocator \<Rightarrow> u8 list \<Rightarrow> 'x flex_scanner \<Rightarrow> (nat \<times> 'x flex_scanner) or_exit option" where
  "yy_scan_string al yystr g = do { s \<leftarrow> cstr yystr; yy_scan_bytes al s g }"

section \<open>Accessors\<close>

definition yyget_extra :: "'x flex_scanner \<Rightarrow> 'x option" where "yyget_extra g = yyextra_r g"

definition yyget_lineno :: "'x flex_scanner \<Rightarrow> int option" where
  "yyget_lineno g = do {
     cur \<leftarrow> YY_CURRENT_BUFFER g;
     case cur of None \<Rightarrow> Some 0 | Some b \<Rightarrow> do { st \<leftarrow> buffer_at g b; Some (st_bs_lineno st) }
   }"

definition yyget_column :: "'x flex_scanner \<Rightarrow> int option" where
  "yyget_column g = do {
     cur \<leftarrow> YY_CURRENT_BUFFER g;
     case cur of None \<Rightarrow> Some 0 | Some b \<Rightarrow> do { st \<leftarrow> buffer_at g b; Some (st_bs_column st) }
   }"

definition yyget_in :: "'x flex_scanner \<Rightarrow> nat option" where "yyget_in g = yyin_r g"
definition yyget_out :: "'x flex_scanner \<Rightarrow> nat option" where "yyget_out g = yyout_r g"
definition yyget_leng :: "'x flex_scanner \<Rightarrow> nat" where "yyget_leng g = yyleng_r g"
definition yyget_text :: "'x flex_scanner \<Rightarrow> ptr" where "yyget_text g = yytext_r g"
definition yyget_debug :: "'x flex_scanner \<Rightarrow> int" where "yyget_debug g = yy_flex_debug_r g"

definition yyset_extra :: "'x option \<Rightarrow> 'x flex_scanner \<Rightarrow> 'x flex_scanner" where
  "yyset_extra user_defined g = g\<lparr>yyextra_r := user_defined\<rparr>"

definition yyset_lineno :: "int \<Rightarrow> 'x flex_scanner \<Rightarrow> 'x flex_scanner or_exit option" where
  "yyset_lineno line_number g = do {
     cur \<leftarrow> YY_CURRENT_BUFFER g;
     case cur of None \<Rightarrow> Some (Exit 2 ''yyset_lineno called with no buffer'')
     | Some b \<Rightarrow> do { g \<leftarrow> upd_buffer b (\<lambda>st. st\<lparr>st_bs_lineno := line_number\<rparr>) g; Some (Continue g) }
   }"

definition yyset_column :: "int \<Rightarrow> 'x flex_scanner \<Rightarrow> 'x flex_scanner or_exit option" where
  "yyset_column column_no g = do {
     cur \<leftarrow> YY_CURRENT_BUFFER g;
     case cur of None \<Rightarrow> Some (Exit 2 ''yyset_column called with no buffer'')
     | Some b \<Rightarrow> do { g \<leftarrow> upd_buffer b (\<lambda>st. st\<lparr>st_bs_column := column_no\<rparr>) g; Some (Continue g) }
   }"

definition yyset_in :: "nat option \<Rightarrow> 'x flex_scanner \<Rightarrow> 'x flex_scanner" where "yyset_in f g = g\<lparr>yyin_r := f\<rparr>"
definition yyset_out :: "nat option \<Rightarrow> 'x flex_scanner \<Rightarrow> 'x flex_scanner" where "yyset_out f g = g\<lparr>yyout_r := f\<rparr>"
definition yyset_debug :: "int \<Rightarrow> 'x flex_scanner \<Rightarrow> 'x flex_scanner" where "yyset_debug d g = g\<lparr>yy_flex_debug_r := d\<rparr>"

section \<open>Creating and destroying a scanner\<close>

definition EINVAL :: int where "EINVAL = 22"
definition ENOMEM :: int where "ENOMEM = 12"

definition yy_init_globals :: "'x flex_scanner \<Rightarrow> 'x flex_scanner" where
  "yy_init_globals g = g\<lparr>yy_buffer_stack := None, yy_buffer_stack_top := 0, yy_buffer_stack_max := 0,
     c_buf_p_r := Null, yy_init := 0, yy_start := 0, yy_start_stack_ptr := 0, yy_start_stack_depth := 0,
     yy_start_stack := Null, yyin_r := None, yyout_r := None\<rparr>"

text \<open>\<open>memset\<close> of the new \<open>struct yyguts_t\<close> at \<open>a\<close>.\<close>

definition zeroed :: "nat \<Rightarrow> flex_heap \<Rightarrow> 'x flex_scanner" where
  "zeroed a h = \<lparr>heap = heap h, allocs = allocs h, self = a, yyextra_r = None, yyin_r = None, yyout_r = None,
     yy_buffer_stack_top = 0, yy_buffer_stack_max = 0, yy_buffer_stack = None, hold_char_r = 0, n_chars_r = 0,
     yyleng_r = 0, c_buf_p_r = Null, yy_init = 0, yy_start = 0, yy_did_buffer_switch_on_eof = 0,
     yy_start_stack_ptr = 0, yy_start_stack_depth = 0, yy_start_stack = Null, last_accepting_state_r = 0,
     last_accepting_cpos_r = Null, yy_flex_debug_r = 0, yytext_r = Null\<rparr>"

text \<open>
  A scanner that could not be created leaves \<open>errno\<close> and returns 1; the argument \<open>null\<close> tells whether
  the address for the result is a null pointer. \<open>yylex_init\<close> returns 0 otherwise.
\<close>

datatype 'x init_result = Refused int flex_heap | Created "'x flex_scanner"

definition yylex_init :: "allocator \<Rightarrow> bool \<Rightarrow> flex_heap \<Rightarrow> 'x init_result" where
  "yylex_init al null h =
     (if null then Refused EINVAL h
      else case yyalloc al (\<lambda>k. Guts) h of
        (None, h) \<Rightarrow> Refused ENOMEM h
      | (Some a, h) \<Rightarrow> Created (yy_init_globals (zeroed a h)))"

definition yylex_init_extra :: "allocator \<Rightarrow> 'x option \<Rightarrow> bool \<Rightarrow> flex_heap \<Rightarrow> 'x init_result" where
  "yylex_init_extra al yy_user_defined null h =
     (if null then Refused EINVAL h
      else case yyalloc al (\<lambda>k. Guts) h of
        (None, h) \<Rightarrow> Refused ENOMEM h
      | (Some a, h) \<Rightarrow> Created (yy_init_globals (yyset_extra yy_user_defined (zeroed a h))))"

text \<open>
  The loop of \<open>yylex_destroy\<close>. Its body makes the current buffer null before it calls
  \<open>yypop_buffer_state\<close>, which then does nothing, so two turns are enough.
\<close>

fun destroy_loop :: "nat \<Rightarrow> 'x flex_scanner \<Rightarrow> 'x flex_scanner option" where
  "destroy_loop 0 g = None"
| "destroy_loop (Suc fuel) g = do {
     cur \<leftarrow> YY_CURRENT_BUFFER g;
     if cur = None then Some g else do {
       g \<leftarrow> yy_delete_buffer cur g;
       g \<leftarrow> set_current None g;
       g \<leftarrow> yypop_buffer_state g;
       destroy_loop fuel g
     }
   }"

definition yylex_destroy :: "'x flex_scanner \<Rightarrow> flex_heap option" where
  "yylex_destroy g = do {
     g \<leftarrow> destroy_loop 2 g;
     g \<leftarrow> (case yy_buffer_stack g of None \<Rightarrow> Some g | Some a \<Rightarrow> yyfree_object a g);
     let g = g\<lparr>yy_buffer_stack := None\<rparr>;
     g \<leftarrow> yyfree (yy_start_stack g) g;
     let g = yy_init_globals (g\<lparr>yy_start_stack := Null\<rparr>);
     g \<leftarrow> yyfree_object (self g) g;
     Some (flex_heap.truncate g)
   }"

section \<open>The start of \<^verbatim>\<open>yylex\<close>\<close>

text \<open>Standard input and output are the files 0 and 1.\<close>

definition yylex_start :: "allocator \<Rightarrow> 'x flex_scanner \<Rightarrow> 'x flex_scanner or_exit option" where
  "yylex_start al g =
     (if yy_init g \<noteq> 0 then Some (Continue g) else
        let g = g\<lparr>yy_init := 1\<rparr>;
            g = (if yy_start g = 0 then g\<lparr>yy_start := 1\<rparr> else g);
            g = (if yyin_r g = None then g\<lparr>yyin_r := Some 0\<rparr> else g);
            g = (if yyout_r g = None then g\<lparr>yyout_r := Some 1\<rparr> else g)
        in and_then (provide_buffer al g) (\<lambda>g. do {
          g \<leftarrow> yy_load_buffer_state_of g;
          Some (Continue g)
        }))"

end
