(* ===== verification/Flex_Facts.thy ===== *)
theory Flex_Facts
  imports Flex_Buffers Gdb_Scanner
begin

text \<open>
  The buffers of the scanner refine an abstract stack: \<open>scanner_ok g bs cur\<close> relates a scanner in the heap
  to the buffers \<open>bs\<close> below the top and the buffer \<open>cur\<close> at the top (or none), with everything that must
  hold of the memory. Every call that a user may make is shown to follow the abstract stack without an
  access to freed memory, a double \<open>free\<close> or an access outside of a block.
\<close>

section \<open>Ending or going on\<close>

text \<open>
  A call does not fail, ends the program only when an allocation is refused, and otherwise gives a
  result with the property \<open>P\<close>.
\<close>

definition safely :: "allocator \<Rightarrow> 'a or_exit option \<Rightarrow> ('a \<Rightarrow> bool) \<Rightarrow> bool" where
  "safely al m P \<longleftrightarrow> (case m of None \<Rightarrow> False | Some (Exit code msg) \<Rightarrow> \<not> (\<forall>k. grants al k) | Some (Continue x) \<Rightarrow> P x)"

lemma safely_Continue [simp]: "safely al (Some (Continue x)) P = P x"
  by (simp add: safely_def)

lemma safely_Exit [simp]: "safely al (Some (Exit code msg)) P \<longleftrightarrow> \<not> (\<forall>k. grants al k)"
  by (simp add: safely_def)

lemma safely_None [simp]: "\<not> safely al None P"
  by (simp add: safely_def)

lemma safely_and_then:
  assumes "safely al m P" "\<And>x. P x \<Longrightarrow> safely al (f x) Q"
  shows "safely al (and_then m f) Q"
proof -
  obtain r where "m = Some r" using assms(1) by (cases m) auto
  then show ?thesis using assms by (cases r) auto
qed

lemma safely_mono: "safely al m P \<Longrightarrow> (\<And>x. P x \<Longrightarrow> Q x) \<Longrightarrow> safely al m Q"
  by (auto simp: safely_def split: option.splits or_exit.splits)

section \<open>Memory\<close>

lemma cell_reads [simp]:
  "heap g a = Some (Chars cs) \<Longrightarrow> chars_at g a = Some cs"
  "heap g a = Some (Buffer st) \<Longrightarrow> buffer_at g a = Some st"
  "heap s a = Some (Stack xs) \<Longrightarrow> stack_array s a = Some xs"
  by (simp_all add: chars_at_def buffer_at_def stack_array_def)

lemma peek_At [simp]: "heap g a = Some (Chars cs) \<Longrightarrow> i + j < length cs \<Longrightarrow> peek g (At a i) j = Some (cs ! (i + j))"
  by (simp add: peek_def)

lemma poke_At [simp]: "heap g a = Some (Chars cs) \<Longrightarrow> i + j < length cs \<Longrightarrow>
   poke (At a i) j v g = Some (g\<lparr>heap := (heap g)(a \<mapsto> Chars (cs[i + j := v]))\<rparr>)"
  by (simp add: poke_def)

lemma upd_buffer_eval [simp]:
  "heap g b = Some (Buffer st) \<Longrightarrow> upd_buffer b f g = Some (g\<lparr>heap := (heap g)(b \<mapsto> Buffer (f st))\<rparr>)"
  by (simp add: upd_buffer_def)

lemma yyfree_object_eval [simp]:
  "heap g a = Some x \<Longrightarrow> yyfree_object a g = Some (g\<lparr>heap := (heap g)(a := None)\<rparr>)"
  by (simp add: yyfree_object_def)

lemma yyfree_At [simp]: "heap g a = Some x \<Longrightarrow> yyfree (At a 0) g = Some (g\<lparr>heap := (heap g)(a := None)\<rparr>)"
  "yyfree Null g = Some g"
  by (simp_all add: yyfree_def)

text \<open>A buffer has a block with room for the two zero bytes, and its position is inside.\<close>

definition buffer_ok :: "(nat \<rightharpoonup> cell) \<Rightarrow> yy_buffer_state \<Rightarrow> bool" where
  "buffer_ok h st \<longleftrightarrow> (\<exists>c cs i. st_ch_buf st = At c 0 \<and> h c = Some (Chars cs) \<and> 2 \<le> length cs \<and>
     st_buf_pos st = At c i \<and> i < length cs)"

definition heap_ok :: "(nat \<rightharpoonup> cell) \<Rightarrow> bool" where
  "heap_ok h \<longleftrightarrow> (\<forall>b st. h b = Some (Buffer st) \<longrightarrow> buffer_ok h st) \<and>
     (\<forall>b b' st st'. h b = Some (Buffer st) \<longrightarrow> h b' = Some (Buffer st') \<longrightarrow> st_ch_buf st = st_ch_buf st' \<longrightarrow> b = b')"

lemma heap_ok_buffer:
  assumes "heap_ok h" "h b = Some (Buffer st)"
  obtains c cs i where "st_ch_buf st = At c 0" "h c = Some (Chars cs)" "2 \<le> length cs" "st_buf_pos st = At c i" "i < length cs"
    "c \<noteq> b"
proof -
  from assms have "buffer_ok h st" by (simp add: heap_ok_def)
  then obtain c cs i where *: "st_ch_buf st = At c 0" "h c = Some (Chars cs)" "2 \<le> length cs" "st_buf_pos st = At c i" "i < length cs"
    by (auto simp: buffer_ok_def)
  moreover have "c \<noteq> b" using *(2) assms(2) by auto
  ultimately show thesis by (rule that)
qed

lemma buffer_ok_cong:
  assumes "buffer_ok h st" "\<And>c cs. h c = Some (Chars cs) \<Longrightarrow> \<exists>cs'. h' c = Some (Chars cs') \<and> length cs' = length cs"
  shows "buffer_ok h' st"
  using assms unfolding buffer_ok_def by metis

named_theorems heap_intros \<open>preservation of \<^term>\<open>heap_ok\<close> by one write\<close>

lemma heap_ok_upd [heap_intros]:
  assumes "heap_ok h" "h b = Some (Buffer st)" "st_ch_buf st' = st_ch_buf st" "buffer_ok h st'"
  shows "heap_ok (h(b \<mapsto> Buffer st'))"
proof -
  have keep: "buffer_ok (h(b \<mapsto> Buffer st')) s" if "buffer_ok h s" for s
    using that by (rule buffer_ok_cong) (use assms(2) in auto)
  show ?thesis
    using assms keep unfolding heap_ok_def by (auto split: if_splits)
qed

lemma heap_ok_chars [heap_intros]:
  assumes "heap_ok h" "h c = Some (Chars cs)" "length cs' = length cs"
  shows "heap_ok (h(c \<mapsto> Chars cs'))"
proof -
  have keep: "buffer_ok (h(c \<mapsto> Chars cs')) s" if "buffer_ok h s" for s
    using that by (rule buffer_ok_cong) (use assms(2,3) in auto)
  show ?thesis using assms keep unfolding heap_ok_def by (auto split: if_splits)
qed

text \<open>Objects that are no buffers and no characters come and go.\<close>

definition neutral :: "cell option \<Rightarrow> bool" where
  "neutral x \<longleftrightarrow> (case x of Some (Chars _) \<Rightarrow> False | Some (Buffer _) \<Rightarrow> False | _ \<Rightarrow> True)"

lemma neutral_simps [simp]: "neutral None" "neutral (Some (Stack xs))" "neutral (Some Guts)"
  by (simp_all add: neutral_def)

lemma heap_ok_neutral [heap_intros]:
  assumes "heap_ok h" "neutral (h a)" "\<forall>st. x \<noteq> Some (Buffer st)"
  shows "heap_ok (h(a := x))"
proof -
  have keep: "buffer_ok (h(a := x)) s" if "buffer_ok h s" for s
    using that by (rule buffer_ok_cong) (use assms(2) in \<open>auto simp: neutral_def\<close>)
  show ?thesis using assms(1,3) keep unfolding heap_ok_def by (auto split: if_splits)
qed

section \<open>The abstract stack\<close>

definition holds_stack :: "'x flex_scanner \<Rightarrow> nat list \<Rightarrow> nat option \<Rightarrow> bool" where
  "holds_stack g bs cur \<longleftrightarrow> yy_buffer_stack_top g = length bs \<and> (case yy_buffer_stack g of
     None \<Rightarrow> bs = [] \<and> cur = None \<and> yy_buffer_stack_max g = 0
   | Some a \<Rightarrow> \<exists>n. heap g a = Some (Stack (map Some bs @ cur # replicate n None)) \<and> yy_buffer_stack_max g = length bs + 1 + n)"

lemma holds_stack_same:
  "holds_stack g bs cur \<Longrightarrow> yy_buffer_stack g' = yy_buffer_stack g \<Longrightarrow> yy_buffer_stack_top g' = yy_buffer_stack_top g \<Longrightarrow>
   yy_buffer_stack_max g' = yy_buffer_stack_max g \<Longrightarrow> (\<And>a xs. heap g a = Some (Stack xs) \<Longrightarrow> heap g' a = Some (Stack xs)) \<Longrightarrow>
   holds_stack g' bs cur"
  by (fastforce simp: holds_stack_def split: option.splits)

text \<open>Memory is allocated in order, the scanner itself is allocated, and the position is in the current buffer.\<close>

definition memory_ok :: "'x flex_scanner \<Rightarrow> bool" where
  "memory_ok g \<longleftrightarrow> (\<forall>a. allocs g \<le> a \<longrightarrow> heap g a = None) \<and> heap g (self g) = Some Guts \<and> heap_ok (heap g) \<and>
     yy_start_stack g = Null"

definition position_ok :: "'x flex_scanner \<Rightarrow> nat \<Rightarrow> bool" where
  "position_ok g b \<longleftrightarrow> (\<exists>st c i cs. heap g b = Some (Buffer st) \<and> st_ch_buf st = At c 0 \<and> heap g c = Some (Chars cs) \<and>
     c_buf_p_r g = At c i \<and> i < length cs)"

definition is_buffer :: "'x flex_scanner \<Rightarrow> nat \<Rightarrow> bool" where
  "is_buffer g b \<longleftrightarrow> (\<exists>st. heap g b = Some (Buffer st))"

definition scanner_ok :: "'x flex_scanner \<Rightarrow> nat list \<Rightarrow> nat option \<Rightarrow> bool" where
  "scanner_ok g bs cur \<longleftrightarrow> holds_stack g bs cur \<and> memory_ok g \<and> distinct bs \<and> (\<forall>b \<in> set bs. is_buffer g b) \<and>
     (\<forall>b. cur = Some b \<longrightarrow> b \<notin> set bs \<and> position_ok g b)"

text \<open>Both pointers that can be current: every buffer of the scanner can be read.\<close>

lemma scanner_ok_current [simp]: "scanner_ok g bs cur \<Longrightarrow> YY_CURRENT_BUFFER g = Some cur"
  by (auto simp: scanner_ok_def holds_stack_def YY_CURRENT_BUFFER_def nth_append split: option.splits)

lemma scanner_ok_fresh [simp]: "scanner_ok g bs cur \<Longrightarrow> heap g (allocs g) = None"
  by (simp add: scanner_ok_def memory_ok_def)

text \<open>A stack that has room for a push at \<open>a\<close>, with \<open>n\<close> free entries.\<close>

definition stack_cell :: "'x flex_scanner \<Rightarrow> nat list \<Rightarrow> nat option \<Rightarrow> nat \<Rightarrow> nat \<Rightarrow> bool" where
  "stack_cell g bs cur a n \<longleftrightarrow> yy_buffer_stack g = Some a \<and> heap g a = Some (Stack (map Some bs @ cur # replicate n None)) \<and>
     yy_buffer_stack_top g = length bs \<and> yy_buffer_stack_max g = length bs + 1 + n"

lemma holds_stack_cell: "stack_cell g bs cur a n \<Longrightarrow> holds_stack g bs cur"
  by (auto simp: stack_cell_def holds_stack_def)

lemma stack_cellE:
  assumes "scanner_ok g bs cur" "yy_buffer_stack g \<noteq> None"
  obtains a n where "stack_cell g bs cur a n"
  using assms by (auto simp: scanner_ok_def holds_stack_def stack_cell_def)

lemma current_needs_stack: "scanner_ok g bs (Some b) \<Longrightarrow> yy_buffer_stack g \<noteq> None"
  by (auto simp: scanner_ok_def holds_stack_def split: option.splits)

lemma set_current_eval: "stack_cell g bs cur a n \<Longrightarrow>
   set_current b g = Some (g\<lparr>heap := (heap g)(a \<mapsto> Stack (map Some bs @ b # replicate n None))\<rparr>)"
  by (simp add: set_current_def stack_cell_def list_update_append)

text \<open>What a change of the stack and of its array keeps_buffer: the buffers, their text, and the position.\<close>

definition same_buffers :: "'x flex_scanner \<Rightarrow> 'x flex_scanner \<Rightarrow> bool" where
  "same_buffers g g' \<longleftrightarrow> (\<forall>b st. heap g' b = Some (Buffer st) \<longleftrightarrow> heap g b = Some (Buffer st)) \<and>
     (\<forall>b cs. heap g b = Some (Chars cs) \<longrightarrow> heap g' b = Some (Chars cs)) \<and>
     hold_char_r g' = hold_char_r g \<and> n_chars_r g' = n_chars_r g \<and> c_buf_p_r g' = c_buf_p_r g \<and> yyin_r g' = yyin_r g"

lemma same_buffers_keep:
  "same_buffers g g' \<Longrightarrow> is_buffer g b \<Longrightarrow> is_buffer g' b" "same_buffers g g' \<Longrightarrow> position_ok g b \<Longrightarrow> position_ok g' b"
  unfolding same_buffers_def is_buffer_def position_ok_def by metis+

lemma same_buffersI:
  assumes "neutral (heap g a)" "neutral (heap g' a)" "\<And>b. b \<noteq> a \<Longrightarrow> heap g' b = heap g b"
    "hold_char_r g' = hold_char_r g" "n_chars_r g' = n_chars_r g" "c_buf_p_r g' = c_buf_p_r g" "yyin_r g' = yyin_r g"
  shows "same_buffers g g'"
proof -
  have "heap g' b = Some x \<longleftrightarrow> heap g b = Some x" if "\<not> neutral (Some x)" for b x
    using assms(1,2) assms(3) [of b] that by (cases "b = a") auto
  then show ?thesis using assms(4-) by (simp add: same_buffers_def neutral_def)
qed

lemma same_buffers_trans: "same_buffers g g' \<Longrightarrow> same_buffers g' g'' \<Longrightarrow> same_buffers g g''"
  by (simp add: same_buffers_def)

lemma ensure_first:
  assumes "scanner_ok g bs cur" "yy_buffer_stack g = None" "grants al (allocs g)"
  shows "\<exists>g' a. yyensure_buffer_stack al g = Some (Continue g') \<and> scanner_ok g' bs cur \<and> stack_cell g' bs cur a 0 \<and>
    cur = None \<and> same_buffers g g'"
proof -
  let ?g = "g\<lparr>heap := (heap g)(allocs g \<mapsto> Stack [None]), allocs := allocs g + 1, yy_buffer_stack := Some (allocs g),
    yy_buffer_stack_max := 1, yy_buffer_stack_top := 0\<rparr>"
  have e: "yyensure_buffer_stack al g = Some (Continue ?g)"
    using assms(2,3) by (simp add: yyensure_buffer_stack_def yyalloc_def Let_def)
  have empty: "bs = []" "cur = None" using assms(1,2) by (auto simp: scanner_ok_def holds_stack_def)
  have "heap_ok (heap g)" "neutral (heap g (allocs g))" using assms(1) by (simp_all add: scanner_ok_def memory_ok_def)
  then have "heap_ok (heap ?g)" by (simp add: heap_ok_neutral)
  moreover have "self g \<noteq> allocs g" using assms(1) by (auto simp: scanner_ok_def memory_ok_def)
  ultimately have "scanner_ok ?g bs cur"
    using assms(1) empty by (auto simp: scanner_ok_def memory_ok_def holds_stack_def)
  moreover have "same_buffers g ?g" by (rule same_buffersI [of _ "allocs g"]) (use assms(1) in auto)
  ultimately show ?thesis using e empty by (intro exI [of _ ?g] exI [of _ "allocs g"]) (simp add: stack_cell_def)
qed

lemma ensure_grow:
  assumes "scanner_ok g bs cur" "yy_buffer_stack g = Some a" "yy_buffer_stack_max g = length bs + 1" "grants al (allocs g)"
  shows "\<exists>g' a. yyensure_buffer_stack al g = Some (Continue g') \<and> scanner_ok g' bs cur \<and> stack_cell g' bs cur a 8 \<and>
    same_buffers g g'"
proof -
  let ?k = "allocs g" and ?xs = "map Some bs @ cur # replicate 8 None"
  let ?g = "g\<lparr>heap := (heap g)(?k \<mapsto> Stack ?xs, a := None), allocs := ?k + 1, yy_buffer_stack := Some ?k,
    yy_buffer_stack_max := length bs + 9\<rparr>"
  have c: "stack_cell g bs cur a 0" using assms(1-3) by (auto simp: scanner_ok_def holds_stack_def stack_cell_def)
  then have a: "heap g a = Some (Stack (map Some bs @ [cur]))" by (simp add: stack_cell_def)
  have k: "heap g ?k = None" "a \<noteq> ?k" "self g \<noteq> ?k" "self g \<noteq> a"
    using assms(1) a by (auto simp: scanner_ok_def memory_ok_def)
  have e: "yyensure_buffer_stack al g = Some (Continue ?g)"
    using assms(2,3,4) c k a by (simp add: yyensure_buffer_stack_def yyalloc_def Let_def stack_cell_def)
  have "heap_ok (heap g)" using assms(1) by (simp add: scanner_ok_def memory_ok_def)
  then have h: "heap_ok (heap ?g)" using k a by (auto intro!: heap_ok_neutral)
  have s: "same_buffers g (g\<lparr>heap := (heap g)(?k \<mapsto> Stack ?xs)\<rparr>)" by (rule same_buffersI [of _ ?k]) (use k in auto)
  have "same_buffers (g\<lparr>heap := (heap g)(?k \<mapsto> Stack ?xs)\<rparr>) ?g" by (rule same_buffersI [of _ a]) (use k a in auto)
  with s have sb: "same_buffers g ?g" by (rule same_buffers_trans)
  have "stack_cell ?g bs cur ?k 8" using assms(1) k by (simp add: stack_cell_def scanner_ok_def holds_stack_def)
  moreover from this h k have "scanner_ok ?g bs cur"
    using assms(1) sb same_buffers_keep [OF sb] unfolding scanner_ok_def memory_ok_def by (auto simp: holds_stack_cell)
  ultimately show ?thesis using e sb by blast
qed

lemma ensure_ok:
  assumes "scanner_ok g bs cur"
  shows "safely al (yyensure_buffer_stack al g) (\<lambda>g'. scanner_ok g' bs cur \<and> same_buffers g g' \<and>
    (\<exists>a n. stack_cell g' bs cur a n \<and> (cur = None \<or> 0 < n)))"
proof (cases "yy_buffer_stack g")
  case None
  then show ?thesis
    using ensure_first [OF assms None, of al]
    by (cases "grants al (allocs g)") (auto simp: yyensure_buffer_stack_def yyalloc_def Let_def)
next
  case (Some a)
  then obtain n where c: "stack_cell g bs cur a n"
    using assms by (auto simp: scanner_ok_def holds_stack_def stack_cell_def)
  show ?thesis
  proof (cases "n = 0")
    case True
    with c have "yy_buffer_stack_max g = length bs + 1" "stack_array g a = Some (map Some bs @ [cur])"
      by (simp_all add: stack_cell_def)
    with Some c ensure_grow [OF assms Some, of al] show ?thesis
      by (cases "grants al (allocs g)") (force simp: yyensure_buffer_stack_def yyalloc_def Let_def stack_cell_def)+
  next
    case False
    with Some c have "yyensure_buffer_stack al g = Some (Continue g)"
      by (simp add: yyensure_buffer_stack_def stack_cell_def)
    with assms c False show ?thesis by (auto simp: same_buffers_def)
  qed
qed

section \<open>Loading and writing back\<close>

text \<open>A buffer that is current but not loaded yet.\<close>

definition linked :: "'x flex_scanner \<Rightarrow> nat list \<Rightarrow> nat option \<Rightarrow> bool" where
  "linked g bs cur \<longleftrightarrow> holds_stack g bs cur \<and> memory_ok g \<and> distinct bs \<and> (\<forall>b \<in> set bs. is_buffer g b) \<and>
     (\<forall>b. cur = Some b \<longrightarrow> b \<notin> set bs \<and> is_buffer g b)"

lemma position_is_buffer: "position_ok g b \<Longrightarrow> is_buffer g b"
  by (auto simp: position_ok_def is_buffer_def)

lemma scanner_ok_linked: "scanner_ok g bs cur \<Longrightarrow> linked g bs cur"
  by (auto simp: scanner_ok_def linked_def position_is_buffer)

lemma linked_empty: "linked g bs None \<Longrightarrow> scanner_ok g bs None"
  by (simp add: scanner_ok_def linked_def)

lemma linked_current [simp]: "linked g bs cur \<Longrightarrow> YY_CURRENT_BUFFER g = Some cur"
  by (auto simp: linked_def holds_stack_def YY_CURRENT_BUFFER_def nth_append split: option.splits)

lemma linked_buffer:
  assumes "linked g bs cur" "is_buffer g b"
  obtains st c cs i where "heap g b = Some (Buffer st)" "st_ch_buf st = At c 0" "heap g c = Some (Chars cs)" "2 \<le> length cs"
    "st_buf_pos st = At c i" "i < length cs" "c \<noteq> b"
proof -
  from assms(2) obtain st where st: "heap g b = Some (Buffer st)" by (auto simp: is_buffer_def)
  have "heap_ok (heap g)" using assms(1) by (simp add: linked_def memory_ok_def)
  then obtain c cs i where "st_ch_buf st = At c 0" "heap g c = Some (Chars cs)" "2 \<le> length cs" "st_buf_pos st = At c i"
      "i < length cs" "c \<noteq> b"
    using st by (rule heap_ok_buffer)
  with st show thesis by (rule that)
qed

text \<open>The scanner has the position, the held character and the file of the buffer \<open>d\<close>, which is as in \<open>g\<close>.\<close>

definition loaded_from :: "'x flex_scanner \<Rightarrow> nat \<Rightarrow> 'x flex_scanner \<Rightarrow> bool" where
  "loaded_from g d g' \<longleftrightarrow> (\<exists>st c i cs. heap g d = Some (Buffer st) \<and> st_ch_buf st = At c 0 \<and> heap g c = Some (Chars cs) \<and>
     st_buf_pos st = At c i \<and> i < length cs \<and> n_chars_r g' = st_n_chars st \<and> c_buf_p_r g' = At c i \<and> hold_char_r g' = cs ! i \<and>
     yyin_r g' = st_input_file st \<and> heap g' d = heap g d \<and> heap g' c = heap g c)"

text \<open>The buffer \<open>d\<close> has the position of the scanner \<open>g\<close>, and the held character is back in its place.\<close>

definition written_back :: "'x flex_scanner \<Rightarrow> nat \<Rightarrow> 'x flex_scanner \<Rightarrow> bool" where
  "written_back g d g' \<longleftrightarrow> (\<exists>st c i cs. heap g d = Some (Buffer st) \<and> st_ch_buf st = At c 0 \<and> heap g c = Some (Chars cs) \<and>
     c_buf_p_r g = At c i \<and> i < length cs \<and> heap g' d = Some (Buffer (st\<lparr>st_buf_pos := At c i, st_n_chars := n_chars_r g\<rparr>)) \<and>
     heap g' c = Some (Chars (cs[i := hold_char_r g])))"

text \<open>The buffer \<open>d\<close> and its block are the same in both.\<close>

definition keeps_buffer :: "nat \<Rightarrow> 'x flex_scanner \<Rightarrow> 'x flex_scanner \<Rightarrow> bool" where
  "keeps_buffer d g g' \<longleftrightarrow> heap g' d = heap g d \<and>
     (\<forall>st c. heap g d = Some (Buffer st) \<longrightarrow> st_ch_buf st = At c 0 \<longrightarrow> heap g' c = heap g c)"

lemma keeps_buffer_trans: "keeps_buffer d g g' \<Longrightarrow> keeps_buffer d g' g'' \<Longrightarrow> keeps_buffer d g g''"
  by (auto simp: keeps_buffer_def)

lemma keeps_buffer_heap: "heap g' = heap g \<Longrightarrow> keeps_buffer d g g'"
  by (simp add: keeps_buffer_def)

lemma loaded_from_keeps: "keeps_buffer d g g' \<Longrightarrow> loaded_from g' d g'' \<Longrightarrow> loaded_from g d g''"
  by (fastforce simp: keeps_buffer_def loaded_from_def)

lemma written_back_keeps: "written_back g d g' \<Longrightarrow> keeps_buffer d g' g'' \<Longrightarrow> written_back g d g''"
  by (fastforce simp: keeps_buffer_def written_back_def)

lemma written_back_same:
  assumes "written_back g1 d g2" "same_buffers g g1" "is_buffer g d" "heap_ok (heap g)"
  shows "written_back g d g2"
proof -
  from assms(3) obtain st where st: "heap g d = Some (Buffer st)" by (auto simp: is_buffer_def)
  with assms(4) obtain c cs i where c: "st_ch_buf st = At c 0" "heap g c = Some (Chars cs)" by (metis heap_ok_buffer)
  have "heap g1 d = Some (Buffer st)" "heap g1 c = Some (Chars cs)" "hold_char_r g1 = hold_char_r g" "n_chars_r g1 = n_chars_r g"
    "c_buf_p_r g1 = c_buf_p_r g"
    using assms(2) st c by (simp_all add: same_buffers_def)
  with assms(1) st c show ?thesis by (simp add: written_back_def)
qed

lemma load_ok:
  assumes "linked g bs (Some b)"
  shows "\<exists>g'. yy_load_buffer_state_of g = Some g' \<and> scanner_ok g' bs (Some b) \<and> heap g' = heap g \<and> self g' = self g \<and>
    allocs g' = allocs g \<and> yy_buffer_stack g' = yy_buffer_stack g \<and> loaded_from g b g'"
proof -
  have "is_buffer g b" using assms by (simp add: linked_def)
  with assms obtain st c cs i where st: "heap g b = Some (Buffer st)" "st_ch_buf st = At c 0" "heap g c = Some (Chars cs)"
    "2 \<le> length cs" "st_buf_pos st = At c i" "i < length cs" "c \<noteq> b" by (rule linked_buffer)
  let ?g = "g\<lparr>n_chars_r := st_n_chars st, c_buf_p_r := At c i, yytext_r := At c i, yyin_r := st_input_file st,
    hold_char_r := cs ! i\<rparr>"
  have "yy_load_buffer_state_of g = Some ?g"
    using assms st by (simp add: yy_load_buffer_state_of_def YY_CURRENT_BUFFER_LVALUE_def)
  moreover have "holds_stack ?g bs (Some b)" using assms by (simp add: linked_def holds_stack_same [of g])
  then have "scanner_ok ?g bs (Some b)"
    using assms st by (simp add: linked_def scanner_ok_def memory_ok_def position_ok_def is_buffer_def)
  moreover have "loaded_from g b ?g" using st by (simp add: loaded_from_def)
  ultimately show ?thesis by (intro exI [of _ ?g]) simp
qed

text \<open>One write to a buffer or to its characters.\<close>

lemma linked_upd_buffer:
  assumes "linked g bs cur" "heap g b = Some (Buffer st)" "st_ch_buf st' = st_ch_buf st" "buffer_ok (heap g) st'"
  shows "linked (g\<lparr>heap := (heap g)(b \<mapsto> Buffer st')\<rparr>) bs cur"
proof -
  have "heap_ok (heap g)" using assms(1) by (simp add: linked_def memory_ok_def)
  from heap_ok_upd [OF this assms(2-4)] show ?thesis
    using assms(1,2) by (auto simp: linked_def memory_ok_def holds_stack_def is_buffer_def split: option.splits)
qed

lemma linked_chars:
  assumes "linked g bs cur" "heap g c = Some (Chars cs)" "length cs' = length cs"
  shows "linked (g\<lparr>heap := (heap g)(c \<mapsto> Chars cs')\<rparr>) bs cur"
proof -
  have "heap_ok (heap g)" using assms(1) by (simp add: linked_def memory_ok_def)
  from heap_ok_chars [OF this assms(2,3)] show ?thesis
    using assms(1,2) by (auto simp: linked_def memory_ok_def holds_stack_def is_buffer_def split: option.splits)
qed

definition buffers :: "'x flex_scanner \<Rightarrow> nat set" where
  "buffers g = {b. is_buffer g b}"

lemma buffers_upd [simp]:
  "heap g b = Some (Buffer st) \<Longrightarrow> buffers (g\<lparr>heap := (heap g)(b \<mapsto> Buffer st')\<rparr>) = buffers g"
  "heap g c = Some (Chars cs) \<Longrightarrow> buffers (g\<lparr>heap := (heap g)(c \<mapsto> Chars cs')\<rparr>) = buffers g"
  by (auto simp: buffers_def is_buffer_def)

lemma flush_out_eval:
  assumes "scanner_ok g bs (Some b)" "heap g b = Some (Buffer st)" "st_ch_buf st = At c 0" "heap g c = Some (Chars cs)"
    "c_buf_p_r g = At c i"
  shows "flush_out g = Some (g\<lparr>heap := (heap g)(c \<mapsto> Chars (cs[i := hold_char_r g]),
    b \<mapsto> Buffer (st\<lparr>st_buf_pos := At c i, st_n_chars := n_chars_r g\<rparr>))\<rparr>)"
proof -
  have "i < length cs" "c \<noteq> b" using assms by (auto simp: scanner_ok_def position_ok_def)
  with assms show ?thesis by (simp add: flush_out_def)
qed

text \<open>The current buffer with its block, the position of its structure and that of the scanner.\<close>

lemma currentE:
  assumes "scanner_ok g bs (Some b)"
  obtains st c i j cs where "heap g b = Some (Buffer st)" "st_ch_buf st = At c 0" "heap g c = Some (Chars cs)"
    "c_buf_p_r g = At c i" "i < length cs" "st_buf_pos st = At c j" "2 \<le> length cs" "c \<noteq> b"
proof -
  have "position_ok g b" using assms by (simp add: scanner_ok_def)
  then obtain st c i cs where st: "heap g b = Some (Buffer st)" "st_ch_buf st = At c 0" "heap g c = Some (Chars cs)"
    "c_buf_p_r g = At c i" "i < length cs" unfolding position_ok_def by blast
  have "heap_ok (heap g)" using assms by (simp add: scanner_ok_def memory_ok_def)
  then obtain c' cs' j where "st_ch_buf st = At c' 0" "heap g c' = Some (Chars cs')" "2 \<le> length cs'"
    "st_buf_pos st = At c' j" "c' \<noteq> b" using st(1) by (rule heap_ok_buffer)
  with st show thesis by (intro that) simp_all
qed

lemma flush_out_ok:
  assumes "scanner_ok g bs cur"
  shows "\<exists>g'. flush_out g = Some g' \<and> linked g' bs cur \<and> buffers g' = buffers g \<and>
    (\<forall>a xs. heap g a = Some (Stack xs) \<longrightarrow> heap g' a = Some (Stack xs)) \<and> yy_buffer_stack g' = yy_buffer_stack g \<and>
    yy_buffer_stack_top g' = yy_buffer_stack_top g \<and> yy_buffer_stack_max g' = yy_buffer_stack_max g \<and>
    (\<forall>d. cur = Some d \<longrightarrow> written_back g d g')"
proof (cases cur)
  case None
  then show ?thesis using assms by (simp add: flush_out_def scanner_ok_linked)
next
  case (Some b)
  obtain st c i j cs where st: "heap g b = Some (Buffer st)" "st_ch_buf st = At c 0" "heap g c = Some (Chars cs)"
    "c_buf_p_r g = At c i" "i < length cs" "st_buf_pos st = At c j" "2 \<le> length cs" "c \<noteq> b"
    using assms [unfolded Some] by (rule currentE)
  let ?g1 = "g\<lparr>heap := (heap g)(c \<mapsto> Chars (cs[i := hold_char_r g]))\<rparr>"
  let ?st = "st\<lparr>st_buf_pos := At c i, st_n_chars := n_chars_r g\<rparr>"
  let ?g2 = "g\<lparr>heap := (heap g)(c \<mapsto> Chars (cs[i := hold_char_r g]), b \<mapsto> Buffer ?st)\<rparr>"
  have bc: "heap ?g1 b = Some (Buffer st)" using st by simp
  have l1: "linked ?g1 bs cur" using linked_chars [OF scanner_ok_linked [OF assms] st(3)] by simp
  have "buffer_ok (heap ?g1) ?st" using st by (simp add: buffer_ok_def)
  from linked_upd_buffer [OF l1 bc _ this] have "linked ?g2 bs cur" by simp
  moreover have "buffers ?g2 = buffers g" using buffers_upd(1) [OF bc, of ?st] buffers_upd(2) [OF st(3)] by simp
  moreover have "flush_out g = Some ?g2" using flush_out_eval [OF assms [unfolded Some] st(1-4)] .
  moreover have "heap ?g2 a = Some (Stack xs)" if "heap g a = Some (Stack xs)" for a xs
  proof -
    have "a \<noteq> b" "a \<noteq> c" using that st(1,3) by auto
    with that show ?thesis by simp
  qed
  moreover have "written_back g b ?g2" using st by (simp add: written_back_def)
  ultimately show ?thesis using Some by (intro exI [of _ ?g2]) simp
qed

section \<open>Flushing and initialising a buffer\<close>

lemma current_cong:
  "yy_buffer_stack g' = yy_buffer_stack g \<Longrightarrow> yy_buffer_stack_top g' = yy_buffer_stack_top g \<Longrightarrow>
   (\<And>a. yy_buffer_stack g = Some a \<Longrightarrow> heap g' a = heap g a) \<Longrightarrow> YY_CURRENT_BUFFER g' = YY_CURRENT_BUFFER g"
  by (simp add: YY_CURRENT_BUFFER_def stack_array_def split: option.split)

lemma flush_eval:
  assumes "heap g b = Some (Buffer st)" "st_ch_buf st = At c 0" "heap g c = Some (Chars cs)" "2 \<le> length cs"
    "YY_CURRENT_BUFFER g = Some cur" "yy_buffer_stack g \<noteq> Some b" "yy_buffer_stack g \<noteq> Some c"
  shows "yy_flush_buffer_of (Some b) g =
    (let g' = g\<lparr>heap := (heap g)(c \<mapsto> Chars (cs[0 := 0, 1 := 0]),
       b \<mapsto> Buffer (st\<lparr>st_n_chars := 0, st_buf_pos := At c 0, st_at_bol := 1, st_buffer_status := 0\<rparr>))\<rparr>
     in if cur = Some b then yy_load_buffer_state_of g' else Some g')"
proof -
  have "c \<noteq> b" using assms(1,3) by auto
  then have *: "YY_CURRENT_BUFFER (g\<lparr>heap := (heap g)(c \<mapsto> Chars (cs[0 := 0, 1 := 0]),
       b \<mapsto> Buffer (st\<lparr>st_n_chars := 0, st_buf_pos := At c 0, st_at_bol := 1, st_buffer_status := 0\<rparr>))\<rparr>) = Some cur"
    using assms(5-7) by (subst current_cong [of _ g]) auto
  have "cs \<noteq> []" "Suc 0 < length cs" using assms(4) by auto
  then show ?thesis
    using assms(1-3) \<open>c \<noteq> b\<close> *
    by (simp add: yy_flush_buffer_of_def YY_END_OF_BUFFER_CHAR_def fun_upd_twist [of b c] Let_def)
qed

text \<open>The buffer after \<open>yy_init_buffer\<close>.\<close>

definition initialised :: "nat option \<Rightarrow> nat \<Rightarrow> bool \<Rightarrow> yy_buffer_state \<Rightarrow> yy_buffer_state" where
  "initialised file c is_current st = (let st = st\<lparr>st_n_chars := 0, st_buf_pos := At c 0, st_at_bol := 1, st_buffer_status := 0,
     st_input_file := file, st_fill_buffer := 1\<rparr> in
     (if is_current then st else st\<lparr>st_bs_lineno := 1, st_bs_column := 0\<rparr>)\<lparr>st_is_interactive := 1\<rparr>)"

lemma init_eval:
  assumes "heap g b = Some (Buffer st)" "st_ch_buf st = At c 0" "heap g c = Some (Chars cs)" "2 \<le> length cs"
    "YY_CURRENT_BUFFER g = Some cur" "cur \<noteq> Some b" "yy_buffer_stack g \<noteq> Some b" "yy_buffer_stack g \<noteq> Some c"
  shows "yy_init_buffer b file g = Some (g\<lparr>heap := (heap g)(c \<mapsto> Chars (cs[0 := 0, 1 := 0]),
    b \<mapsto> Buffer (initialised file c False st))\<rparr>)"
proof -
  have "c \<noteq> b" using assms(1,3) by auto
  then have "YY_CURRENT_BUFFER (g\<lparr>heap := (heap g)(c \<mapsto> Chars (cs[0 := 0, 1 := 0]), b \<mapsto> Buffer st')\<rparr>) = Some cur" for st'
    using assms(5,7,8) by (subst current_cong [of _ g]) auto
  then show ?thesis
    using assms(6) \<open>c \<noteq> b\<close>
    by (simp add: yy_init_buffer_def flush_eval [OF assms(1-5,7,8)] initialised_def Let_def)
qed

text \<open>Writes that keep the scanner loaded.\<close>

lemma position_ok_upd:
  "position_ok g b' \<Longrightarrow> heap g b = Some (Buffer st) \<Longrightarrow> st_ch_buf st' = st_ch_buf st \<Longrightarrow>
   position_ok (g\<lparr>heap := (heap g)(b \<mapsto> Buffer st')\<rparr>) b'"
  "position_ok g b' \<Longrightarrow> heap g c = Some (Chars cs) \<Longrightarrow> length cs' = length cs \<Longrightarrow>
   position_ok (g\<lparr>heap := (heap g)(c \<mapsto> Chars cs')\<rparr>) b'"
proof -
  assume p: "position_ok g b'"
  then obtain s d i ds where *: "heap g b' = Some (Buffer s)" "st_ch_buf s = At d 0" "heap g d = Some (Chars ds)"
    "c_buf_p_r g = At d i" "i < length ds" unfolding position_ok_def by blast
  show "position_ok (g\<lparr>heap := (heap g)(b \<mapsto> Buffer st')\<rparr>) b'"
    if h: "heap g b = Some (Buffer st)" and e: "st_ch_buf st' = st_ch_buf st"
  proof -
    have "d \<noteq> b" using *(3) h by auto
    then show ?thesis using * h e by (cases "b' = b") (auto simp: position_ok_def)
  qed
  show "position_ok (g\<lparr>heap := (heap g)(c \<mapsto> Chars cs')\<rparr>) b'"
    if h: "heap g c = Some (Chars cs)" and e: "length cs' = length cs"
  proof -
    have "b' \<noteq> c" using *(1) h by auto
    then show ?thesis using * h e by (cases "d = c") (auto simp: position_ok_def)
  qed
qed

lemma scanner_ok_iff: "scanner_ok g bs cur \<longleftrightarrow> linked g bs cur \<and> (\<forall>b. cur = Some b \<longrightarrow> position_ok g b)"
  by (auto simp: scanner_ok_def linked_def position_is_buffer)

lemma scanner_ok_upd_buffer:
  assumes "scanner_ok g bs cur" "heap g b = Some (Buffer st)" "st_ch_buf st' = st_ch_buf st" "buffer_ok (heap g) st'"
  shows "scanner_ok (g\<lparr>heap := (heap g)(b \<mapsto> Buffer st')\<rparr>) bs cur"
  using assms by (simp add: scanner_ok_iff linked_upd_buffer [OF _ assms(2)] position_ok_upd)

lemma scanner_ok_chars:
  assumes "scanner_ok g bs cur" "heap g c = Some (Chars cs)" "length cs' = length cs"
  shows "scanner_ok (g\<lparr>heap := (heap g)(c \<mapsto> Chars cs')\<rparr>) bs cur"
  using assms by (simp add: scanner_ok_iff linked_chars [OF _ assms(2)] position_ok_upd)

lemma not_the_stack:
  assumes "linked g bs cur" "heap g a = Some x" "\<not> (\<exists>xs. x = Stack xs)"
  shows "yy_buffer_stack g \<noteq> Some a"
  using assms by (auto simp: linked_def holds_stack_def)

section \<open>Operations on one buffer\<close>

lemma yields_bind:
  assumes "\<exists>x. m = Some x \<and> P x" "\<And>x. P x \<Longrightarrow> \<exists>y. f x = Some y \<and> Q y"
  shows "\<exists>y. Option.bind m f = Some y \<and> Q y"
  using assms by fastforce

lemma upd_ok:
  assumes "scanner_ok g bs cur" "b \<in> buffers g" "\<And>st. st_ch_buf (f st) = st_ch_buf st \<and> st_buf_pos (f st) = st_buf_pos st"
  shows "\<exists>g'. upd_buffer b f g = Some g' \<and> scanner_ok g' bs cur \<and> buffers g' = buffers g"
proof -
  obtain st where st: "heap g b = Some (Buffer st)" using assms(2) by (auto simp: buffers_def is_buffer_def)
  moreover have "heap_ok (heap g)" using assms(1) by (simp add: scanner_ok_def memory_ok_def)
  ultimately have "buffer_ok (heap g) st" by (simp add: heap_ok_def)
  then have "buffer_ok (heap g) (f st)" by (simp add: buffer_ok_def assms(3))
  from scanner_ok_upd_buffer [OF assms(1) st _ this] assms(3) st show ?thesis by simp
qed

text \<open>The current buffer need not be loaded yet when it is the one to be flushed.\<close>

lemma flush_linked:
  assumes "linked g bs cur" "b \<in> buffers g" "cur \<noteq> Some b \<Longrightarrow> scanner_ok g bs cur"
  shows "\<exists>g'. yy_flush_buffer_of (Some b) g = Some g' \<and> scanner_ok g' bs cur \<and> buffers g' = buffers g"
proof -
  note l = assms(1)
  have "is_buffer g b" using assms(2) by (simp add: buffers_def)
  with l obtain st c cs i where st: "heap g b = Some (Buffer st)" "st_ch_buf st = At c 0" "heap g c = Some (Chars cs)"
    "2 \<le> length cs" "st_buf_pos st = At c i" "i < length cs" "c \<noteq> b" by (rule linked_buffer)
  have n: "yy_buffer_stack g \<noteq> Some b" "yy_buffer_stack g \<noteq> Some c"
    using not_the_stack [OF l st(1)] not_the_stack [OF l st(3)] by simp_all
  let ?g1 = "g\<lparr>heap := (heap g)(c \<mapsto> Chars (cs[0 := 0, 1 := 0]))\<rparr>"
  let ?st = "st\<lparr>st_n_chars := 0, st_buf_pos := At c 0, st_at_bol := 1, st_buffer_status := 0\<rparr>"
  let ?g2 = "g\<lparr>heap := (heap g)(c \<mapsto> Chars (cs[0 := 0, 1 := 0]), b \<mapsto> Buffer ?st)\<rparr>"
  have s1: "linked ?g1 bs cur" by (rule linked_chars [OF l st(3)]) simp
  have b1: "heap ?g1 b = Some (Buffer st)" using st by simp
  have "cs \<noteq> []" using st(4) by auto
  then have ok: "buffer_ok (heap ?g1) ?st" using st by (simp add: buffer_ok_def)
  from linked_upd_buffer [OF s1 b1 _ this] have s2: "linked ?g2 bs cur" by simp
  have b2: "buffers ?g2 = buffers g" using buffers_upd(1) [OF b1, of ?st] buffers_upd(2) [OF st(3)] by simp
  have e: "yy_flush_buffer_of (Some b) g = (if cur = Some b then yy_load_buffer_state_of ?g2 else Some ?g2)"
    using flush_eval [OF st(1-4) linked_current [OF l] n] by (simp add: Let_def)
  show ?thesis
  proof (cases "cur = Some b")
    case True
    with s2 have "linked ?g2 bs (Some b)" by simp
    from load_ok [OF this] e True b2 show ?thesis by (auto simp: buffers_def is_buffer_def)
  next
    case False
    have "scanner_ok ?g1 bs cur" by (rule scanner_ok_chars [OF assms(3) [OF False] st(3)]) simp
    from scanner_ok_upd_buffer [OF this b1 _ ok] have "scanner_ok ?g2 bs cur" by simp
    with False e b2 show ?thesis by simp
  qed
qed

lemma init_linked:
  assumes "linked g bs cur" "b \<in> buffers g" "cur \<noteq> Some b \<Longrightarrow> scanner_ok g bs cur"
  shows "\<exists>g'. yy_init_buffer b file g = Some g' \<and> scanner_ok g' bs cur \<and> buffers g' = buffers g"
proof -
  obtain g1 where 1: "yy_flush_buffer_of (Some b) g = Some g1" "scanner_ok g1 bs cur" "buffers g1 = buffers g"
    using flush_linked [OF assms] by blast
  obtain g2 where 2: "upd_buffer b (\<lambda>st. st\<lparr>st_input_file := file, st_fill_buffer := 1\<rparr>) g1 = Some g2" "scanner_ok g2 bs cur"
    "buffers g2 = buffers g"
    using upd_ok [OF 1(2), of b "\<lambda>st. st\<lparr>st_input_file := file, st_fill_buffer := 1\<rparr>"] 1(3) assms(2) by auto
  obtain g3 where 3: "(if cur \<noteq> Some b then upd_buffer b (\<lambda>st. st\<lparr>st_bs_lineno := 1, st_bs_column := 0\<rparr>) g2 else Some g2) = Some g3"
    "scanner_ok g3 bs cur" "buffers g3 = buffers g"
    using upd_ok [OF 2(2), of b "\<lambda>st. st\<lparr>st_bs_lineno := 1, st_bs_column := 0\<rparr>"] 2(2,3) assms(2) by (cases "cur = Some b") auto
  obtain g4 where "upd_buffer b (\<lambda>st. st\<lparr>st_is_interactive := 1\<rparr>) g3 = Some g4" "scanner_ok g4 bs cur" "buffers g4 = buffers g"
    using upd_ok [OF 3(2), of b "\<lambda>st. st\<lparr>st_is_interactive := 1\<rparr>"] 3(3) assms(2) by auto
  with 1(1) 2(1) 3(1) scanner_ok_current [OF 2(2)] show ?thesis by (simp add: yy_init_buffer_def)
qed

section \<open>Creating a buffer\<close>

lemma heap_ok_oldD: "heap_ok h \<Longrightarrow> h a = Some (Buffer s) \<Longrightarrow> buffer_ok h s"
  unfolding heap_ok_def by blast

lemma heap_ok_inj:
  "heap_ok h \<Longrightarrow> h a = Some (Buffer s) \<Longrightarrow> h a' = Some (Buffer s') \<Longrightarrow> st_ch_buf s = st_ch_buf s' \<Longrightarrow> a = a'"
  unfolding heap_ok_def by blast

lemma heap_okI:
  assumes "\<And>a s. h a = Some (Buffer s) \<Longrightarrow> buffer_ok h s"
    "\<And>a s a' s'. h a = Some (Buffer s) \<Longrightarrow> h a' = Some (Buffer s') \<Longrightarrow> st_ch_buf s = st_ch_buf s' \<Longrightarrow> a = a'"
  shows "heap_ok h"
  using assms unfolding heap_ok_def by blast

lemma heap_ok_new:
  assumes "heap_ok h" "h b = None" "h c = None" "b \<noteq> c" "st_ch_buf st = At c 0" "st_buf_pos st = At c i" "i < length cs" "2 \<le> length cs"
  shows "heap_ok (h(b \<mapsto> Buffer st, c \<mapsto> Chars cs))"
proof (rule heap_okI)
  let ?h = "h(b \<mapsto> Buffer st, c \<mapsto> Chars cs)"
  have look: "(a = b \<and> s = st) \<or> (a \<noteq> b \<and> h a = Some (Buffer s))" if "?h a = Some (Buffer s)" for a s
    using that by (cases "a = c"; cases "a = b") simp_all
  have old: "st_ch_buf s \<noteq> At c 0" if "h a = Some (Buffer s)" for a s
    using heap_ok_buffer [OF assms(1) that] assms(3) by (metis option.discI ptr.inject)
  fix a s assume 1: "?h a = Some (Buffer s)"
  show "buffer_ok ?h s"
    using look [OF 1]
  proof (elim disjE conjE)
    assume "s = st"
    then show ?thesis using assms(4-8) by (simp add: buffer_ok_def)
  next
    assume "h a = Some (Buffer s)"
    with assms(1) have "buffer_ok h s" by (rule heap_ok_oldD)
    then show ?thesis by (rule buffer_ok_cong) (use assms(2,3) in auto)
  qed
  fix a' s' assume 2: "?h a' = Some (Buffer s')" and e: "st_ch_buf s = st_ch_buf s'"
  show "a = a'"
    using look [OF 1] look [OF 2] old [of a s] old [of a' s'] heap_ok_inj [OF assms(1), of a s a' s'] e assms(5) by metis
qed

lemma scanner_ok_extend:
  assumes "scanner_ok g bs cur" "\<And>a. heap g a \<noteq> None \<Longrightarrow> h a = heap g a" "heap_ok h" "\<And>a. n \<le> a \<Longrightarrow> h a = None"
  shows "scanner_ok (g\<lparr>allocs := n, heap := h\<rparr>) bs cur"
proof -
  have keep: "h a = Some x" if "heap g a = Some x" for a x using assms(2) [of a] that by simp
  have "holds_stack (g\<lparr>allocs := n, heap := h\<rparr>) bs cur"
    by (rule holds_stack_same [of g]) (use assms(1) keep in \<open>auto simp: scanner_ok_def\<close>)
  moreover have "position_ok (g\<lparr>allocs := n, heap := h\<rparr>) b" if "position_ok g b" for b
    using that keep unfolding position_ok_def by fastforce
  moreover have "is_buffer (g\<lparr>allocs := n, heap := h\<rparr>) b" if "is_buffer g b" for b
    using that keep by (auto simp: is_buffer_def)
  moreover have "memory_ok (g\<lparr>allocs := n, heap := h\<rparr>)"
    using assms(1,3,4) keep by (auto simp: memory_ok_def scanner_ok_def)
  ultimately show ?thesis using assms(1) by (simp add: scanner_ok_def)
qed

text \<open>What \<open>malloc\<close> returns has the length that was asked for.\<close>

definition allocator_ok :: "allocator \<Rightarrow> bool" where
  "allocator_ok al \<longleftrightarrow> (\<forall>k n. length (content al k n) = n)"

definition new_buffer :: "allocator \<Rightarrow> nat \<Rightarrow> nat option \<Rightarrow> nat \<Rightarrow> yy_buffer_state" where
  "new_buffer al k file n =
     initialised file (k + 1) False ((fresh_state al k)\<lparr>st_buf_size := n, st_ch_buf := At (k + 1) 0, st_is_our_buffer := 1\<rparr>)"

lemma create_eval:
  assumes "scanner_ok g bs cur" "allocator_ok al" "grants al (allocs g)" "grants al (allocs g + 1)" "k = allocs g"
  shows "yy_create_buffer al file n g = Some (Continue (k, g\<lparr>allocs := k + 2, heap := (heap g)(k \<mapsto> Buffer (new_buffer al k file n),
    k + 1 \<mapsto> Chars ((content al (k + 1) (n + 2))[0 := 0, 1 := 0]))\<rparr>))"
proof -
  let ?st = "(fresh_state al k)\<lparr>st_buf_size := n, st_ch_buf := At (k + 1) 0, st_is_our_buffer := 1\<rparr>"
  let ?g = "g\<lparr>allocs := k + 2, heap := (heap g)(k + 1 \<mapsto> Chars (content al (k + 1) (n + 2)), k \<mapsto> Buffer ?st)\<rparr>"
  have f: "heap g k = None" "heap g (k + 1) = None" using assms(1,5) by (simp_all add: scanner_ok_def memory_ok_def)
  have n: "yy_buffer_stack g \<noteq> Some k" "yy_buffer_stack g \<noteq> Some (k + 1)"
    using assms(1) f by (auto simp: scanner_ok_def holds_stack_def)
  have c: "YY_CURRENT_BUFFER ?g = Some cur"
    using n scanner_ok_current [OF assms(1)] by (subst current_cong [of _ g]) auto
  have "cur \<noteq> Some k" using assms(1) f(1) by (auto simp: scanner_ok_def position_ok_def)
  from init_eval [of ?g k ?st "k + 1", OF _ _ _ _ c this] n assms(2)
  have "yy_init_buffer k file ?g = Some (?g\<lparr>heap := (heap ?g)(k + 1 \<mapsto> Chars ((content al (k + 1) (n + 2))[0 := 0, 1 := 0]),
      k \<mapsto> Buffer (new_buffer al k file n))\<rparr>)"
    by (simp add: allocator_ok_def new_buffer_def)
  then show ?thesis
    using assms(3-5) by (simp add: yy_create_buffer_def yyalloc_def Let_def fun_upd_twist [of "allocs g" "Suc (allocs g)"])
qed

lemma create_fails:
  assumes "\<not> (grants al (allocs g) \<and> grants al (allocs g + 1))"
  shows "\<exists>msg. yy_create_buffer al file n g = Some (Exit 2 msg)"
  using assms by (auto simp: yy_create_buffer_def yyalloc_def Let_def)

lemma create_ok:
  assumes "scanner_ok g bs cur" "allocator_ok al"
  shows "safely al (yy_create_buffer al file n g) (\<lambda>(b, g'). scanner_ok g' bs cur \<and> b \<notin> buffers g \<and>
    buffers g' = insert b (buffers g) \<and> yy_buffer_stack g' = yy_buffer_stack g)"
proof (cases "grants al (allocs g) \<and> grants al (allocs g + 1)")
  case False
  from create_fails [OF this, of "file" n] False show ?thesis by (auto simp: safely_def)
next
  case True
  let ?k = "allocs g"
  let ?h = "(heap g)(?k \<mapsto> Buffer (new_buffer al ?k file n), ?k + 1 \<mapsto> Chars ((content al (?k + 1) (n + 2))[0 := 0, 1 := 0]))"
  have f: "heap g ?k = None" "heap g (?k + 1) = None" "heap_ok (heap g)" using assms(1) by (simp_all add: scanner_ok_def memory_ok_def)
  have "heap_ok ?h"
    by (rule heap_ok_new [OF f(3,1,2), of _ 0]) (use assms(2) in \<open>simp_all add: new_buffer_def initialised_def allocator_ok_def Let_def\<close>)
  moreover have "?h a = heap g a" if "heap g a \<noteq> None" for a using that f by auto
  moreover have "?h a = None" if "?k + 2 \<le> a" for a using that assms(1) by (simp add: scanner_ok_def memory_ok_def)
  ultimately have "scanner_ok (g\<lparr>allocs := ?k + 2, heap := ?h\<rparr>) bs cur" using assms(1) by (intro scanner_ok_extend) simp_all
  moreover have "buffers (g\<lparr>allocs := ?k + 2, heap := ?h\<rparr>) = insert ?k (buffers g)" "?k \<notin> buffers g"
    using f by (auto simp: buffers_def is_buffer_def)
  ultimately show ?thesis using create_eval [OF assms, of ?k "file" n] True by simp
qed

section \<open>Changing the current buffer\<close>

lemma linked_set:
  assumes "stack_cell g bs x a n" "memory_ok g" "distinct bs" "\<forall>b \<in> set bs. is_buffer g b" "\<forall>b. y = Some b \<longrightarrow> b \<notin> set bs \<and> is_buffer g b"
  shows "\<exists>g'. set_current y g = Some g' \<and> linked g' bs y \<and> buffers g' = buffers g \<and> stack_cell g' bs y a n \<and>
    (\<forall>b. b \<noteq> a \<longrightarrow> heap g' b = heap g b) \<and> allocs g' = allocs g \<and> self g' = self g \<and>
    (\<forall>d \<in> buffers g. keeps_buffer d g g')"
proof -
  let ?g = "g\<lparr>heap := (heap g)(a \<mapsto> Stack (map Some bs @ y # replicate n None))\<rparr>"
  have a: "heap g a = Some (Stack (map Some bs @ x # replicate n None))" using assms(1) by (simp add: stack_cell_def)
  have b: "is_buffer ?g b = is_buffer g b" for b using a by (auto simp: is_buffer_def)
  have "heap_ok (heap g)" using assms(2) by (simp add: memory_ok_def)
  then have "heap_ok (heap ?g)" using a by (simp add: heap_ok_neutral)
  moreover have "self g \<noteq> a" using assms(2) a by (auto simp: memory_ok_def)
  ultimately have "memory_ok ?g" using assms(2) a by (auto simp: memory_ok_def)
  moreover have c: "stack_cell ?g bs y a n" using assms(1) by (simp add: stack_cell_def)
  then have "holds_stack ?g bs y" by (rule holds_stack_cell)
  moreover have "b \<notin> set bs \<and> is_buffer ?g b" if "y = Some b" for b using assms(5) that b by blast
  ultimately have "linked ?g bs y" using assms(3,4) b unfolding linked_def by blast
  moreover have "buffers ?g = buffers g" by (rule set_eqI) (simp only: buffers_def mem_Collect_eq b)
  moreover have "keeps_buffer d g ?g" if "d \<in> buffers g" for d
  proof -
    from that obtain st where st: "heap g d = Some (Buffer st)" by (auto simp: buffers_def is_buffer_def)
    have "heap_ok (heap g)" using assms(2) by (simp add: memory_ok_def)
    then obtain c cs where "st_ch_buf st = At c 0" "heap g c = Some (Chars cs)" using st by (metis heap_ok_buffer)
    with st a show ?thesis by (auto simp: keeps_buffer_def)
  qed
  ultimately show ?thesis using set_current_eval [OF assms(1)] c by simp
qed

lemma stack_cell_keep:
  "stack_cell g bs cur a n \<Longrightarrow> (\<And>a xs. heap g a = Some (Stack xs) \<Longrightarrow> heap g' a = Some (Stack xs)) \<Longrightarrow>
   yy_buffer_stack g' = yy_buffer_stack g \<Longrightarrow> yy_buffer_stack_top g' = yy_buffer_stack_top g \<Longrightarrow>
   yy_buffer_stack_max g' = yy_buffer_stack_max g \<Longrightarrow> stack_cell g' bs cur a n"
  by (simp add: stack_cell_def)

text \<open>A buffer is freed, and its block with it when the scanner owns it.\<close>

lemma heap_ok_free:
  assumes "heap_ok h" "h b = Some (Buffer st)" "st_ch_buf st = At c 0" "h' b = None" "\<And>a. a \<noteq> b \<Longrightarrow> a \<noteq> c \<Longrightarrow> h' a = h a"
    "h' c = None \<or> h' c = h c"
  shows "heap_ok h'"
proof (rule heap_okI)
  obtain cs where c: "h c = Some (Chars cs)" using heap_ok_buffer [OF assms(1,2)] assms(3) by (metis ptr.inject)
  have look: "a \<noteq> b \<and> a \<noteq> c \<and> h a = Some (Buffer s)" if "h' a = Some (Buffer s)" for a s
    using that assms(4,6) assms(5) [of a] c by (cases "a = b"; cases "a = c") auto
  fix a s assume 1: "h' a = Some (Buffer s)"
  have a: "a \<noteq> b" "h a = Some (Buffer s)" using look [OF 1] by simp_all
  then obtain d ds i where d: "st_ch_buf s = At d 0" "h d = Some (Chars ds)" "2 \<le> length ds" "st_buf_pos s = At d i" "i < length ds"
    using heap_ok_buffer [OF assms(1) a(2)] by metis
  have "d \<noteq> c" using heap_ok_inj [OF assms(1) a(2) assms(2)] a(1) d(1) assms(3) by auto
  moreover have "d \<noteq> b" using d(2) assms(2) by auto
  ultimately show "buffer_ok h' s" using d assms(5) [of d] by (auto simp: buffer_ok_def)
  fix a' s' assume "h' a' = Some (Buffer s')" "st_ch_buf s = st_ch_buf s'"
  with a(2) show "a = a'" using look heap_ok_inj [OF assms(1)] by blast
qed

definition free_buffer :: "nat \<Rightarrow> 'x flex_scanner \<Rightarrow> 'x flex_scanner option" where
  "free_buffer b g = do {
     st \<leftarrow> buffer_at g b;
     g \<leftarrow> (if st_is_our_buffer st \<noteq> 0 then yyfree (st_ch_buf st) g else Some g);
     yyfree_object b g
   }"

lemma free_buffer_eval:
  assumes "heap g b = Some (Buffer st)" "st_ch_buf st = At c 0" "heap g c = Some (Chars cs)"
  shows "free_buffer b g = Some (g\<lparr>heap := (if st_is_our_buffer st \<noteq> 0 then (heap g)(c := None, b := None) else (heap g)(b := None))\<rparr>)"
proof -
  have "c \<noteq> b" using assms(1,3) by auto
  then show ?thesis using assms by (simp add: free_buffer_def)
qed

lemma free_ok:
  assumes "scanner_ok g bs cur" "b \<in> buffers g" "b \<notin> set bs" "cur \<noteq> Some b"
  shows "\<exists>g'. free_buffer b g = Some g' \<and> scanner_ok g' bs cur \<and> buffers g' = buffers g - {b} \<and>
    (\<forall>a xs. heap g a = Some (Stack xs) \<longrightarrow> heap g' a = Some (Stack xs)) \<and> yy_buffer_stack g' = yy_buffer_stack g \<and>
    yy_buffer_stack_top g' = yy_buffer_stack_top g \<and> yy_buffer_stack_max g' = yy_buffer_stack_max g \<and>
    (\<forall>d \<in> buffers g - {b}. keeps_buffer d g g')"
proof -
  have "is_buffer g b" using assms(2) by (simp add: buffers_def)
  then obtain st c cs i where st: "heap g b = Some (Buffer st)" "st_ch_buf st = At c 0" "heap g c = Some (Chars cs)" "c \<noteq> b"
    using linked_buffer [OF scanner_ok_linked [OF assms(1)]] by metis
  let ?h = "if st_is_our_buffer st \<noteq> 0 then (heap g)(c := None, b := None) else (heap g)(b := None)"
  let ?g = "g\<lparr>heap := ?h\<rparr>"
  have h: "heap_ok (heap g)" using assms(1) by (simp add: scanner_ok_def memory_ok_def)
  have "heap_ok ?h" by (rule heap_ok_free [OF h st(1,2)]) auto
  moreover have other: "?h a = heap g a" if "a \<noteq> b" "a \<noteq> c" for a using that by simp
  moreover have "self g \<noteq> b" "self g \<noteq> c" using assms(1) st by (auto simp: scanner_ok_def memory_ok_def)
  ultimately have m: "memory_ok ?g" using assms(1) by (simp add: scanner_ok_def memory_ok_def)
  have stack: "?h a = Some (Stack xs)" if "heap g a = Some (Stack xs)" for a xs
  proof -
    have "a \<noteq> b" "a \<noteq> c" using that st(1,3) by auto
    with other that show ?thesis by simp
  qed
  have s: "holds_stack ?g bs cur" by (rule holds_stack_same [of g]) (use assms(1) stack in \<open>simp_all add: scanner_ok_def\<close>)
  have iff: "is_buffer ?g a \<longleftrightarrow> is_buffer g a \<and> a \<noteq> b" for a
    using other [of a] st by (cases "a = b"; cases "a = c") (auto simp: is_buffer_def)
  have p: "position_ok ?g d" if "position_ok g d" "d \<noteq> b" for d
  proof -
    from that(1) obtain s e j es where d: "heap g d = Some (Buffer s)" "st_ch_buf s = At e 0" "heap g e = Some (Chars es)"
      "c_buf_p_r g = At e j" "j < length es" unfolding position_ok_def by blast
    have "e \<noteq> c" using heap_ok_inj [OF h d(1) st(1)] that(2) d(2) st(2) by auto
    moreover have "e \<noteq> b" "d \<noteq> c" using d(1,3) st(1,3) by auto
    ultimately show ?thesis using d other [of d] other [of e] that(2) by (simp add: position_ok_def)
  qed
  have "is_buffer ?g a" if "a \<in> set bs" for a using that iff assms(1,3) by (auto simp: scanner_ok_def)
  moreover have "d \<notin> set bs \<and> position_ok ?g d" if "cur = Some d" for d
    using that assms(1,4) p [of d] unfolding scanner_ok_def by blast
  moreover have "distinct bs" using assms(1) by (simp add: scanner_ok_def)
  ultimately have "scanner_ok ?g bs cur" using s m unfolding scanner_ok_def by blast
  moreover have "buffers ?g = buffers g - {b}" by (rule set_eqI) (simp add: buffers_def iff)
  moreover have "keeps_buffer d g ?g" if d: "d \<in> buffers g - {b}" for d
  proof -
    from d obtain s where s: "heap g d = Some (Buffer s)" "d \<noteq> b" by (auto simp: buffers_def is_buffer_def)
    then obtain e es where e: "st_ch_buf s = At e 0" "heap g e = Some (Chars es)" using heap_ok_buffer [OF h s(1)] by metis
    have "e \<noteq> c" using heap_ok_inj [OF h s(1) st(1)] s(2) e(1) st(2) by auto
    moreover have "e \<noteq> b" "d \<noteq> c" using e(2) s(1) st(1,3) by auto
    ultimately show ?thesis using s e other [of d] other [of e] by (simp add: keeps_buffer_def)
  qed
  ultimately show ?thesis using free_buffer_eval [OF st(1-3)] stack by auto
qed

lemma delete_eq:
  "yy_delete_buffer (Some b) g = do {
     cur \<leftarrow> YY_CURRENT_BUFFER g;
     g \<leftarrow> (if cur = Some b then set_current None g else Some g);
     free_buffer b g
   }"
  by (simp add: yy_delete_buffer_def free_buffer_def)

lemma delete_ok:
  assumes "scanner_ok g bs cur" "b \<in> buffers g" "b \<notin> set bs"
  shows "\<exists>g'. yy_delete_buffer (Some b) g = Some g' \<and> scanner_ok g' bs (if cur = Some b then None else cur) \<and>
    buffers g' = buffers g - {b} \<and> (yy_buffer_stack g' = None \<longleftrightarrow> yy_buffer_stack g = None) \<and>
    (\<forall>d \<in> buffers g - {b}. keeps_buffer d g g')"
proof (cases "cur = Some b")
  case False
  with free_ok [OF assms(1-3) False] scanner_ok_current [OF assms(1)] show ?thesis by (auto simp: delete_eq)
next
  case True
  then obtain a n where c: "stack_cell g bs cur a n" using assms(1) current_needs_stack stack_cellE by metis
  have "memory_ok g" "distinct bs" "\<forall>b \<in> set bs. is_buffer g b" using assms(1) by (simp_all add: scanner_ok_def)
  from linked_set [OF c this, of None] obtain g1 where g1: "set_current None g = Some g1" "linked g1 bs None" "buffers g1 = buffers g"
    "stack_cell g1 bs None a n" "\<forall>d \<in> buffers g. keeps_buffer d g g1" by auto
  have "scanner_ok g1 bs None" using g1(2) by (rule linked_empty)
  from free_ok [OF this _ assms(3)] g1 assms(2) obtain g2 where "free_buffer b g1 = Some g2" "scanner_ok g2 bs None"
    "buffers g2 = buffers g - {b}" "yy_buffer_stack g2 = yy_buffer_stack g1" "\<forall>d \<in> buffers g1 - {b}. keeps_buffer d g1 g2" by auto
  moreover from this(5) g1(3,5) have "\<forall>d \<in> buffers g - {b}. keeps_buffer d g g2" by (auto intro: keeps_buffer_trans)
  ultimately show ?thesis using True g1 c scanner_ok_current [OF assms(1)] by (simp add: delete_eq stack_cell_def)
qed

lemma push_ok:
  assumes "scanner_ok g bs cur" "b \<in> buffers g" "b \<notin> set bs" "cur \<noteq> Some b"
  shows "safely al (yypush_buffer_state al (Some b) g) (\<lambda>g'. scanner_ok g' (case cur of None \<Rightarrow> bs | Some c \<Rightarrow> bs @ [c]) (Some b) \<and>
    buffers g' = buffers g \<and> (\<forall>d. cur = Some d \<longrightarrow> written_back g d g'))"
  unfolding yypush_buffer_state_def option.case
proof (rule safely_and_then [OF ensure_ok [OF assms(1)]], elim conjE exE)
  fix g1 a n assume 1: "scanner_ok g1 bs cur" "same_buffers g g1" "stack_cell g1 bs cur a n" "cur = None \<or> 0 < n"
  obtain g2 where 2: "flush_out g1 = Some g2" "linked g2 bs cur" "buffers g2 = buffers g1"
    "\<forall>a xs. heap g1 a = Some (Stack xs) \<longrightarrow> heap g2 a = Some (Stack xs)" "yy_buffer_stack g2 = yy_buffer_stack g1"
    "yy_buffer_stack_top g2 = yy_buffer_stack_top g1" "yy_buffer_stack_max g2 = yy_buffer_stack_max g1"
    "\<forall>d. cur = Some d \<longrightarrow> written_back g1 d g2"
    using flush_out_ok [OF 1(1)] by blast
  have c2: "stack_cell g2 bs cur a n" by (rule stack_cell_keep [OF 1(3)]) (use 2 in simp_all)
  have b: "is_buffer g2 b" using same_buffers_keep(1) [OF 1(2)] assms(2) 2(3) by (auto simp: buffers_def)
  let ?bs = "case cur of None \<Rightarrow> bs | Some c \<Rightarrow> bs @ [c]" and ?n = "case cur of None \<Rightarrow> n | Some c \<Rightarrow> n - 1"
  let ?g3 = "if cur \<noteq> None then g2\<lparr>yy_buffer_stack_top := yy_buffer_stack_top g2 + 1\<rparr> else g2"
  have h3: "heap ?g3 = heap g2" "self ?g3 = self g2" "allocs ?g3 = allocs g2" "yy_start_stack ?g3 = yy_start_stack g2" by simp_all
  have c3: "stack_cell ?g3 ?bs None a ?n"
    using c2 1(4) by (auto simp: stack_cell_def simp flip: replicate_Suc split: option.splits)
  have m3: "memory_ok ?g3" using 2(2) by (simp add: linked_def memory_ok_def)
  have d3: "distinct ?bs" "\<forall>b \<in> set ?bs. is_buffer ?g3 b" "b \<notin> set ?bs" "is_buffer ?g3 b"
    using 2(2) b assms(3,4) by (auto simp: linked_def is_buffer_def split: option.splits)
  then have n3: "\<forall>d. Some b = Some d \<longrightarrow> d \<notin> set ?bs \<and> is_buffer ?g3 d" by blast
  from linked_set [OF c3 m3 d3(1,2) n3] obtain g4 where 4: "set_current (Some b) ?g3 = Some g4" "linked g4 ?bs (Some b)"
    "buffers g4 = buffers ?g3" "\<forall>d \<in> buffers ?g3. keeps_buffer d ?g3 g4" by blast
  obtain g5 where 5: "yy_load_buffer_state_of g4 = Some g5" "scanner_ok g5 ?bs (Some b)" "heap g5 = heap g4"
    using load_ok [OF 4(2)] by blast
  have "buffers g5 = buffers g4" "buffers ?g3 = buffers g2" using 5(3) by (simp_all add: buffers_def is_buffer_def)
  moreover have "buffers g1 = buffers g" using 1(2) by (simp add: buffers_def is_buffer_def same_buffers_def)
  ultimately have "buffers g5 = buffers g" using 2(3) 4(3) by simp
  moreover have "written_back g d (g5\<lparr>yy_did_buffer_switch_on_eof := 1\<rparr>)" if d: "cur = Some d" for d
  proof -
    have "is_buffer g d" "heap_ok (heap g)" using assms(1) d by (simp_all add: scanner_ok_def memory_ok_def position_is_buffer)
    with 2(8) d 1(2) have w: "written_back g d g2" by (auto intro: written_back_same)
    then have "d \<in> buffers ?g3" by (auto simp: written_back_def buffers_def is_buffer_def)
    with 4(4) have "keeps_buffer d ?g3 g4" by blast
    then have "keeps_buffer d g2 (g5\<lparr>yy_did_buffer_switch_on_eof := 1\<rparr>)" using 5(3) by (simp add: keeps_buffer_def)
    with w show ?thesis by (rule written_back_keeps)
  qed
  moreover have "scanner_ok (g5\<lparr>yy_did_buffer_switch_on_eof := 1\<rparr>) ?bs (Some b)"
    using 5(2) by (simp add: scanner_ok_def holds_stack_def memory_ok_def position_ok_def is_buffer_def split: option.splits)
  ultimately show "safely al (do {
       g \<leftarrow> flush_out g1;
       cur \<leftarrow> YY_CURRENT_BUFFER g;
       let g = (if cur \<noteq> None then g\<lparr>yy_buffer_stack_top := yy_buffer_stack_top g + 1\<rparr> else g);
       g \<leftarrow> set_current (Some b) g;
       g \<leftarrow> yy_load_buffer_state_of g;
       Some (Continue (g\<lparr>yy_did_buffer_switch_on_eof := 1\<rparr>))
     }) (\<lambda>g'. scanner_ok g' ?bs (Some b) \<and> buffers g' = buffers g \<and> (\<forall>d. cur = Some d \<longrightarrow> written_back g d g'))"
    using 2(1) 4(1) 5(1) linked_current [OF 2(2)] by (simp add: Let_def buffers_def is_buffer_def)
qed

lemma switch_on_eof [simp]:
  "scanner_ok (g\<lparr>yy_did_buffer_switch_on_eof := v\<rparr>) bs cur = scanner_ok g bs cur"
  "buffers (g\<lparr>yy_did_buffer_switch_on_eof := v\<rparr>) = buffers g"
  by (cases "yy_buffer_stack g"; simp add: scanner_ok_def holds_stack_def memory_ok_def position_ok_def is_buffer_def buffers_def)+

text \<open>Popping frees the current buffer; the one below becomes current.\<close>

lemma pop_ok:
  assumes "scanner_ok g bs (Some b)"
  shows "\<exists>g'. yypop_buffer_state g = Some g' \<and>
    scanner_ok g' (butlast bs) (if bs = [] then None else Some (last bs)) \<and> buffers g' = buffers g - {b} \<and>
    (bs \<noteq> [] \<longrightarrow> loaded_from g (last bs) g')"
proof -
  have b: "b \<in> buffers g" "b \<notin> set bs" using assms by (simp_all add: scanner_ok_def buffers_def position_is_buffer)
  obtain g1 where 1: "yy_delete_buffer (Some b) g = Some g1" "scanner_ok g1 bs None" "buffers g1 = buffers g - {b}"
    "yy_buffer_stack g1 \<noteq> None" "\<forall>d \<in> buffers g - {b}. keeps_buffer d g g1"
    using delete_ok [OF assms b] current_needs_stack [OF assms] by auto
  from 1(2,4) obtain a n where c1: "stack_cell g1 bs None a n" by (rule stack_cellE)
  have k1: "memory_ok g1" "distinct bs" "\<forall>b \<in> set bs. is_buffer g1 b" using 1(2) by (simp_all add: scanner_ok_def)
  from linked_set [OF c1 k1, of None] obtain g2 where 2: "set_current None g1 = Some g2" "linked g2 bs None" "buffers g2 = buffers g1"
    "stack_cell g2 bs None a n" "\<forall>d \<in> buffers g1. keeps_buffer d g1 g2" by auto
  have e: "yypop_buffer_state g = (let g = (if 0 < yy_buffer_stack_top g2 then g2\<lparr>yy_buffer_stack_top := yy_buffer_stack_top g2 - 1\<rparr> else g2) in do {
     cur \<leftarrow> YY_CURRENT_BUFFER g;
     if cur \<noteq> None then do {
       g \<leftarrow> yy_load_buffer_state_of g;
       Some (g\<lparr>yy_did_buffer_switch_on_eof := 1\<rparr>)
     } else Some g
   })"
    using scanner_ok_current [OF assms] 1(1) 2(1) by (simp add: yypop_buffer_state_def Let_def)
  show ?thesis
  proof (cases bs rule: rev_cases)
    case Nil
    with 2 have "yypop_buffer_state g = Some g2" "scanner_ok g2 [] None"
      using linked_current [OF 2(2)] by (simp_all add: e stack_cell_def linked_empty)
    with 1(3) 2(3) Nil show ?thesis by simp
  next
    case (snoc ds d)
    let ?g3 = "g2\<lparr>yy_buffer_stack_top := length ds\<rparr>"
    have c3: "stack_cell ?g3 ds (Some d) a (Suc n)" using 2(4) snoc by (simp add: stack_cell_def)
    have l3: "linked ?g3 ds (Some d)"
      using 2(2) snoc holds_stack_cell [OF c3] by (simp add: linked_def memory_ok_def is_buffer_def)
    from load_ok [OF this] obtain g4 where 4: "yy_load_buffer_state_of ?g3 = Some g4" "scanner_ok g4 ds (Some d)" "heap g4 = heap g2"
      "loaded_from ?g3 d g4" by auto
    have "d \<in> buffers g - {b}" using assms b snoc by (auto simp: scanner_ok_def buffers_def)
    with 1(3,5) 2(5) have "keeps_buffer d g g2" by (auto intro: keeps_buffer_trans)
    then have "keeps_buffer d g ?g3" by (simp add: keeps_buffer_def)
    from loaded_from_keeps [OF this 4(4)] have "loaded_from g d (g4\<lparr>yy_did_buffer_switch_on_eof := 1\<rparr>)"
      by (simp add: loaded_from_def)
    moreover
    have "yy_buffer_stack_top g2 = Suc (length ds)" using 2(4) snoc by (simp add: stack_cell_def)
    with 4 have "yypop_buffer_state g = Some (g4\<lparr>yy_did_buffer_switch_on_eof := 1\<rparr>)"
      using linked_current [OF l3] by (simp add: e)
    moreover have "buffers g4 = buffers g2" using 4(3) by (simp add: buffers_def is_buffer_def)
    ultimately show ?thesis using 4(2) 1(3) 2(3) snoc by simp
  qed
qed

lemma switch_ok:
  assumes "scanner_ok g bs cur" "b \<in> buffers g" "b \<notin> set bs"
  shows "safely al (yy_switch_to_buffer al (Some b) g) (\<lambda>g'. scanner_ok g' bs (Some b) \<and> buffers g' = buffers g)"
  unfolding yy_switch_to_buffer_def
proof (rule safely_and_then [OF ensure_ok [OF assms(1)]], elim conjE exE)
  fix g1 a n assume 1: "scanner_ok g1 bs cur" "same_buffers g g1" "stack_cell g1 bs cur a n"
  have bs: "buffers g1 = buffers g" using 1(2) by (simp add: buffers_def is_buffer_def same_buffers_def)
  obtain g2 where 2: "flush_out g1 = Some g2" "linked g2 bs cur" "buffers g2 = buffers g1"
    "\<forall>a xs. heap g1 a = Some (Stack xs) \<longrightarrow> heap g2 a = Some (Stack xs)" "yy_buffer_stack g2 = yy_buffer_stack g1"
    "yy_buffer_stack_top g2 = yy_buffer_stack_top g1" "yy_buffer_stack_max g2 = yy_buffer_stack_max g1"
    using flush_out_ok [OF 1(1)] by blast
  have c2: "stack_cell g2 bs cur a n" by (rule stack_cell_keep [OF 1(3)]) (use 2 in simp_all)
  have k2: "memory_ok g2" "distinct bs" "\<forall>b \<in> set bs. is_buffer g2 b" using 2(2) by (simp_all add: linked_def)
  have "\<forall>d. Some b = Some d \<longrightarrow> d \<notin> set bs \<and> is_buffer g2 d" using assms(2,3) bs 2(3) by (auto simp: buffers_def)
  from linked_set [OF c2 k2 this] obtain g3 where 3: "set_current (Some b) g2 = Some g3" "linked g3 bs (Some b)"
    "buffers g3 = buffers g2" by blast
  obtain g4 where 4: "yy_load_buffer_state_of g3 = Some g4" "scanner_ok g4 bs (Some b)" "heap g4 = heap g3"
    using load_ok [OF 3(2)] by blast
  have "buffers g4 = buffers g" using 4(3) 3(3) 2(3) bs by (simp add: buffers_def is_buffer_def)
  with 4 show "safely al (do {
     cur \<leftarrow> YY_CURRENT_BUFFER g1;
     if cur = Some b then Some (Continue g1) else do {
       g \<leftarrow> flush_out g1;
       g \<leftarrow> set_current (Some b) g;
       g \<leftarrow> yy_load_buffer_state_of g;
       Some (Continue (g\<lparr>yy_did_buffer_switch_on_eof := 1\<rparr>))
     }
   }) (\<lambda>g'. scanner_ok g' bs (Some b) \<and> buffers g' = buffers g)"
    using 1(1) 2(1) 3(1) bs scanner_ok_current [OF 1(1)] by auto
qed

text \<open>When there is no current buffer a new one is provided.\<close>

lemma provide_ok:
  assumes "scanner_ok g bs cur" "allocator_ok al"
  shows "safely al (provide_buffer al g) (\<lambda>g'. case cur of
     Some b \<Rightarrow> g' = g
   | None \<Rightarrow> \<exists>b. linked g' bs (Some b) \<and> b \<notin> buffers g \<and> buffers g' = insert b (buffers g))"
proof (cases cur)
  case (Some b)
  with scanner_ok_current [OF assms(1)] show ?thesis by (simp add: provide_buffer_def)
next
  case None
  have e: "provide_buffer al g = and_then (yyensure_buffer_stack al g) (\<lambda>g.
       and_then (yy_create_buffer al (yyin_r g) 16384 g) (\<lambda>(b, g). do {
         g \<leftarrow> set_current (Some b) g;
         Some (Continue g)
       }))"
    using scanner_ok_current [OF assms(1)] None by (simp add: provide_buffer_def)
  show ?thesis
    unfolding e
  proof (rule safely_and_then [OF ensure_ok [OF assms(1)]], elim conjE exE)
    fix g1 a n assume 1: "scanner_ok g1 bs cur" "same_buffers g g1" "stack_cell g1 bs cur a n"
    have bs: "buffers g1 = buffers g" using 1(2) by (simp add: buffers_def is_buffer_def same_buffers_def)
    show "safely al (and_then (yy_create_buffer al (yyin_r g1) 16384 g1) (\<lambda>(b, g). do {
         g \<leftarrow> set_current (Some b) g;
         Some (Continue g)
       })) (\<lambda>g'. case cur of
     Some b \<Rightarrow> g' = g
   | None \<Rightarrow> \<exists>b. linked g' bs (Some b) \<and> b \<notin> buffers g \<and> buffers g' = insert b (buffers g))"
    proof (rule safely_and_then [OF create_ok [OF 1(1) assms(2)]], clarify)
      fix b and g2 :: "'a flex_scanner" assume 2: "scanner_ok g2 bs cur" "b \<notin> buffers g1" "buffers g2 = insert b (buffers g1)"
        "yy_buffer_stack g2 = yy_buffer_stack g1"
      have "yy_buffer_stack g2 \<noteq> None" using 2(4) 1(3) by (simp add: stack_cell_def)
      with 2(1) obtain a' n' where c2: "stack_cell g2 bs cur a' n'" by (rule stack_cellE)
      have k2: "memory_ok g2" "distinct bs" "\<forall>b \<in> set bs. is_buffer g2 b" using 2(1) by (simp_all add: scanner_ok_def)
      have "b \<notin> set bs" using 1(1) 2(2) by (auto simp: scanner_ok_def buffers_def)
      then have "\<forall>d. Some b = Some d \<longrightarrow> d \<notin> set bs \<and> is_buffer g2 d" using 2(3) by (auto simp: buffers_def)
      from linked_set [OF c2 k2 this] obtain g3 where "set_current (Some b) g2 = Some g3" "linked g3 bs (Some b)"
        "buffers g3 = buffers g2" by blast
      then show "safely al (do { g \<leftarrow> set_current (Some b) g2; Some (Continue g) }) (\<lambda>g'. case cur of
         Some b \<Rightarrow> g' = g
       | None \<Rightarrow> \<exists>b. linked g' bs (Some b) \<and> b \<notin> buffers g \<and> buffers g' = insert b (buffers g))"
        using None bs 2(2,3) by auto
    qed
  qed
qed

lemma restart_ok:
  assumes "scanner_ok g bs cur" "allocator_ok al"
  shows "safely al (yyrestart_of al file g) (\<lambda>g'. case cur of
     Some b \<Rightarrow> scanner_ok g' bs (Some b) \<and> buffers g' = buffers g
   | None \<Rightarrow> \<exists>b. scanner_ok g' bs (Some b) \<and> b \<notin> buffers g \<and> buffers g' = insert b (buffers g))"
  unfolding yyrestart_of_def
proof (rule safely_and_then [OF provide_ok [OF assms]])
  fix g1 assume "case cur of Some b \<Rightarrow> g1 = g
   | None \<Rightarrow> \<exists>b. linked g1 bs (Some b) \<and> b \<notin> buffers g \<and> buffers g1 = insert b (buffers g)"
  then obtain b where 1: "linked g1 bs (Some b)" "b \<in> buffers g1"
    "case cur of Some b' \<Rightarrow> b' = b \<and> buffers g1 = buffers g | None \<Rightarrow> b \<notin> buffers g \<and> buffers g1 = insert b (buffers g)"
    using assms(1) by (cases cur) (auto simp: scanner_ok_linked buffers_def scanner_ok_def position_is_buffer)
  from init_linked [OF 1(1,2)] obtain g2 where 2: "yy_init_buffer b file g1 = Some g2" "scanner_ok g2 bs (Some b)" "buffers g2 = buffers g1"
    by auto
  from load_ok [OF scanner_ok_linked [OF 2(2)]] obtain g3 where 3: "yy_load_buffer_state_of g2 = Some g3" "scanner_ok g3 bs (Some b)"
    "heap g3 = heap g2" by blast
  have "buffers g3 = buffers g2" using 3(3) by (simp add: buffers_def is_buffer_def)
  with 1 2 3 show "safely al (do {
     b \<leftarrow> YY_CURRENT_BUFFER_LVALUE g1;
     g \<leftarrow> yy_init_buffer b file g1;
     g \<leftarrow> yy_load_buffer_state_of g;
     Some (Continue g)
   }) (\<lambda>g'. case cur of
     Some b \<Rightarrow> scanner_ok g' bs (Some b) \<and> buffers g' = buffers g
   | None \<Rightarrow> \<exists>b. scanner_ok g' bs (Some b) \<and> b \<notin> buffers g \<and> buffers g' = insert b (buffers g))"
    by (auto simp: YY_CURRENT_BUFFER_LVALUE_def split: option.splits)
qed

text \<open>Scanning bytes: their copy becomes the current buffer, in place of the old one, which stays allocated.\<close>

lemma scan_bytes_ok:
  assumes "scanner_ok g bs cur"
  shows "safely al (yy_scan_bytes al xs g) (\<lambda>(b, g'). scanner_ok g' bs (Some b) \<and> b \<notin> buffers g \<and>
    buffers g' = insert b (buffers g))"
proof (cases "grants al (allocs g) \<and> grants al (allocs g + 1)")
  case False
  have "(xs @ [0, 0]) ! length xs = 0" "(xs @ [0, 0]) ! Suc (length xs) = 0" by (simp_all add: nth_append)
  with False show ?thesis
    by (auto simp: yy_scan_bytes_def yyalloc_def Let_def yy_scan_buffer_def YY_END_OF_BUFFER_CHAR_def safely_def)
next
  case True
  let ?k = "allocs g" and ?cs = "xs @ [0, 0]"
  let ?st = "(fresh_state al (?k + 1))\<lparr>st_buf_size := length xs, st_ch_buf := At ?k 0, st_buf_pos := At ?k 0,
     st_is_our_buffer := 0, st_input_file := None, st_n_chars := length xs, st_is_interactive := 0,
     st_at_bol := 1, st_fill_buffer := 0, st_buffer_status := 0\<rparr>"
  let ?h = "(heap g)(?k + 1 \<mapsto> Buffer ?st, ?k \<mapsto> Chars ?cs)"
  let ?g = "g\<lparr>allocs := ?k + 2, heap := ?h\<rparr>"
  have f: "heap g (?k + 1) = None" "heap g ?k = None" "heap_ok (heap g)" using assms by (simp_all add: scanner_ok_def memory_ok_def)
  have "heap_ok ?h" by (rule heap_ok_new [OF f(3,1,2), of _ 0]) simp_all
  moreover have "?h a = heap g a" if "heap g a \<noteq> None" for a using that f by auto
  moreover have "?h a = None" if "?k + 2 \<le> a" for a using that assms by (simp add: scanner_ok_def memory_ok_def)
  ultimately have ok: "scanner_ok ?g bs cur" using assms by (intro scanner_ok_extend) simp_all
  have b: "buffers ?g = insert (?k + 1) (buffers g)" "?k + 1 \<notin> buffers g" using f by (auto simp: buffers_def is_buffer_def)
  have n: "?k + 1 \<notin> set bs" using assms b(2) by (auto simp: scanner_ok_def buffers_def)
  have e: "yy_scan_bytes al xs g = and_then (and_then (yy_switch_to_buffer al (Some (?k + 1)) ?g) (\<lambda>g. Some (Continue (Some (?k + 1), g))))
      (\<lambda>(b, g). case b of None \<Rightarrow> Some (Exit 2 ''bad buffer in yy_scan_bytes()'')
       | Some b \<Rightarrow> do { g \<leftarrow> upd_buffer b (\<lambda>st. st\<lparr>st_is_our_buffer := 1\<rparr>) g; Some (Continue (b, g)) })"
    using True by (simp add: yy_scan_bytes_def yyalloc_def Let_def yy_scan_buffer_def YY_END_OF_BUFFER_CHAR_def nth_append
        fun_upd_twist [of "allocs g" "Suc (allocs g)"])
  have s: "safely al (and_then (yy_switch_to_buffer al (Some (?k + 1)) ?g) (\<lambda>g. Some (Continue (Some (?k + 1), g))))
     (\<lambda>(b, g'). b = Some (?k + 1) \<and> scanner_ok g' bs b \<and> buffers g' = insert (?k + 1) (buffers g))"
    by (rule safely_and_then [OF switch_ok [OF ok _ n]]) (use b in simp_all)
  show ?thesis
    unfolding e
  proof (rule safely_and_then [OF s], clarify)
    fix g' assume 1: "scanner_ok g' bs (Some (?k + 1))" "buffers g' = insert (?k + 1) (buffers g)"
    from upd_ok [OF 1(1), of "?k + 1" "\<lambda>st. st\<lparr>st_is_our_buffer := 1\<rparr>"] 1(2) b(2) show "safely al (case Some (?k + 1) of None \<Rightarrow> Some (Exit 2 ''bad buffer in yy_scan_bytes()'')
       | Some b \<Rightarrow> do { g \<leftarrow> upd_buffer b (\<lambda>st. st\<lparr>st_is_our_buffer := 1\<rparr>) g'; Some (Continue (b, g)) })
       (\<lambda>(b, g'). scanner_ok g' bs (Some b) \<and> b \<notin> buffers g \<and> buffers g' = insert b (buffers g))"
      by auto
  qed
qed

end
