(* ===== verification/Flex_Calls.thy ===== *)
theory Flex_Calls
  imports Flex_Facts
begin

text \<open>
  The scanner's buffers under any sequence of calls, and the life of a scanner from \<open>yylex_init\<close> to
  \<open>yylex_destroy\<close>: the calls follow an abstract stack, a pushed buffer does not disturb the one below, and
  what \<open>yylex_destroy\<close> frees. The buffer on which \<open>Gdb_Scanner\<close> runs \<open>yylex\<close> is the one made here.
\<close>

section \<open>Calls\<close>

datatype call = Create_buffer "nat option" nat | Push nat | Switch nat | Pop | Delete nat | Flush nat
  | Restart "nat option" | Scan_bytes "u8 list"

fun run_call :: "allocator \<Rightarrow> call \<Rightarrow> 'x flex_scanner \<Rightarrow> 'x flex_scanner or_exit option" where
  "run_call al (Create_buffer f n) g = and_then (yy_create_buffer al f n g) (\<lambda>(b, g). Some (Continue g))"
| "run_call al (Push b) g = yypush_buffer_state al (Some b) g"
| "run_call al (Switch b) g = yy_switch_to_buffer al (Some b) g"
| "run_call al Pop g = map_option Continue (yypop_buffer_state g)"
| "run_call al (Delete b) g = map_option Continue (yy_delete_buffer (Some b) g)"
| "run_call al (Flush b) g = map_option Continue (yy_flush_buffer_of (Some b) g)"
| "run_call al (Restart f) g = yyrestart_of al f g"
| "run_call al (Scan_bytes xs) g = and_then (yy_scan_bytes al xs g) (\<lambda>(b, g). Some (Continue g))"

text \<open>The buffers below the top of the stack, and the current one.\<close>

definition below :: "'x flex_scanner \<Rightarrow> nat list" where
  "below g = (case yy_buffer_stack g of None \<Rightarrow> [] | Some a \<Rightarrow>
     (case stack_array g a of None \<Rightarrow> [] | Some xs \<Rightarrow> map the (take (yy_buffer_stack_top g) xs)))"

definition current :: "'x flex_scanner \<Rightarrow> nat option" where
  "current g = (case YY_CURRENT_BUFFER g of None \<Rightarrow> None | Some cur \<Rightarrow> cur)"

text \<open>
  A call may name any buffer that exists; it must not push or switch to a buffer that is in the stack
  already, nor delete one below the top.
\<close>

fun permitted :: "call \<Rightarrow> 'x flex_scanner \<Rightarrow> bool" where
  "permitted (Push b) g \<longleftrightarrow> b \<in> buffers g \<and> b \<notin> set (below g) \<and> current g \<noteq> Some b"
| "permitted (Switch b) g \<longleftrightarrow> b \<in> buffers g \<and> b \<notin> set (below g)"
| "permitted (Delete b) g \<longleftrightarrow> b \<in> buffers g \<and> b \<notin> set (below g)"
| "permitted (Flush b) g \<longleftrightarrow> b \<in> buffers g"
| "permitted _ g \<longleftrightarrow> True"

text \<open>The abstract stack: the buffers below, the current one, and all buffers that exist.\<close>

type_synonym stack_state = "nat list \<times> nat option \<times> nat set"

fun effect :: "call \<Rightarrow> stack_state \<Rightarrow> stack_state \<Rightarrow> bool" where
  "effect (Create_buffer f n) (bs, cur, B) s \<longleftrightarrow> (\<exists>b. b \<notin> B \<and> s = (bs, cur, insert b B))"
| "effect (Push b) (bs, cur, B) s \<longleftrightarrow> s = (case cur of None \<Rightarrow> bs | Some c \<Rightarrow> bs @ [c], Some b, B)"
| "effect (Switch b) (bs, cur, B) s \<longleftrightarrow> s = (bs, Some b, B)"
| "effect Pop (bs, cur, B) s \<longleftrightarrow> s = (case cur of None \<Rightarrow> (bs, None, B)
     | Some c \<Rightarrow> (butlast bs, if bs = [] then None else Some (last bs), B - {c}))"
| "effect (Delete b) (bs, cur, B) s \<longleftrightarrow> s = (bs, if cur = Some b then None else cur, B - {b})"
| "effect (Flush b) (bs, cur, B) s \<longleftrightarrow> s = (bs, cur, B)"
| "effect (Restart f) (bs, cur, B) s \<longleftrightarrow> (case cur of Some c \<Rightarrow> s = (bs, cur, B)
     | None \<Rightarrow> \<exists>b. b \<notin> B \<and> s = (bs, Some b, insert b B))"
| "effect (Scan_bytes xs) (bs, cur, B) s \<longleftrightarrow> (\<exists>b. b \<notin> B \<and> s = (bs, Some b, insert b B))"

definition stack_state :: "'x flex_scanner \<Rightarrow> stack_state" where
  "stack_state g = (below g, current g, buffers g)"

lemma scanner_ok_state:
  assumes "scanner_ok g bs cur"
  shows "below g = bs" "current g = cur" "stack_state g = (bs, cur, buffers g)"
proof -
  show c: "current g = cur" using assms by (simp add: current_def)
  show b: "below g = bs"
    using assms by (auto simp: scanner_ok_def holds_stack_def below_def split: option.splits)
  show "stack_state g = (bs, cur, buffers g)" by (simp add: stack_state_def b c)
qed

lemma scanner_ok_bufs: "scanner_ok g bs (Some b) \<Longrightarrow> b \<in> buffers g \<and> b \<notin> set bs"
  by (simp add: scanner_ok_def buffers_def position_is_buffer)

lemma safely_option: "\<exists>x. m = Some x \<and> P x \<Longrightarrow> safely al (map_option Continue m) P"
  by auto

lemma call_ok:
  assumes "scanner_ok g bs cur" "allocator_ok al" "permitted c g"
  shows "safely al (run_call al c g) (\<lambda>g'. effect c (stack_state g) (stack_state g') \<and> (\<exists>bs cur. scanner_ok g' bs cur))"
proof -
  note st = scanner_ok_state [OF assms(1)]
  have *: "scanner_ok g' bs' cur' \<Longrightarrow> effect c (bs, cur, buffers g) (bs', cur', buffers g') \<Longrightarrow>
      effect c (stack_state g) (stack_state g') \<and> (\<exists>bs cur. scanner_ok g' bs cur)" for bs' cur' and g' :: "'a flex_scanner"
    using scanner_ok_state(3) [of g' bs' cur'] st(3) by metis
  show ?thesis
  proof (cases c)
    case (Create_buffer f n)
    have "safely al (and_then (yy_create_buffer al f n g) (\<lambda>(b, g). Some (Continue g)))
        (\<lambda>g'. scanner_ok g' bs cur \<and> (\<exists>b. b \<notin> buffers g \<and> buffers g' = insert b (buffers g)))"
      by (rule safely_and_then [OF create_ok [OF assms(1,2)]]) auto
    then show ?thesis unfolding Create_buffer run_call.simps by (rule safely_mono) (elim conjE, erule * [unfolded Create_buffer], auto)
  next
    case (Push b)
    with assms(3) have "b \<in> buffers g" "b \<notin> set bs" "cur \<noteq> Some b" by (simp_all add: st)
    from push_ok [OF assms(1) this, of al] show ?thesis
      unfolding Push run_call.simps by (rule safely_mono) (elim conjE, erule * [unfolded Push], simp)
  next
    case (Switch b)
    with assms(3) have "b \<in> buffers g" "b \<notin> set bs" by (simp_all add: st)
    from switch_ok [OF assms(1) this, of al] show ?thesis
      unfolding Switch run_call.simps by (rule safely_mono) (elim conjE, erule * [unfolded Switch], simp)
  next
    case Pop
    show ?thesis
    proof (cases cur)
      case None
      with scanner_ok_current [OF assms(1)] have "yypop_buffer_state g = Some g" by (simp add: yypop_buffer_state_def)
      with None assms(1) st(3) show ?thesis by (auto simp: Pop)
    next
      case (Some b)
      from pop_ok [OF assms(1) [unfolded Some]] show ?thesis
        unfolding Pop run_call.simps by (intro safely_option) (metis * Some Pop effect.simps(4) option.simps(5))
    qed
  next
    case (Delete b)
    with assms(3) have "b \<in> buffers g" "b \<notin> set bs" by (simp_all add: st)
    from delete_ok [OF assms(1) this] show ?thesis
      unfolding Delete run_call.simps by (intro safely_option) (metis * Delete effect.simps(5))
  next
    case (Flush b)
    with assms(3) have "b \<in> buffers g" by simp
    from flush_linked [OF scanner_ok_linked [OF assms(1)] this assms(1)] show ?thesis
      unfolding Flush run_call.simps by (intro safely_option) (metis * Flush effect.simps(6))
  next
    case (Restart f)
    from restart_ok [OF assms(1,2), of f] show ?thesis
      unfolding Restart run_call.simps
    proof (rule safely_mono)
      fix g' :: "'a flex_scanner" assume g': "case cur of Some b \<Rightarrow> scanner_ok g' bs (Some b) \<and> buffers g' = buffers g
        | None \<Rightarrow> \<exists>b. scanner_ok g' bs (Some b) \<and> b \<notin> buffers g \<and> buffers g' = insert b (buffers g)"
      then obtain b where "scanner_ok g' bs (Some b)" "effect (Restart f) (bs, cur, buffers g) (bs, Some b, buffers g')"
        by (cases cur) auto
      then show "effect (Restart f) (stack_state g) (stack_state g') \<and> (\<exists>bs cur. scanner_ok g' bs cur)"
        using * Restart by blast
    qed
  next
    case (Scan_bytes xs)
    have "safely al (and_then (yy_scan_bytes al xs g) (\<lambda>(b, g). Some (Continue g)))
        (\<lambda>g'. \<exists>b. scanner_ok g' bs (Some b) \<and> b \<notin> buffers g \<and> buffers g' = insert b (buffers g))"
      by (rule safely_and_then [OF scan_bytes_ok [OF assms(1)]]) auto
    then show ?thesis unfolding Scan_bytes run_call.simps by (rule safely_mono) (metis * Scan_bytes effect.simps(8))
  qed
qed
section \<open>Runs\<close>

text \<open>A new scanner, and the scanners that permitted calls make of it.\<close>

inductive flex_run :: "allocator \<Rightarrow> 'x flex_scanner \<Rightarrow> 'x flex_scanner \<Rightarrow> bool" for al g0 where
  start: "flex_run al g0 g0"
| call: "flex_run al g0 g \<Longrightarrow> permitted c g \<Longrightarrow> run_call al c g = Some (Continue g') \<Longrightarrow> flex_run al g0 g'"

definition heap_start :: "flex_heap \<Rightarrow> bool" where
  "heap_start h \<longleftrightarrow> heap_ok (heap h) \<and> (\<forall>a. allocs h \<le> a \<longrightarrow> heap h a = None)"

lemma created_ok:
  assumes "heap_start h" "yylex_init al False h = Created g \<or> yylex_init_extra al x False h = Created g"
  shows "scanner_ok g [] None"
proof -
  have "heap_ok ((heap h)(allocs h \<mapsto> Guts))" using assms(1) by (simp add: heap_start_def heap_ok_neutral)
  with assms show ?thesis
    by (auto simp: yylex_init_def yylex_init_extra_def yyalloc_def Let_def scanner_ok_def holds_stack_def memory_ok_def
        heap_start_def yy_init_globals_def yyset_extra_def zeroed_def split: if_splits)
qed

lemma flex_run_ok:
  "flex_run al g0 g \<Longrightarrow> allocator_ok al \<Longrightarrow> scanner_ok g0 [] None \<Longrightarrow> \<exists>bs cur. scanner_ok g bs cur"
proof (induction rule: flex_run.induct)
  case (call g c g')
  then obtain bs cur where "scanner_ok g bs cur" by blast
  from call_ok [OF this call.prems(1) call.hyps(2)] call.hyps(3) show ?case by simp
qed auto

section \<open>The life of a scanner\<close>

text \<open>The objects that \<open>yylex_destroy\<close> frees.\<close>

definition freed :: "'x flex_scanner \<Rightarrow> nat set" where
  "freed g = {self g} \<union> set_option (yy_buffer_stack g) \<union>
     {x. \<exists>b st. current g = Some b \<and> heap g b = Some (Buffer st) \<and> (x = b \<or> st_is_our_buffer st \<noteq> 0 \<and> st_ch_buf st = At x 0)}"

lemma destroy_loop_eval:
  assumes "scanner_ok g bs cur"
  shows "\<exists>g'. destroy_loop 2 g = Some g' \<and> yy_buffer_stack g' = yy_buffer_stack g \<and> self g' = self g \<and> scanner_ok g' bs None \<and>
    (\<forall>x. x \<noteq> self g \<longrightarrow> yy_buffer_stack g \<noteq> Some x \<longrightarrow> heap g' x = (if x \<in> freed g then None else heap g x))"
proof (cases cur)
  case None
  with scanner_ok_current [OF assms] assms scanner_ok_state(2) [OF assms] show ?thesis
    by (intro exI [of _ g]) (auto simp: numeral_2_eq_2 freed_def)
next
  case (Some b)
  note ok = assms [unfolded Some]
  obtain st c i j cs where st: "heap g b = Some (Buffer st)" "st_ch_buf st = At c 0" "heap g c = Some (Chars cs)" "c \<noteq> b"
    using ok by (rule currentE)
  obtain a n where ca: "stack_cell g bs (Some b) a n" using ok current_needs_stack stack_cellE by metis
  have a: "yy_buffer_stack g = Some a" "\<exists>xs. heap g a = Some (Stack xs)" using ca by (simp_all add: stack_cell_def)
  have "memory_ok g" "distinct bs" "\<forall>b \<in> set bs. is_buffer g b" using assms by (simp_all add: scanner_ok_def)
  from linked_set [OF ca this, of None] obtain g1 where 1: "set_current None g = Some g1" "linked g1 bs None" "buffers g1 = buffers g"
    "stack_cell g1 bs None a n" "\<forall>x. x \<noteq> a \<longrightarrow> heap g1 x = heap g x" "self g1 = self g" by auto
  have "b \<noteq> a" "c \<noteq> a" using st(1,3) a(2) by auto
  with st 1(5) have st1: "heap g1 b = Some (Buffer st)" "heap g1 c = Some (Chars cs)" by simp_all
  let ?g2 = "g1\<lparr>heap := (if st_is_our_buffer st \<noteq> 0 then (heap g1)(c := None, b := None) else (heap g1)(b := None))\<rparr>"
  have d: "yy_delete_buffer (Some b) g = Some ?g2"
    using scanner_ok_current [OF ok] 1(1) free_buffer_eval [OF st1(1) st(2) st1(2)] by (simp add: delete_eq)
  with delete_ok [OF ok, of b] scanner_ok_bufs [OF ok] have 2: "scanner_ok ?g2 bs None" by auto
  have "stack_cell ?g2 bs None a n" using 1(4) \<open>b \<noteq> a\<close> \<open>c \<noteq> a\<close> by (simp add: stack_cell_def)
  moreover have "memory_ok ?g2" "distinct bs" "\<forall>b \<in> set bs. is_buffer ?g2 b" using 2 by (simp_all add: scanner_ok_def)
  ultimately obtain g3 where 3: "set_current None ?g2 = Some g3" "linked g3 bs None" "stack_cell g3 bs None a n"
    "\<forall>x. x \<noteq> a \<longrightarrow> heap g3 x = heap ?g2 x" "self g3 = self ?g2" using linked_set [of ?g2 bs None a n None] by auto
  have "yypop_buffer_state g3 = Some g3" using linked_current [OF 3(2)] by (simp add: yypop_buffer_state_def)
  then have "destroy_loop 2 g = Some g3"
    using scanner_ok_current [OF ok] d 3(1) linked_current [OF 3(2)] by (simp add: numeral_2_eq_2)
  moreover have "heap g3 x = (if x \<in> freed g then None else heap g x)" if "x \<noteq> self g" "yy_buffer_stack g \<noteq> Some x" for x
    using that 3(4) 1(5) a(1) st scanner_ok_state(2) [OF ok] by (auto simp: freed_def)
  moreover have "yy_buffer_stack g3 = yy_buffer_stack g" using 3(3) a(1) by (simp add: stack_cell_def)
  moreover have "self g3 = self g" using 3(5) 1(6) by simp
  ultimately show ?thesis using 3(2) linked_empty by (intro exI [of _ g3]) blast
qed

lemma destroy_eval:
  assumes "scanner_ok g bs cur"
  shows "\<exists>h. yylex_destroy g = Some h \<and> heap h = (\<lambda>x. if x \<in> freed g then None else heap g x)"
proof -
  obtain g1 where 1: "destroy_loop 2 g = Some g1" "yy_buffer_stack g1 = yy_buffer_stack g" "self g1 = self g" "scanner_ok g1 bs None"
    "\<forall>x. x \<noteq> self g \<longrightarrow> yy_buffer_stack g \<noteq> Some x \<longrightarrow> heap g1 x = (if x \<in> freed g then None else heap g x)"
    using destroy_loop_eval [OF assms] by blast
  have self: "heap g1 (self g) = Some Guts" "yy_start_stack g1 = Null" using 1(3,4) by (simp_all add: scanner_ok_def memory_ok_def)
  have in_freed: "self g \<in> freed g" "yy_buffer_stack g = Some x \<Longrightarrow> x \<in> freed g" for x by (simp_all add: freed_def)
  show ?thesis
  proof (cases "yy_buffer_stack g")
    case None
    have "(heap g1)(self g := None) = (\<lambda>x. if x \<in> freed g then None else heap g x)"
      using 1(5) None in_freed by (auto simp: fun_eq_iff)
    with 1(1-3) None self show ?thesis
      by (simp add: yylex_destroy_def yy_init_globals_def Let_def flex_heap.truncate_def)
  next
    case (Some a)
    with 1(2,4) obtain a' n where "stack_cell g1 bs None a' n" by (auto elim!: stack_cellE)
    with 1(2) Some have a: "\<exists>xs. heap g1 a = Some (Stack xs)" by (auto simp: stack_cell_def)
    with self(1) have "self g \<noteq> a" by auto
    have "(heap g1)(a := None, self g := None) = (\<lambda>x. if x \<in> freed g then None else heap g x)"
      using 1(5) Some in_freed by (auto simp: fun_eq_iff)
    with 1(1-3) Some self a \<open>self g \<noteq> a\<close> show ?thesis
      by (auto simp: yylex_destroy_def yy_init_globals_def Let_def flex_heap.truncate_def)
  qed
qed

text \<open>
  The buffer of a scanner as \<open>Gdb_Scanner\<close> has it: the current buffer with the position, the token and the
  held character as indices into its block.
\<close>

fun index_in :: "nat \<Rightarrow> ptr \<Rightarrow> nat option" where
  "index_in c Null = None"
| "index_in c (At a i) = (if a = c then Some i else None)"

definition yyguts_of :: "'x flex_scanner \<Rightarrow> yyguts option" where
  "yyguts_of g = do {
     b \<leftarrow> YY_CURRENT_BUFFER_LVALUE g;
     st \<leftarrow> buffer_at g b;
     c \<leftarrow> (case st_ch_buf st of Null \<Rightarrow> None | At c i \<Rightarrow> if i = 0 then Some c else None);
     cs \<leftarrow> chars_at g c;
     cp \<leftarrow> index_in c (c_buf_p_r g);
     tx \<leftarrow> index_in c (yytext_r g);
     last \<leftarrow> (if last_accepting_cpos_r g = Null then Some 0 else index_in c (last_accepting_cpos_r g));
     Some \<lparr>yy_ch_buf = cs, yy_buf_size = st_buf_size st, b_n_chars = st_n_chars st, yy_buffer_status = st_buffer_status st,
       yy_n_chars = n_chars_r g, yy_c_buf_p = cp, yytext_ptr = tx, yyleng = yyleng_r g, yy_hold_char = hold_char_r g,
       yy_last_accepting = (last_accepting_state_r g, last)\<rparr>
   }"

text \<open>The first buffer of a scanner without one, in full.\<close>

lemma provide_eval:
  assumes "scanner_ok g [] None" "yy_buffer_stack g = None" "allocator_ok al" "\<forall>k. grants al k" "k = allocs g"
  shows "provide_buffer al g = Some (Continue (g\<lparr>allocs := k + 3, heap := (heap g)(k \<mapsto> Stack [Some (k + 1)],
    k + 1 \<mapsto> Buffer (new_buffer al (k + 1) (yyin_r g) 16384),
    k + 2 \<mapsto> Chars ((content al (k + 2) 16386)[0 := 0, 1 := 0])), yy_buffer_stack := Some k, yy_buffer_stack_max := 1,
    yy_buffer_stack_top := 0\<rparr>))"
proof -
  let ?g1 = "g\<lparr>allocs := k + 1, heap := (heap g)(k \<mapsto> Stack [None]), yy_buffer_stack := Some k,
    yy_buffer_stack_max := 1, yy_buffer_stack_top := 0\<rparr>"
  have 1: "yyensure_buffer_stack al g = Some (Continue ?g1)"
    using assms(2,4,5) by (simp add: yyensure_buffer_stack_def yyalloc_def Let_def)
  with ensure_first [OF assms(1,2), of al] assms(4) have ok: "scanner_ok ?g1 [] None" by simp
  let ?h = "(heap ?g1)(k + 1 \<mapsto> Buffer (new_buffer al (k + 1) (yyin_r g) 16384),
    k + 2 \<mapsto> Chars ((content al (k + 2) 16386)[0 := 0, 1 := 0]))"
  have 2: "yy_create_buffer al (yyin_r ?g1) 16384 ?g1 = Some (Continue (k + 1, ?g1\<lparr>allocs := k + 3, heap := ?h\<rparr>))"
  proof -
    have n: "k + 1 + 1 = k + 2" "k + 1 + 2 = k + 3" "(16384 :: nat) + 2 = 16386" by simp_all
    have "grants al (allocs ?g1)" "grants al (allocs ?g1 + 1)" "k + 1 = allocs ?g1" using assms(4) by simp_all
    from create_eval [OF ok assms(3) this, of "yyin_r ?g1" 16384] show ?thesis unfolding n by simp
  qed
  have c: "stack_cell (?g1\<lparr>allocs := k + 3, heap := ?h\<rparr>) [] None k 0" by (simp add: stack_cell_def)
  have h: "?h(k \<mapsto> Stack [Some (k + 1)]) = (heap g)(k \<mapsto> Stack [Some (k + 1)],
    k + 1 \<mapsto> Buffer (new_buffer al (k + 1) (yyin_r g) 16384), k + 2 \<mapsto> Chars ((content al (k + 2) 16386)[0 := 0, 1 := 0]))"
    by (simp add: fun_eq_iff)
  have 3: "set_current (Some (k + 1)) (?g1\<lparr>allocs := k + 3, heap := ?h\<rparr>) = Some (?g1\<lparr>allocs := k + 3,
      heap := ?h(k \<mapsto> Stack [Some (k + 1)])\<rparr>)"
    using set_current_eval [OF c, of "Some (k + 1)"] by simp
  have "provide_buffer al g = Some (Continue (?g1\<lparr>allocs := k + 3, heap := ?h(k \<mapsto> Stack [Some (k + 1)])\<rparr>))"
    unfolding provide_buffer_def scanner_ok_current [OF assms(1)] by (simp only: bind.bind_lunit 1 2 3 and_then_simps prod.case if_False simp_thms)
  then show ?thesis unfolding h by simp
qed

lemma new_buffer_fields [simp]:
  "st_ch_buf (new_buffer al k f n) = At (k + 1) 0" "st_buf_pos (new_buffer al k f n) = At (k + 1) 0"
  "st_n_chars (new_buffer al k f n) = 0" "st_buf_size (new_buffer al k f n) = n" "st_buffer_status (new_buffer al k f n) = 0"
  "st_input_file (new_buffer al k f n) = f" "st_is_our_buffer (new_buffer al k f n) = 1"
  by (simp_all add: new_buffer_def initialised_def Let_def)

text \<open>The start of \<open>yylex\<close> on a new scanner that reads the file \<open>f\<close>.\<close>

lemma start_eval:
  assumes "heap_start h" "allocator_ok al" "\<forall>k. grants al k" "k = allocs h"
    "yylex_init_extra al x False h = Created g0"
  shows "\<exists>g. yylex_start al (yyset_in (Some f) g0) = Some (Continue g) \<and> scanner_ok g [] (Some (k + 2)) \<and>
    heap g = (heap h)(k \<mapsto> Guts, k + 1 \<mapsto> Stack [Some (k + 2)], k + 2 \<mapsto> Buffer (new_buffer al (k + 2) (Some f) 16384),
      k + 3 \<mapsto> Chars ((content al (k + 3) 16386)[0 := 0, 1 := 0])) \<and>
    self g = k \<and> yy_buffer_stack g = Some (k + 1) \<and> yyextra_r g = x \<and> yyin_r g = Some f \<and> yyout_r g = Some 1 \<and>
    c_buf_p_r g = At (k + 3) 0 \<and> yytext_r g = At (k + 3) 0 \<and> n_chars_r g = 0 \<and> hold_char_r g = 0 \<and> yyleng_r g = 0 \<and>
    last_accepting_state_r g = 0 \<and> last_accepting_cpos_r g = Null"
proof -
  let ?g = "(yyset_in (Some f) g0)\<lparr>yy_init := 1, yy_start := 1, yyout_r := Some 1\<rparr>"
  have g0: "g0 = yy_init_globals (yyset_extra x (zeroed k \<lparr>heap = (heap h)(k \<mapsto> Guts), allocs = k + 1\<rparr>))"
  proof -
    have "(heap h, allocs h) = (heap h, k)" using assms(4) by simp
    then show ?thesis using assms(3,5) by (cases h) (simp add: yylex_init_extra_def yyalloc_def Let_def)
  qed
  have f: "yy_buffer_stack ?g = None" "allocs ?g = k + 1" "yyin_r ?g = Some f" "heap ?g = (heap h)(k \<mapsto> Guts)" "self ?g = k"
    "yyextra_r ?g = x" "yyleng_r ?g = 0" "last_accepting_state_r ?g = 0" "last_accepting_cpos_r ?g = Null" "yyout_r ?g = Some 1"
    by (simp_all add: g0 yy_init_globals_def yyset_extra_def zeroed_def yyset_in_def)
  have "scanner_ok g0 [] None" using created_ok [OF assms(1)] assms(5) by blast
  then have ok: "scanner_ok ?g [] None"
    by (simp add: scanner_ok_def holds_stack_def memory_ok_def g0 yy_init_globals_def yyset_extra_def zeroed_def yyset_in_def)
  have s: "yylex_start al (yyset_in (Some f) g0) = and_then (provide_buffer al ?g) (\<lambda>g. do {
          g \<leftarrow> yy_load_buffer_state_of g;
          Some (Continue g)
        })"
    by (simp add: yylex_start_def Let_def g0 yy_init_globals_def yyset_extra_def zeroed_def yyset_in_def)
  have n: "k + 1 + 1 = k + 2" "k + 1 + 2 = k + 3" "k + 1 + 3 = k + 4" "k + 2 + 1 = k + 3" by simp_all
  let ?h = "(heap ?g)(k + 1 \<mapsto> Stack [Some (k + 2)], k + 2 \<mapsto> Buffer (new_buffer al (k + 2) (Some f) 16384),
    k + 3 \<mapsto> Chars ((content al (k + 3) 16386)[0 := 0, 1 := 0]))"
  let ?g1 = "?g\<lparr>allocs := k + 4, heap := ?h, yy_buffer_stack := Some (k + 1), yy_buffer_stack_max := 1, yy_buffer_stack_top := 0\<rparr>"
  have p: "provide_buffer al ?g = Some (Continue ?g1)"
    using provide_eval [OF ok f(1) assms(2,3), of "k + 1"] f(2,3) unfolding n by simp
  with provide_ok [OF ok assms(2)] obtain b where b: "linked ?g1 [] (Some b)" by auto
  have "YY_CURRENT_BUFFER ?g1 = Some (Some (k + 2))" by (simp add: YY_CURRENT_BUFFER_def stack_array_def)
  with linked_current [OF b] b have l: "linked ?g1 [] (Some (k + 2))" by simp
  from load_ok [OF this] obtain g2 where g2: "yy_load_buffer_state_of ?g1 = Some g2" "scanner_ok g2 [] (Some (k + 2))" by blast
  have cs: "(content al (k + 3) 16386)[0 := 0, 1 := 0] ! 0 = 0" "(content al (k + 3) 16386)[0 := 0, 1 := 0] \<noteq> []"
    using assms(2) by (auto simp: allocator_ok_def dest: arg_cong [where f = length])
  have b: "buffer_at ?g1 (k + 2) = Some (new_buffer al (k + 2) (Some f) 16384)" by (simp add: buffer_at_def)
  have p': "peek ?g1 (At (k + 3) 0) 0 = Some 0" using cs by (simp add: peek_def chars_at_def)
  have "yy_load_buffer_state_of ?g1 = Some (?g1\<lparr>n_chars_r := 0, c_buf_p_r := At (k + 3) 0, yytext_r := At (k + 3) 0,
      yyin_r := Some f, hold_char_r := 0\<rparr>)"
  proof -
    have pos: "st_buf_pos (new_buffer al (k + 2) f' 16384) = At (k + 3) 0" for f' unfolding new_buffer_fields n ..
    from b p' show ?thesis
      unfolding yy_load_buffer_state_of_def YY_CURRENT_BUFFER_LVALUE_def linked_current [OF l] bind.bind_lunit
      by (simp only: bind.bind_lunit pos new_buffer_fields(3-))
  qed
  with g2 have g2': "g2 = ?g1\<lparr>n_chars_r := 0, c_buf_p_r := At (k + 3) 0, yytext_r := At (k + 3) 0,
      yyin_r := Some f, hold_char_r := 0\<rparr>" by simp
  have "yylex_start al (yyset_in (Some f) g0) = Some (Continue g2)" using s p g2(1) by simp
  moreover have "heap g2 = (heap h)(k \<mapsto> Guts, k + 1 \<mapsto> Stack [Some (k + 2)],
      k + 2 \<mapsto> Buffer (new_buffer al (k + 2) (Some f) 16384), k + 3 \<mapsto> Chars ((content al (k + 3) 16386)[0 := 0, 1 := 0]))"
  proof -
    have "heap (yyset_in (Some f) g0) = (heap h)(k \<mapsto> Guts)" using f(4) by simp
    then show ?thesis unfolding g2' by (simp del: fun_upd_apply)
  qed
  moreover have "self g2 = k" "yy_buffer_stack g2 = Some (k + 1)" "yyextra_r g2 = x" "yyin_r g2 = Some f" "yyout_r g2 = Some 1"
    "c_buf_p_r g2 = At (k + 3) 0" "yytext_r g2 = At (k + 3) 0" "n_chars_r g2 = 0" "hold_char_r g2 = 0" "yyleng_r g2 = 0"
    "last_accepting_state_r g2 = 0" "last_accepting_cpos_r g2 = Null" unfolding g2' using f by simp_all
  ultimately show ?thesis using g2(2) by blast
qed

section \<open>Properties\<close>

text \<open>
  (C9) The buffers of the scanner under every sequence of permitted calls on a new scanner, in any
  memory: the next call never reads or writes freed memory, leaves a block or frees an object twice, it
  ends the program only when an allocation is refused, and otherwise it has the effect of its name on
  the stack of buffers and creates or destroys exactly the buffer it should.
\<close>

theorem buffer_calls_refine_stack:
  assumes "heap_start h" "allocator_ok al" "yylex_init al False h = Created g0" "flex_run al g0 g" "permitted c g"
  shows "case run_call al c g of
      None \<Rightarrow> False
    | Some (Exit code msg) \<Rightarrow> \<not> (\<forall>k. grants al k)
    | Some (Continue g') \<Rightarrow> effect c (stack_state g) (stack_state g')"
proof -
  have "scanner_ok g0 [] None" using created_ok [OF assms(1)] assms(3) by blast
  with flex_run_ok [OF assms(4,2)] obtain bs cur where "scanner_ok g bs cur" by blast
  from call_ok [OF this assms(2,5)] show ?thesis by (auto simp: safely_def split: option.splits or_exit.splits)
qed

text \<open>
  (C24) Pushing a buffer and popping it again, in the middle of a scan: the buffer below is current again
  with the position, the number of characters and the held character that the scanner had, the held
  character is back in its place in the text, and the pushed buffer is gone.
\<close>

theorem push_pop_restores:
  assumes "scanner_ok g bs (Some a)" "b \<in> buffers g" "b \<notin> set bs" "b \<noteq> a"
    "yypush_buffer_state al (Some b) g = Some (Continue g1)"
  shows "\<exists>g2. yypop_buffer_state g1 = Some g2 \<and> below g2 = below g \<and> current g2 = Some a \<and> buffers g2 = buffers g - {b} \<and>
    c_buf_p_r g2 = c_buf_p_r g \<and> n_chars_r g2 = n_chars_r g \<and> hold_char_r g2 = hold_char_r g \<and>
    peek g2 (c_buf_p_r g) 0 = Some (hold_char_r g) \<and> YY_AT_BOL g2 = YY_AT_BOL g"
proof -
  from push_ok [OF assms(1-3), of al] assms(4,5) have 1: "scanner_ok g1 (bs @ [a]) (Some b)" "buffers g1 = buffers g"
    "written_back g a g1" by auto
  obtain g2 where 2: "yypop_buffer_state g1 = Some g2" "scanner_ok g2 bs (Some a)" "buffers g2 = buffers g - {b}"
    "loaded_from g1 a g2" using pop_ok [OF 1(1)] 1(2) by auto
  from 1(3) obtain st c i cs where w: "heap g a = Some (Buffer st)" "st_ch_buf st = At c 0" "heap g c = Some (Chars cs)"
    "c_buf_p_r g = At c i" "i < length cs" "heap g1 a = Some (Buffer (st\<lparr>st_buf_pos := At c i, st_n_chars := n_chars_r g\<rparr>))"
    "heap g1 c = Some (Chars (cs[i := hold_char_r g]))" unfolding written_back_def by blast
  with 2(4) have l: "n_chars_r g2 = n_chars_r g" "c_buf_p_r g2 = At c i" "hold_char_r g2 = hold_char_r g"
    "heap g2 a = Some (Buffer (st\<lparr>st_buf_pos := At c i, st_n_chars := n_chars_r g\<rparr>))" "heap g2 c = Some (Chars (cs[i := hold_char_r g]))"
    by (auto simp: loaded_from_def)
  then have "peek g2 (At c i) 0 = Some (hold_char_r g)" using w(5) by simp
  moreover have "YY_AT_BOL g2 = YY_AT_BOL g"
    using w(1) l(4) scanner_ok_current [OF assms(1)] scanner_ok_current [OF 2(2)]
    by (simp add: YY_AT_BOL_def YY_CURRENT_BUFFER_LVALUE_def)
  ultimately show ?thesis
    using 2(1-3) w(4) l scanner_ok_state(1,2) [OF assms(1)] scanner_ok_state(1,2) [OF 2(2)] by auto
qed

text \<open>
  (C25) What \<open>yylex_destroy\<close> frees, after any permitted calls: the scanner, the array of its stack, the
  current buffer and its block when it owns it, and nothing else. The buffers below the current one
  stay allocated: the loop that should pop them sets the current buffer to null first, and
  \<open>yypop_buffer_state\<close> then returns at once.
\<close>

theorem destroy_frees_current:
  assumes "heap_start h0" "allocator_ok al" "yylex_init al False h0 = Created g0" "flex_run al g0 g"
  shows "\<exists>h. yylex_destroy g = Some h \<and>
    (\<forall>x. heap h x = (if x = self g \<or> yy_buffer_stack g = Some x \<or> current g = Some x \<or>
        (\<exists>b st. current g = Some b \<and> buffer_at g b = Some st \<and> st_is_our_buffer st \<noteq> 0 \<and> st_ch_buf st = At x 0)
      then None else heap g x)) \<and>
    (\<forall>b \<in> set (below g). buffer_at h b = buffer_at g b \<and> buffer_at h b \<noteq> None)"
proof -
  have "scanner_ok g0 [] None" using created_ok [OF assms(1)] assms(3) by blast
  with flex_run_ok [OF assms(4,2)] obtain bs cur where ok: "scanner_ok g bs cur" by blast
  note st = scanner_ok_state [OF ok]
  obtain h where h: "yylex_destroy g = Some h" "heap h = (\<lambda>x. if x \<in> freed g then None else heap g x)"
    using destroy_eval [OF ok] by blast
  have at: "buffer_at g b = Some s \<longleftrightarrow> heap g b = Some (Buffer s)" for b s
    by (auto simp: buffer_at_def split: option.splits cell.splits)
  have cur: "is_buffer g b" if "current g = Some b" for b using that ok st(2) by (simp add: scanner_ok_def position_is_buffer)
  have f: "x \<in> freed g \<longleftrightarrow> x = self g \<or> yy_buffer_stack g = Some x \<or> current g = Some x \<or>
      (\<exists>b st. current g = Some b \<and> buffer_at g b = Some st \<and> st_is_our_buffer st \<noteq> 0 \<and> st_ch_buf st = At x 0)" for x
    using cur by (auto simp: freed_def at is_buffer_def)
  have "buffer_at h b = buffer_at g b \<and> buffer_at h b \<noteq> None" if b: "b \<in> set (below g)" for b
  proof -
    from b ok st(1) obtain s where s: "heap g b = Some (Buffer s)" by (auto simp: scanner_ok_def is_buffer_def)
    have "b \<noteq> self g" using ok s by (auto simp: scanner_ok_def memory_ok_def)
    moreover have "yy_buffer_stack g \<noteq> Some b" by (rule not_the_stack [OF scanner_ok_linked [OF ok] s]) simp
    moreover have "current g \<noteq> Some b" using b ok st(1,2) by (auto simp: scanner_ok_def)
    moreover have "st_ch_buf s' \<noteq> At b 0" if "heap g d = Some (Buffer s')" for d s'
    proof -
      have "heap_ok (heap g)" using ok by (simp add: scanner_ok_def memory_ok_def)
      from heap_ok_buffer [OF this that] s show ?thesis by (metis option.inject cell.distinct(1) ptr.inject)
    qed
    ultimately have "b \<notin> freed g" unfolding f at by blast
    with h(2) s show ?thesis by (simp add: buffer_at_def)
  qed
  moreover have "\<forall>x. heap h x = (if x = self g \<or> yy_buffer_stack g = Some x \<or> current g = Some x \<or>
      (\<exists>b st. current g = Some b \<and> buffer_at g b = Some st \<and> st_is_our_buffer st \<noteq> 0 \<and> st_ch_buf st = At x 0)
      then None else heap g x)" using h(2) f by simp
  ultimately show ?thesis using h(1) by blast
qed

text \<open>
  (C26) The scanner that \<open>gdb_scanner\<close> uses, from \<open>yylex_init_extra\<close> through the start of \<open>yylex\<close> to
  \<open>yylex_destroy\<close>, in any memory in which no allocation is refused: \<open>yylex\<close> starts with exactly the buffer
  on which \<open>Gdb_Scanner\<close> runs it, with the file and the user data that were set, and \<open>yylex_destroy\<close>
  leaves the memory as it was before.
\<close>

theorem scanner_life:
  assumes "heap_start h" "allocator_ok al" "\<forall>k. grants al k"
  shows "\<exists>g0 g h'. yylex_init_extra al (Some d) False h = Created g0 \<and>
    yylex_start al (yyset_in (Some f) g0) = Some (Continue g) \<and>
    yyguts_of g = yy_first_buffer (content al (allocs h + 3)) \<and> yyget_extra g = Some d \<and> yyget_in g = Some f \<and>
    yyget_lineno g = Some 1 \<and> yyget_column g = Some 0 \<and>
    yylex_destroy g = Some h' \<and> heap h' = heap h"
proof -
  let ?k = "allocs h"
  obtain g0 where g0: "yylex_init_extra al (Some d) False h = Created g0"
    using assms(3) by (simp add: yylex_init_extra_def yyalloc_def Let_def)
  from start_eval [OF assms refl g0, of f] obtain g where
    s: "yylex_start al (yyset_in (Some f) g0) = Some (Continue g)" "scanner_ok g [] (Some (?k + 2))" and
    heap: "heap g = (heap h)(?k \<mapsto> Guts, ?k + 1 \<mapsto> Stack [Some (?k + 2)], ?k + 2 \<mapsto> Buffer (new_buffer al (?k + 2) (Some f) 16384),
      ?k + 3 \<mapsto> Chars ((content al (?k + 3) 16386)[0 := 0, 1 := 0]))" and
    g: "self g = ?k" "yy_buffer_stack g = Some (?k + 1)" "yyextra_r g = Some d" "yyin_r g = Some f"
    "c_buf_p_r g = At (?k + 3) 0" "yytext_r g = At (?k + 3) 0" "n_chars_r g = 0" "hold_char_r g = 0" "yyleng_r g = 0"
    "last_accepting_state_r g = 0" "last_accepting_cpos_r g = Null" by blast
  have n: "?k + 2 + 1 = ?k + 3" by simp
  have b: "buffer_at g (?k + 2) = Some (new_buffer al (?k + 2) (Some f) 16384)"
    "chars_at g (?k + 3) = Some ((content al (?k + 3) 16386)[0 := 0, 1 := 0])"
    by (simp_all add: heap buffer_at_def chars_at_def)
  have c: "st_ch_buf (new_buffer al (?k + 2) (Some f) 16384) = At (?k + 3) 0" by (simp only: new_buffer_fields n)
  have cur: "YY_CURRENT_BUFFER g = Some (Some (?k + 2))" using s(2) by (rule scanner_ok_current)
  have len: "length (content al (?k + 3) 16386) = 16386" using assms(2) by (simp add: allocator_ok_def)
  have "yyguts_of g = Some \<lparr>yy_ch_buf = (content al (?k + 3) 16386)[0 := 0, 1 := 0], yy_buf_size = 16384, b_n_chars = 0,
      yy_buffer_status = 0, yy_n_chars = 0, yy_c_buf_p = 0, yytext_ptr = 0, yyleng = 0, yy_hold_char = 0, yy_last_accepting = (0, 0)\<rparr>"
    unfolding yyguts_of_def YY_CURRENT_BUFFER_LVALUE_def cur bind.bind_lunit b(1)
    by (simp only: bind.bind_lunit c ptr.case if_True b(2) g index_in.simps new_buffer_fields(3-5) refl)
  moreover have "yy_first_buffer (content al (?k + 3)) = Some \<lparr>yy_ch_buf = (content al (?k + 3) 16386)[0 := 0, 1 := 0],
      yy_buf_size = 16384, b_n_chars = 0, yy_buffer_status = 0, yy_n_chars = 0, yy_c_buf_p = 0, yytext_ptr = 0, yyleng = 0,
      yy_hold_char = 0, yy_last_accepting = (0, 0)\<rparr>"
  proof -
    have "content al (?k + 3) 16386 \<noteq> []" using len by auto
    with len show ?thesis
      by (simp add: yy_first_buffer_def yy_flush_buffer_def yy_load_buffer_state_def YY_BUF_SIZE_def YY_BUFFER_NEW_def)
  qed
  moreover have "yyget_lineno g = Some 1" "yyget_column g = Some 0"
    using cur b(1) by (simp_all add: yyget_lineno_def yyget_column_def new_buffer_def initialised_def Let_def)
  moreover obtain h' where h': "yylex_destroy g = Some h'" "heap h' = (\<lambda>x. if x \<in> freed g then None else heap g x)"
    using destroy_eval [OF s(2)] by blast
  have "heap h' = heap h"
  proof
    fix x
    have f: "x \<in> freed g \<longleftrightarrow> x = ?k \<or> x = ?k + 1 \<or> x = ?k + 2 \<or> x = ?k + 3"
      using g(1,2) scanner_ok_state(2) [OF s(2)] by (auto simp: freed_def heap)
    show "heap h' x = heap h x"
    proof (cases "x \<in> freed g")
      case True
      then have "?k \<le> x" unfolding f by auto
      with assms(1) True h'(2) show ?thesis by (simp add: heap_start_def)
    next
      case False
      with f h'(2) heap show ?thesis by simp
    qed
  qed
  ultimately show ?thesis using g0 s(1) h' g(3,4) by (auto simp: yyget_extra_def yyget_in_def)
qed

section \<open>A scanner with two buffers\<close>

definition sample_allocator :: allocator where
  "sample_allocator = \<lparr>grants = \<lambda>k. True, content = \<lambda>k n. replicate n 7,
     fresh_state = \<lambda>k. \<lparr>st_input_file = None, st_ch_buf = Null, st_buf_pos = Null, st_buf_size = 0, st_n_chars = 0,
       st_is_our_buffer = 0, st_is_interactive = 0, st_at_bol = 0, st_bs_lineno = 0, st_bs_column = 0, st_fill_buffer = 0,
       st_buffer_status = 0\<rparr>\<rparr>"

definition empty_heap :: flex_heap where
  "empty_heap = \<lparr>heap = Map.empty, allocs = 0\<rparr>"

lemma sample_ok [simp]: "allocator_ok sample_allocator" "grants sample_allocator k" "heap_start empty_heap"
  by (simp_all add: allocator_ok_def sample_allocator_def heap_start_def heap_ok_def empty_heap_def)

lemma sample_created: "\<exists>g0 :: unit flex_scanner. yylex_init sample_allocator False empty_heap = Created g0 \<and> buffers g0 = {} \<and>
   scanner_ok g0 [] None"
proof -
  obtain g0 :: "unit flex_scanner" where g0: "yylex_init sample_allocator False empty_heap = Created g0" "buffers g0 = {}"
    by (auto simp: yylex_init_def yyalloc_def Let_def yy_init_globals_def zeroed_def empty_heap_def buffers_def is_buffer_def)
  with created_ok [of empty_heap sample_allocator g0] show ?thesis by auto
qed

text \<open>A granted call: it goes on.\<close>

lemma granted:
  assumes "safely sample_allocator m P"
  obtains x where "m = Some (Continue x)" "P x"
  using assms by (auto simp: safely_def split: option.splits or_exit.splits)

lemma sample_run:
  assumes "scanner_ok g bs cur" "permitted c g" "flex_run sample_allocator g0 g"
  obtains g' bs' cur' where "run_call sample_allocator c g = Some (Continue g')" "flex_run sample_allocator g0 g'"
    "effect c (stack_state g) (stack_state g')" "scanner_ok g' bs' cur'" "stack_state g' = (bs', cur', buffers g')"
proof -
  from call_ok [OF assms(1) sample_ok(1) assms(2)] obtain g' where
    1: "run_call sample_allocator c g = Some (Continue g')" "effect c (stack_state g) (stack_state g')" "\<exists>bs cur. scanner_ok g' bs cur"
    by (rule granted) blast
  from 1(3) obtain bs' cur' where 2: "scanner_ok g' bs' cur'" by blast
  show thesis
    by (rule that [OF 1(1) flex_run.call [OF assms(3,2) 1(1)] 1(2) 2 scanner_ok_state(3) [OF 2]])
qed

text \<open>Bytes are scanned, and a second buffer is created for a file.\<close>

lemma sample_two:
  "\<exists>(g0 :: unit flex_scanner) g a b. yylex_init sample_allocator False empty_heap = Created g0 \<and> flex_run sample_allocator g0 g \<and>
     scanner_ok g [] (Some a) \<and> b \<in> buffers g \<and> b \<noteq> a"
proof -
  obtain g0 :: "unit flex_scanner" where g0: "yylex_init sample_allocator False empty_heap = Created g0" "buffers g0 = {}"
    "scanner_ok g0 [] None" using sample_created by blast
  obtain g1 bs1 cur1 where g1: "flex_run sample_allocator g0 g1" "effect (Scan_bytes [0x24, 0x23]) (stack_state g0) (stack_state g1)"
    "scanner_ok g1 bs1 cur1" "stack_state g1 = (bs1, cur1, buffers g1)"
    using sample_run [OF g0(3), of "Scan_bytes [0x24, 0x23]" g0] flex_run.start by (metis permitted.simps(8))
  from g1(2,4) obtain a where a: "bs1 = []" "cur1 = Some a" using scanner_ok_state(3) [OF g0(3)] by auto
  obtain g2 bs2 cur2 where g2: "flex_run sample_allocator g0 g2" "effect (Create_buffer (Some 3) 100) (stack_state g1) (stack_state g2)"
    "scanner_ok g2 bs2 cur2" "stack_state g2 = (bs2, cur2, buffers g2)"
    using sample_run [OF g1(3) _ g1(1), of "Create_buffer (Some 3) 100"] by (metis permitted.simps(5))
  from g2(2,4) g1(4) a obtain b where b: "b \<notin> buffers g1" "bs2 = []" "cur2 = Some a" "buffers g2 = insert b (buffers g1)" by auto
  have "a \<in> buffers g1" using g1(3) a scanner_ok_bufs by blast
  with b g0(1) g2(1,3) show ?thesis by blast
qed

theorem buffer_calls_refine_stack_witness:
  "\<exists>(g0 :: unit flex_scanner) g a. yylex_init sample_allocator False empty_heap = Created g0 \<and>
     run_call sample_allocator (Scan_bytes [0x24, 0x23]) g0 = Some (Continue g) \<and> stack_state g = ([], Some a, {a})"
proof -
  obtain g0 :: "unit flex_scanner" where g0: "yylex_init sample_allocator False empty_heap = Created g0" "buffers g0 = {}"
    "scanner_ok g0 [] None" using sample_created by blast
  have "permitted (Scan_bytes [0x24, 0x23]) g0" by simp
  from buffer_calls_refine_stack [OF sample_ok(3) sample_ok(1) g0(1) flex_run.start this] g0(2) scanner_ok_state(3) [OF g0(3)]
  have "\<exists>g a. run_call sample_allocator (Scan_bytes [0x24, 0x23]) g0 = Some (Continue g) \<and> stack_state g = ([], Some a, {a})"
    by (auto simp del: run_call.simps split: option.splits or_exit.splits)
  with g0(1) show ?thesis by blast
qed

theorem push_pop_restores_witness:
  "\<exists>(g :: unit flex_scanner) g1 g2 a b. yypush_buffer_state sample_allocator (Some b) g = Some (Continue g1) \<and> current g1 = Some b \<and>
     yypop_buffer_state g1 = Some g2 \<and> current g2 = Some a \<and> c_buf_p_r g2 = c_buf_p_r g \<and> peek g2 (c_buf_p_r g) 0 = Some (hold_char_r g)"
proof -
  obtain g :: "unit flex_scanner" and a b where g: "scanner_ok g [] (Some a)" "b \<in> buffers g" "b \<noteq> a" using sample_two by blast
  have e: "b \<notin> set []" "Some a \<noteq> Some b" using g(3) by simp_all
  from push_ok [OF g(1,2) e, of sample_allocator] obtain g1 where
    g1: "yypush_buffer_state sample_allocator (Some b) g = Some (Continue g1)" "scanner_ok g1 [a] (Some b)" by (rule granted) simp
  from push_pop_restores [OF g(1,2) e(1) g(3) g1(1)] g1 scanner_ok_state(2) [OF g1(2)] show ?thesis by blast
qed

theorem destroy_frees_current_witness:
  "\<exists>(g0 :: unit flex_scanner) g h a. yylex_init sample_allocator False empty_heap = Created g0 \<and> flex_run sample_allocator g0 g \<and>
     below g = [a] \<and> yylex_destroy g = Some h \<and> buffer_at h a \<noteq> None"
proof -
  obtain g0 :: "unit flex_scanner" and g a b where g: "yylex_init sample_allocator False empty_heap = Created g0"
    "flex_run sample_allocator g0 g" "scanner_ok g [] (Some a)" "b \<in> buffers g" "b \<noteq> a" using sample_two by blast
  note st = scanner_ok_state [OF g(3)]
  have "permitted (Push b) g" using g(4,5) st by simp
  from sample_run [OF g(3) this g(2)] obtain g1 bs1 cur1 where g1: "flex_run sample_allocator g0 g1"
    "effect (Push b) (stack_state g) (stack_state g1)" "scanner_ok g1 bs1 cur1" "stack_state g1 = (bs1, cur1, buffers g1)" by metis
  with st have b: "below g1 = [a]" using scanner_ok_state(1) [OF g1(3)] by simp
  from destroy_frees_current [OF sample_ok(3) sample_ok(1) g(1) g1(1)] b show ?thesis using g(1) g1(1) by auto
qed

theorem scanner_life_witness:
  "\<exists>g0 g h'. yylex_init_extra sample_allocator (Some ()) False empty_heap = Created g0 \<and>
     yylex_start sample_allocator (yyset_in (Some 3) g0) = Some (Continue g) \<and>
     yyguts_of g = yy_first_buffer (\<lambda>n. replicate n 7) \<and> yylex_destroy g = Some h' \<and> heap h' = Map.empty"
  using scanner_life [OF sample_ok(3) sample_ok(1), of "()" 3] by (simp add: sample_allocator_def empty_heap_def) blast

end
