(* ===== verification/Sim_Trace.thy ===== *)
theory Sim_Trace
  imports Arm_Instruction C_Strings
begin

text \<open>
  \<^verbatim>\<open>trace.c\<close>: the lines that the accessors of the processor print, selected by flags, with
  the source position of the access kept on a stack. The configuration is the default one, without
  \<^verbatim>\<open>ARM_TRACE_FORMAT\<close>. The text written to the trace file is the field \<open>printed\<close>.
\<close>

section \<open>Numbers in a line\<close>

definition hex_char :: "nat \<Rightarrow> char" where
  "hex_char n = (if n < 10 then char_of (48 + n) else char_of (55 + n))"

definition print_08X :: "u32 \<Rightarrow> string" where
  "print_08X v = map hex_char (digits_of 8 (unat v))"

text \<open>\<open>%3s\<close>: the string, preceded by spaces up to three characters.\<close>

definition print_3s :: "string \<Rightarrow> string" where
  "print_3s s = replicate (3 - length s) CHR '' '' @ s"

section \<open>State\<close>

definition MEMORY :: int where "MEMORY = 32"
definition REGISTERS :: int where "REGISTERS = 64"
definition STATE :: int where "STATE = 128"
definition POSITION :: int where "POSITION = 256"

record trace_state =
  last_address :: u32
  enabled :: bool
  location_file_stack :: "string option list"
  location_line_stack :: "int list"
  location_stack_top :: int
  trace_flags :: int
  states :: "u8 list"
  printed :: string

definition trace_initial :: trace_state where
  "trace_initial = \<lparr>last_address = 0x12345678, enabled = True,
     location_file_stack = replicate 128 None, location_line_stack = replicate 128 0,
     location_stack_top = -1, trace_flags = 0, states = replicate 32 0, printed = []\<rparr>"

definition trace_memory_cause :: "string list" where
  "trace_memory_cause = ['''', '', fetch'']"

definition trace_type :: "string list" where
  "trace_type = [''write'', ''read'']"

text \<open>The test of a flag.\<close>

definition traces :: "trace_state \<Rightarrow> int \<Rightarrow> bool" where
  "traces t flag \<longleftrightarrow> enabled t \<and> trace_flags t AND flag \<noteq> 0"

definition fprintf :: "trace_state \<Rightarrow> string \<Rightarrow> trace_state" where
  "fprintf t s = t\<lparr>printed := printed t @ s\<rparr>"

section \<open>Positions\<close>

text \<open>An index of an array that is a C \<open>int\<close>.\<close>

definition index_of :: "int \<Rightarrow> nat option" where
  "index_of i = (if 0 \<le> i then Some (nat i) else None)"



definition trace_print_location :: "trace_state \<Rightarrow> trace_state option" where
  "trace_print_location t =
     (if traces t POSITION \<and> 0 \<le> location_stack_top t then do {
        i \<leftarrow> index_of (location_stack_top t);
        src_file \<leftarrow> aget (location_file_stack t) i;
        src_file \<leftarrow> src_file;
        line \<leftarrow> aget (location_line_stack t) i;
        Some (fprintf t (src_file @ '', '' @ print_d line @ '': ''))
      } else Some t)"

section \<open>The three kinds of lines\<close>

text \<open>Both entries of the table \<open>trace_memory_seq\<close> are empty, so only \<open>last_address\<close> keeps \<open>seq\<close>.\<close>

definition trace_memory ::
  "trace_state \<Rightarrow> u32 \<Rightarrow> u8 \<Rightarrow> u8 \<Rightarrow> u8 \<Rightarrow> u32 \<Rightarrow> u32 \<Rightarrow> trace_state option" where
  "trace_memory t cycle type sz cause address v = (if traces t MEMORY then do {
     let t = t\<lparr>last_address := address\<rparr>;
     t \<leftarrow> trace_print_location t;
     ty \<leftarrow> aget trace_type (unat type);
     ca \<leftarrow> aget trace_memory_cause (unat cause);
     Some (fprintf t (''Cycle '' @ print_d (sint cycle) @ '', Mem '' @ ty @ '' ('' @ print_d (uint sz) @ '' bytes'' @
       ca @ '') addr: '' @ print_08X address @ '', val: '' @ print_08X v @ newline))
   } else Some t)"

definition trace_register ::
  "trace_state \<Rightarrow> u32 \<Rightarrow> u8 \<Rightarrow> u8 \<Rightarrow> u8 \<Rightarrow> u32 \<Rightarrow> trace_state option" where
  "trace_register t cycle type r mode v = (if traces t REGISTERS then do {
     name \<leftarrow> arm_get_mode_name mode;
     let mode_name = (case name of Some n \<Rightarrow> CHR ''_'' # n | None \<Rightarrow> '''');
     t \<leftarrow> trace_print_location t;
     ty \<leftarrow> aget trace_type (unat type);
     rn \<leftarrow> arm_get_register_name r;
     Some (fprintf t (''Cycle '' @ print_d (sint cycle) @ '', Register '' @ ty @ '', '' @ rn @ mode_name @
       '', val: '' @ print_08X v @ newline))
   } else Some t)"

text \<open>The loop over the registers of a mode; \<open>count\<close> breaks the line after every five.\<close>

fun state_registers :: "registers \<Rightarrow> u8 \<Rightarrow> nat list \<Rightarrow> nat \<Rightarrow> string option" where
  "state_registers r mode [] count = Some []"
| "state_registers r mode (i # is) count = do {
     let break = (if 0 < count \<and> count mod 5 = 0 then newline @ ''    '' else '''');
     rn \<leftarrow> arm_get_register_name (of_nat i);
     v \<leftarrow> registers_read r (of_nat i) mode;
     rest \<leftarrow> state_registers r mode is (count + 1);
     Some (break @ ''   '' @ print_3s rn @ ''='' @ print_08X v @ rest)
   }"

fun state_modes :: "trace_state \<Rightarrow> registers \<Rightarrow> nat list \<Rightarrow> trace_state option" where
  "state_modes t r [] = Some t"
| "state_modes t r (mode # modes) = do {
     name \<leftarrow> arm_get_mode_name (of_nat mode);
     wanted \<leftarrow> aget (states t) mode;
     t \<leftarrow> (case name of
         Some n \<Rightarrow> if wanted \<noteq> 0 then do {
             regs \<leftarrow> state_registers r (of_nat mode) [0..<16] 0;
             cpsr \<leftarrow> registers_read_cpsr r;
             let spsr = registers_read_spsr r (of_nat mode);
             Some (fprintf t (n @ '':'' @ regs @ ''   CPSR='' @ print_08X cpsr @ ''   SPSR='' @ print_08X spsr @ newline))
           } else Some t
       | None \<Rightarrow> Some t);
     state_modes t r modes
   }"

definition trace_arm_state :: "trace_state \<Rightarrow> registers \<Rightarrow> trace_state option" where
  "trace_arm_state t r = (if traces t STATE then state_modes t r [0..<32] else Some t)"

section \<open>Selection\<close>

definition trace_disable :: "trace_state \<Rightarrow> trace_state" where
  "trace_disable t = t\<lparr>enabled := False\<rparr>"

definition trace_enable :: "trace_state \<Rightarrow> trace_state" where
  "trace_enable t = t\<lparr>enabled := True\<rparr>"

definition trace_add :: "trace_state \<Rightarrow> int \<Rightarrow> trace_state option" where
  "trace_add t flags = (if flags < 32 then
       (if 0 \<le> flags then do {
          ss \<leftarrow> aset (states t) (nat flags) 1;
          Some (t\<lparr>trace_flags := trace_flags t OR STATE, states := ss\<rparr>)
        } else Some t)
     else Some (t\<lparr>trace_flags := trace_flags t OR flags\<rparr>))"

section \<open>The log of the processor\<close>

text \<open>
  A call that the accessors have logged, and an access from a source file, which the macros of
  \<^verbatim>\<open>trace_location.h\<close> enclose in the two position functions.
\<close>

definition print_call :: "trace_state \<Rightarrow> trace_call \<Rightarrow> trace_state option" where
  "print_call t c = (case c of
     Trace_memory cycle type sz cause address v \<Rightarrow> trace_memory t cycle type sz cause address v
   | Trace_register cycle type r mode v \<Rightarrow> trace_register t cycle type r mode v
   | Trace_arm_state r \<Rightarrow> trace_arm_state t r)"


fun print_log :: "trace_state \<Rightarrow> trace_call list \<Rightarrow> trace_state option" where
  "print_log t [] = Some t"
| "print_log t (c # cs) = do { t \<leftarrow> print_call t c; print_log t cs }"

section \<open>Lines\<close>

abbreviation newlines :: "string \<Rightarrow> nat" where "newlines s \<equiv> count_list s (CHR 0x0A)"

lemma digit_char: "(k :: nat) < 10 \<Longrightarrow> char_of (48 + k) \<noteq> CHR 0x0A"
proof
  assume k: "k < 10" and "char_of (48 + k) = CHR 0x0A"
  then have "of_char (char_of (48 + k) :: char) = (10 :: nat)" by simp
  with k show False by simp
qed

lemma hex_char_clean: "k < 16 \<Longrightarrow> hex_char k \<noteq> CHR 0x0A"
proof
  assume k: "k < 16" and "hex_char k = CHR 0x0A"
  then have "of_char (hex_char k) = (10 :: nat)" by simp
  with k show False by (simp add: hex_char_def split: if_splits)
qed

lemma digits10_clean: "CHR 0x0A \<notin> set (digits10 n)"
proof (induction n rule: digits10.induct)
  case (1 n)
  then show ?case using digit_char [of n] digit_char [of "n mod 10"]
    by (subst digits10.simps) auto
qed

lemma no_newlines [simp]: "newlines (print_d n) = 0" "newlines (print_08X v) = 0"
  using digits10_clean hex_char_clean hex_char_clean [symmetric]
  by (auto simp: print_d_def print_08X_def count_list_0_iff dest!: digits_of_less)

lemma names_clean [simp]:
  "aget trace_type i = Some s \<Longrightarrow> newlines s = 0"
  "aget trace_memory_cause i = Some s \<Longrightarrow> newlines s = 0"
  by (auto simp: aget_def trace_type_def trace_memory_cause_def less_Suc_eq numeral_2_eq_2 nth_Cons'
      split: if_splits)

lemma register_name_clean: "arm_get_register_name r = Some s \<Longrightarrow> newlines s = 0"
proof -
  assume "arm_get_register_name r = Some s"
  then have "s \<in> set arm_register_names" by (auto simp: arm_get_register_name_def aget_def split: if_splits)
  then show ?thesis by (auto simp: arm_register_names_def)
qed

lemma mode_name_clean: "arm_get_mode_name m = Some (Some s) \<Longrightarrow> newlines s = 0"
proof -
  assume "arm_get_mode_name m = Some (Some s)"
  then have "Some s \<in> set arm_mode_names" by (auto simp: arm_get_mode_name_def aget_def split: if_splits)
      (metis length_tables(1) nth_mem)
  then show ?thesis by (auto simp: arm_mode_names_def)
qed

lemma newlines_3s [simp]: "newlines (print_3s s) = newlines s"
  by (simp add: print_3s_def)

section \<open>Accesses that the accessors can report\<close>

definition trace_wf :: "trace_state \<Rightarrow> bool" where
  "trace_wf t \<longleftrightarrow> length (location_file_stack t) = 128 \<and> length (location_line_stack t) = 128 \<and>
     -1 \<le> location_stack_top t \<and> location_stack_top t < 128 \<and> length (states t) = 32 \<and>
     (\<forall>i. int i \<le> location_stack_top t \<longrightarrow> (\<exists>f. location_file_stack t ! i = Some f \<and> CHR 0x0A \<notin> set f))"

lemma trace_initial_wf: "trace_wf trace_initial"
  by (simp add: trace_wf_def trace_initial_def)

text \<open>The states selected by \<^verbatim>\<open>--trace-state\<close>; each takes four lines of the file.\<close>

definition selected_modes :: "trace_state \<Rightarrow> nat list" where
  "selected_modes t = filter (\<lambda>m. arm_mode_names ! m \<noteq> None \<and> states t ! m \<noteq> 0) [0..<32]"

definition lines_of :: "trace_state \<Rightarrow> trace_call \<Rightarrow> nat" where
  "lines_of t c = (case c of
     Trace_memory cycle type sz cause address v \<Rightarrow> of_bool (traces t MEMORY)
   | Trace_register cycle type r mode v \<Rightarrow> of_bool (traces t REGISTERS)
   | Trace_arm_state r \<Rightarrow> if traces t STATE then 4 * length (selected_modes t) else 0)"

text \<open>
  The text of a report, written down independently of the functions that print it: \<open>pos\<close> is the source position in
  front of a line. A report whose option is off has no text.
\<close>

definition position_text :: "trace_state \<Rightarrow> string \<Rightarrow> int \<Rightarrow> string" where
  "position_text t src_file line = (if traces t POSITION then src_file @ '', '' @ print_d line @ '': '' else [])"

definition register_column :: "registers \<Rightarrow> nat \<Rightarrow> string" where
  "register_column r i = (if i \<in> {5, 10, 15} then newline @ ''    '' else []) @
     ''   '' @ print_3s (arm_register_names ! i) @ ''='' @ print_08X (regv r i)"

definition mode_text :: "registers \<Rightarrow> nat \<Rightarrow> string" where
  "mode_text r mode = the (arm_mode_names ! mode) @ '':'' @ concat (map (register_column r) [0..<16]) @
     ''   CPSR='' @ print_08X (regv r 16) @ ''   SPSR='' @ print_08X (-1) @ newline"

definition call_text :: "string \<Rightarrow> trace_state \<Rightarrow> trace_call \<Rightarrow> string" where
  "call_text pos t c = (case c of
     Trace_memory cycle type sz cause address v \<Rightarrow>
       if traces t MEMORY then pos @ ''Cycle '' @ print_d (sint cycle) @ '', Mem '' @
         (if type = 0 then ''write'' else ''read'') @ '' ('' @ print_d (uint sz) @ '' bytes'' @ (if cause = 0 then [] else '', fetch'') @
         '') addr: '' @ print_08X address @ '', val: '' @ print_08X v @ newline
       else []
   | Trace_register cycle type r mode v \<Rightarrow>
       if traces t REGISTERS then pos @ ''Cycle '' @ print_d (sint cycle) @ '', Register '' @
         (if type = 0 then ''write'' else ''read'') @ '', '' @ arm_register_names ! unat r @
         (case arm_mode_names ! unat mode of None \<Rightarrow> [] | Some n \<Rightarrow> CHR ''_'' # n) @ '', val: '' @ print_08X v @ newline
       else []
   | Trace_arm_state r \<Rightarrow> if traces t STATE then concat (map (mode_text r) (selected_modes t)) else [])"

text \<open>The position on top of the stack.\<close>

definition current_position :: "trace_state \<Rightarrow> string" where
  "current_position t = (if 0 \<le> location_stack_top t then
     position_text t (the (location_file_stack t ! nat (location_stack_top t))) (location_line_stack t ! nat (location_stack_top t))
   else [])"

text \<open>What printing changes: the text, and the last address.\<close>

definition same_setting :: "trace_state \<Rightarrow> trace_state \<Rightarrow> bool" where
  "same_setting t t' \<longleftrightarrow> enabled t' = enabled t \<and> location_file_stack t' = location_file_stack t \<and>
     location_line_stack t' = location_line_stack t \<and> location_stack_top t' = location_stack_top t \<and>
     trace_flags t' = trace_flags t \<and> states t' = states t"

lemma same_setting_keeps:
  "same_setting t t' \<Longrightarrow> trace_wf t' = trace_wf t" "same_setting t t' \<Longrightarrow> traces t' f = traces t f"
  "same_setting t t' \<Longrightarrow> selected_modes t' = selected_modes t" "same_setting t t' \<Longrightarrow> lines_of t' c = lines_of t c"
  by (auto simp: same_setting_def trace_wf_def traces_def selected_modes_def lines_of_def split: trace_call.split)

lemma print_location_wf:
  assumes "trace_wf t"
  shows "\<exists>t'. trace_print_location t = Some t' \<and> same_setting t t' \<and> newlines (printed t') = newlines (printed t)"
proof (cases "traces t POSITION \<and> 0 \<le> location_stack_top t")
  case True
  define i where "i = nat (location_stack_top t)"
  have i: "int i \<le> location_stack_top t" "i < 128" using assms True by (auto simp: i_def trace_wf_def)
  then obtain f where "location_file_stack t ! i = Some f" "CHR 0x0A \<notin> set f"
    using assms by (auto simp: trace_wf_def)
  with True i assms show ?thesis
    by (simp add: trace_print_location_def index_of_def trace_wf_def fprintf_def same_setting_def
        count_list_0_iff flip: i_def)
next
  case False
  then show ?thesis by (auto simp: trace_print_location_def same_setting_def)
qed

lemma trace_memory_wf:
  assumes "trace_wf t" "type \<le> 1" "cause \<le> 1"
  shows "\<exists>t'. trace_memory t cycle type sz cause address v = Some t' \<and> same_setting t t' \<and>
    newlines (printed t') = newlines (printed t) + of_bool (traces t MEMORY)"
proof (cases "traces t MEMORY")
  case False
  then show ?thesis by (simp add: trace_memory_def same_setting_def)
next
  case True
  let ?t = "t\<lparr>last_address := address\<rparr>"
  have "trace_wf ?t" using assms(1) by (simp add: trace_wf_def)
  from print_location_wf [OF this] obtain t' where t': "trace_print_location ?t = Some t'" "same_setting t t'"
    "newlines (printed t') = newlines (printed t)"
    by (auto simp: same_setting_def)
  have "unat type < length trace_type" "unat cause < length trace_memory_cause"
    using assms(2,3) by (simp_all add: trace_type_def trace_memory_cause_def word_le_nat_alt)
  then obtain ty ca where "aget trace_type (unat type) = Some ty" "aget trace_memory_cause (unat cause) = Some ca"
    by simp
  moreover from this have "newlines ty = 0" "newlines ca = 0" by simp_all
  ultimately show ?thesis
    using True t' by (simp add: trace_memory_def fprintf_def same_setting_def)
qed

lemma trace_register_wf:
  assumes "trace_wf t" "type \<le> 1" "r < 18" "mode < 32"
  shows "\<exists>t'. trace_register t cycle type r mode v = Some t' \<and> same_setting t t' \<and>
    newlines (printed t') = newlines (printed t) + of_bool (traces t REGISTERS)"
proof (cases "traces t REGISTERS")
  case False
  then show ?thesis by (simp add: trace_register_def same_setting_def)
next
  case True
  from print_location_wf [OF assms(1)] obtain t' where t': "trace_print_location t = Some t'" "same_setting t t'"
    "newlines (printed t') = newlines (printed t)" by blast
  have "unat type < length trace_type" "unat r < length arm_register_names" "unat mode < length arm_mode_names"
    using assms(2-4) by (simp_all add: trace_type_def word_le_nat_alt word_less_nat_alt)
  then obtain ty rn mn where n: "aget trace_type (unat type) = Some ty" "arm_get_register_name r = Some rn"
    "arm_get_mode_name mode = Some mn"
    by (simp add: arm_get_register_name_def arm_get_mode_name_def)
  have clean: "newlines ty = 0" "newlines rn = 0" using n(1,2) by (auto dest: register_name_clean)
  have "newlines (case mn of Some n \<Rightarrow> CHR ''_'' # n | None \<Rightarrow> '''') = 0"
    using n(3) by (auto dest: mode_name_clean split: option.split)
  with True t' n clean show ?thesis
    by (simp add: trace_register_def fprintf_def same_setting_def)
qed

lemma state_registers_lines:
  "regs_wf r \<Longrightarrow> \<forall>i \<in> set is. i < 16 \<Longrightarrow>
   \<exists>s. state_registers r mode is k = Some s \<and>
     newlines s = length (filter (\<lambda>c. 0 < c \<and> c mod 5 = 0) [k..<k + length is])"
proof (induction "is" arbitrary: k)
  case (Cons i "is")
  have i: "unat (of_nat i :: u8) = i" using Cons.prems(2) by (simp add: unat_of_nat)
  obtain rn where rn: "arm_get_register_name (of_nat i) = Some rn"
    using Cons.prems(2) by (simp add: arm_get_register_name_def i)
  obtain v where v: "registers_read r (of_nat i) mode = Some v"
    using Cons.prems registers_read_wf [of r "of_nat i" mode] by (simp add: i word_less_nat_alt)
  obtain s where s: "state_registers r mode is (k + 1) = Some s"
    "newlines s = length (filter (\<lambda>c. 0 < c \<and> c mod 5 = 0) [k + 1..<k + 1 + length is])"
    using Cons.IH [of "k + 1"] Cons.prems by auto
  have "[k..<k + length (i # is)] = k # [k + 1..<k + 1 + length is]" by (subst upt_conv_Cons) simp_all
  with s rn v register_name_clean [OF rn] show ?case by simp
qed simp

lemma sixteen_registers:
  assumes "regs_wf r"
  shows "\<exists>s. state_registers r mode [0..<16] 0 = Some s \<and> newlines s = 3"
proof -
  have "length (filter (\<lambda>c. 0 < c \<and> c mod 5 = 0) [0..<0 + length [0..<16 :: nat]]) = 3" by code_simp
  then show ?thesis using state_registers_lines [OF assms, of "[0..<16]" mode 0] by simp
qed

lemma state_modes_lines:
  "regs_wf r \<Longrightarrow> length (states t) = 32 \<Longrightarrow> \<forall>m \<in> set ms. m < 32 \<Longrightarrow>
   \<exists>t'. state_modes t r ms = Some t' \<and> same_setting t t' \<and>
     newlines (printed t') = newlines (printed t) +
       4 * length (filter (\<lambda>m. arm_mode_names ! m \<noteq> None \<and> states t ! m \<noteq> 0) ms)"
proof (induction ms arbitrary: t)
  case Nil
  then show ?case by (simp add: same_setting_def)
next
  case (Cons m ms)
  have m: "m < 32" "unat (of_nat m :: u8) = m" using Cons.prems(3) by (simp_all add: unat_of_nat)
  have name: "arm_get_mode_name (of_nat m) = Some (arm_mode_names ! m)"
    using m by (simp add: arm_get_mode_name_def)
  obtain regs where regs: "state_registers r (of_nat m) [0..<16] 0 = Some regs" "newlines regs = 3"
    using sixteen_registers [OF Cons.prems(1)] by blast
  obtain c where c: "registers_read_cpsr r = Some c"
    using Cons.prems(1) registers_read_cpsr_wf [of r] by auto
  let ?line = "\<lambda>n. fprintf t (n @ '':'' @ regs @ ''   CPSR='' @ print_08X c @ ''   SPSR='' @
      print_08X (registers_read_spsr r (of_nat m)) @ newline)"
  let ?one = "case arm_mode_names ! m of
      Some n \<Rightarrow> if states t ! m \<noteq> 0 then Some (?line n) else Some t
    | None \<Rightarrow> Some t"
  have unfold: "state_modes t r (m # ms) = Option.bind ?one (\<lambda>t. state_modes t r ms)"
    using m(1) Cons.prems(2) name regs c by (cases "arm_mode_names ! m") simp_all
  obtain t1 where t1: "?one = Some t1" "same_setting t t1"
    "newlines (printed t1) = newlines (printed t) +
       4 * of_bool (arm_mode_names ! m \<noteq> None \<and> states t ! m \<noteq> 0)"
  proof (cases "arm_mode_names ! m = None \<or> states t ! m = 0")
    case True
    then show thesis by (intro that [of t]) (auto simp: same_setting_def split: option.split)
  next
    case False
    then obtain n where "arm_mode_names ! m = Some n" "newlines n = 0"
      using mode_name_clean [of "of_nat m"] name by auto
    with False regs(2) show thesis by (intro that [of "?line n"]) (auto simp: same_setting_def fprintf_def)
  qed
  have st: "states t1 = states t" using t1(2) by (simp add: same_setting_def)
  obtain t2 where "state_modes t1 r ms = Some t2" "same_setting t1 t2"
    "newlines (printed t2) = newlines (printed t1) +
       4 * length (filter (\<lambda>m. arm_mode_names ! m \<noteq> None \<and> states t1 ! m \<noteq> 0) ms)"
    using Cons.IH [of t1] Cons.prems st by auto
  with t1 st unfold show ?case by (auto simp: same_setting_def)
qed

lemma print_call_wf:
  assumes "trace_wf t" "call_ok c"
  shows "\<exists>t'. print_call t c = Some t' \<and> same_setting t t' \<and>
    newlines (printed t') = newlines (printed t) + lines_of t c"
proof (cases c)
  case (Trace_memory cycle type sz cause address v)
  with trace_memory_wf [OF assms(1), of type cause cycle sz address v] assms(2) show ?thesis
    by (simp add: print_call_def call_ok_def lines_of_def)
next
  case (Trace_register cycle type r mode v)
  with trace_register_wf [OF assms(1), of type r mode cycle v] assms(2) show ?thesis
    by (simp add: print_call_def call_ok_def lines_of_def)
next
  case (Trace_arm_state r)
  with state_modes_lines [of r t "[0..<32]"] assms show ?thesis
    by (auto simp: print_call_def call_ok_def lines_of_def trace_arm_state_def trace_wf_def selected_modes_def
        same_setting_def)
qed

section \<open>The text\<close>

lemma print_location_text:
  assumes "trace_wf t"
  shows "trace_print_location t = Some (t\<lparr>printed := printed t @ current_position t\<rparr>)"
proof (cases "traces t POSITION \<and> 0 \<le> location_stack_top t")
  case True
  define i where "i = nat (location_stack_top t)"
  have i: "int i \<le> location_stack_top t" "i < 128" using assms True by (auto simp: i_def trace_wf_def)
  then obtain f where "location_file_stack t ! i = Some f" using assms by (auto simp: trace_wf_def)
  with True i assms show ?thesis
    by (simp add: trace_print_location_def index_of_def trace_wf_def fprintf_def current_position_def position_text_def flip: i_def)
qed (auto simp: trace_print_location_def current_position_def position_text_def)

lemma type_names:
  fixes type cause :: u8
  shows "type \<le> 1 \<Longrightarrow> aget trace_type (unat type) = Some (if type = 0 then ''write'' else ''read'')"
    "cause \<le> 1 \<Longrightarrow> aget trace_memory_cause (unat cause) = Some (if cause = 0 then [] else '', fetch'')"
proof -
  have one: "w = 0 \<or> w = 1" if "w \<le> 1" for w :: u8
  proof -
    have "unat w \<le> 1" using that by (simp add: word_le_nat_alt)
    then have "unat w = 0 \<or> unat w = 1" by linarith
    then show ?thesis by (simp add: word_unat_eq_iff)
  qed
  have names: "aget trace_type 0 = Some ''write''" "aget trace_type 1 = Some ''read''" "aget trace_memory_cause 0 = Some []"
    "aget trace_memory_cause 1 = Some '', fetch''"
    by (simp_all add: trace_type_def trace_memory_cause_def aget_def)
  show "aget trace_type (unat type) = Some (if type = 0 then ''write'' else ''read'')" if "type \<le> 1"
    using one [OF that] names(1,2) by (elim disjE) (simp_all only: unat_0 unat_1, simp_all)
  show "aget trace_memory_cause (unat cause) = Some (if cause = 0 then [] else '', fetch'')" if "cause \<le> 1"
    using one [OF that] names(3,4) by (elim disjE) (simp_all only: unat_0 unat_1, simp_all)
qed

lemma registers_text:
  assumes "regs_wf r"
  shows "i \<le> 16 \<Longrightarrow> state_registers r mode [i..<16] i = Some (concat (map (register_column r) [i..<16]))"
proof (induction "16 - i" arbitrary: i)
  case (Suc n)
  then have i: "i < 16" "n = 16 - Suc i" by simp_all
  have u: "unat (of_nat i :: u8) = i" using i(1) by (simp add: unat_of_nat)
  have name: "arm_get_register_name (of_nat i) = Some (arm_register_names ! i)" using i(1) by (simp add: arm_get_register_name_def u)
  have v: "registers_read r (of_nat i) mode = Some (regv r i)"
    using assms i(1) registers_read_wf [of r "of_nat i" mode] by (simp add: u word_less_nat_alt)
  have break: "(0 < i \<and> i mod 5 = 0) = (i \<in> {5, 10, 15})"
  proof -
    have "list_all (\<lambda>i. (0 < i \<and> i mod 5 = 0) = (i \<in> {5, 10, 15})) [0..<16 :: nat]" by code_simp
    with i(1) show ?thesis by (simp add: list_all_iff)
  qed
  have "[i..<16] = i # [Suc i..<16]" using i(1) by (rule upt_conv_Cons)
  with Suc.hyps(1) [OF i(2)] i(1) show ?case
    by (simp add: name v break Let_def register_column_def del: insert_iff)
qed simp

lemma modes_text:
  "regs_wf r \<Longrightarrow> length (states t) = 32 \<Longrightarrow> \<forall>m \<in> set ms. m < 32 \<Longrightarrow> state_modes t r ms = Some t' \<Longrightarrow>
   printed t' = printed t @ concat (map (mode_text r) (filter (\<lambda>m. arm_mode_names ! m \<noteq> None \<and> states t ! m \<noteq> 0) ms))"
proof (induction ms arbitrary: t)
  case (Cons m ms)
  have m: "m < 32" "unat (of_nat m :: u8) = m" using Cons.prems(3) by (simp_all add: unat_of_nat)
  have name: "arm_get_mode_name (of_nat m) = Some (arm_mode_names ! m)" using m by (simp add: arm_get_mode_name_def)
  have regs: "state_registers r (of_nat m) [0..<16] 0 = Some (concat (map (register_column r) [0..<16]))"
    using registers_text [OF Cons.prems(1), of 0] by blast
  have c: "registers_read_cpsr r = Some (regv r 16)" using Cons.prems(1) by (rule registers_read_cpsr_wf)
  let ?t = "if arm_mode_names ! m \<noteq> None \<and> states t ! m \<noteq> 0 then fprintf t (mode_text r m) else t"
  have "state_modes t r (m # ms) = state_modes ?t r ms"
    using m(1) Cons.prems(2) by (auto simp: name regs c mode_text_def registers_read_spsr_def split: option.split simp del: upt_rec_numeral)
  moreover have "states ?t = states t" by (simp add: fprintf_def)
  ultimately show ?case using Cons.IH [of ?t] Cons.prems by (auto simp: fprintf_def)
qed simp

lemma print_call_text:
  assumes "trace_wf t" "call_ok c" "print_call t c = Some t'"
  shows "printed t' = printed t @ call_text (current_position t) t c"
proof (cases c)
  case (Trace_memory cycle type sz cause address v)
  have "trace_wf (t\<lparr>last_address := address\<rparr>)" using assms(1) by (simp add: trace_wf_def)
  note loc = print_location_text [OF this]
  have "current_position (t\<lparr>last_address := address\<rparr>) = current_position t" by (simp add: current_position_def position_text_def traces_def)
  with Trace_memory assms(2,3) show ?thesis
    by (auto simp: print_call_def call_ok_def trace_memory_def call_text_def loc type_names fprintf_def split: if_splits)
next
  case (Trace_register cycle type r mode v)
  then have ok: "type \<le> 1" "r < 18" "mode < 32" using assms(2) by (simp_all add: call_ok_def)
  then have n: "arm_get_register_name r = Some (arm_register_names ! unat r)" "arm_get_mode_name mode = Some (arm_mode_names ! unat mode)"
    by (simp_all add: arm_get_register_name_def arm_get_mode_name_def word_less_nat_alt)
  with Trace_register assms(3) show ?thesis
    by (auto simp: print_call_def trace_register_def call_text_def print_location_text [OF assms(1)] type_names [OF ok(1)] fprintf_def
        split: if_splits option.splits)
next
  case (Trace_arm_state r)
  with modes_text [of r t "[0..<32]" t'] assms show ?thesis
    by (auto simp: print_call_def call_ok_def trace_arm_state_def call_text_def trace_wf_def selected_modes_def)
qed

lemma call_text_setting:
  assumes "states t' = states t" "trace_flags t' = trace_flags t" "enabled t' = enabled t"
  shows "call_text pos t' = call_text pos t" "position_text t' = position_text t"
proof -
  have "traces t' = traces t" "selected_modes t' = selected_modes t"
    using assms by (auto simp: traces_def selected_modes_def)
  then show "call_text pos t' = call_text pos t" "position_text t' = position_text t"
    by (auto simp: call_text_def position_text_def fun_eq_iff split: trace_call.split)
qed

text \<open>What is not asked for has no text, and a line that is has one line break, or four for a mode.\<close>

lemma call_text_lines:
  assumes "trace_wf t" "call_ok c"
  shows "newlines (call_text (current_position t) t c) = lines_of t c"
proof -
  obtain t' where "print_call t c = Some t'" "newlines (printed t') = newlines (printed t) + lines_of t c"
    using print_call_wf [OF assms] by blast
  with print_call_text [OF assms] show ?thesis by simp
qed

section \<open>Accesses with their positions\<close>



lemma lines_of_setting:
  assumes "states t' = states t" "trace_flags t' = trace_flags t" "enabled t' = enabled t"
  shows "lines_of t' = lines_of t"
proof -
  have "traces t' = traces t" "selected_modes t' = selected_modes t"
    using assms by (auto simp: traces_def selected_modes_def)
  then have "lines_of t' c = lines_of t c" for c by (cases c) (simp_all add: lines_of_def)
  then show ?thesis by blast
qed






text \<open>
  The option \<^verbatim>\<open>--trace-state\<close> with the name of a mode turns the printing of the processor
  state on and adds exactly that mode to those printed; any other name is looked up as -1 and
  changes nothing, without a message.
\<close>

lemma trace_add_mode:
  assumes "length (states t) = 32"
  shows "\<exists>t'. trace_add t (arm_get_mode_number name) = Some t' \<and>
    (if Some name \<in> set arm_mode_names then t' = t\<lparr>trace_flags := trace_flags t OR STATE, states := states t'\<rparr> \<and>
       length (states t') = 32 \<and>
       set (selected_modes t') = insert (nat (arm_get_mode_number name)) (set (selected_modes t)) \<and>
       arm_mode_names ! nat (arm_get_mode_number name) = Some name
     else t' = t)"
proof -
  let ?n = "arm_get_mode_number name"
  have "?n = -1 \<or> 0 \<le> ?n \<and> ?n < 32 \<and> arm_mode_names ! nat ?n = Some name"
    using mode_number_loop_result [of name arm_mode_names 0 ?n] by (simp add: arm_get_mode_number_def)
  then show ?thesis
  proof
    assume n: "?n = -1"
    then have "Some name \<notin> set arm_mode_names"
      using mode_number_loop_None by (simp add: arm_get_mode_number_def)
    with n show ?thesis by (simp add: trace_add_def)
  next
    assume n: "0 \<le> ?n \<and> ?n < 32 \<and> arm_mode_names ! nat ?n = Some name"
    let ?t = "t\<lparr>trace_flags := trace_flags t OR STATE, states := (states t)[nat ?n := 1]\<rparr>"
    from n have lt: "nat ?n < 32" by linarith
    then have "trace_add t ?n = Some ?t" using n assms by (simp add: trace_add_def)
    moreover have "Some name \<in> set arm_mode_names" using n lt by (metis length_tables(1) nth_mem)
    moreover have "set (selected_modes ?t) = insert (nat ?n) (set (selected_modes t))"
      using n lt assms by (auto simp: selected_modes_def nth_list_update)
    ultimately show ?thesis using n assms by simp
  qed
qed



section \<open>The trace of a run\<close>

lemma print_log_wf:
  "trace_wf t \<Longrightarrow> list_all call_ok cs \<Longrightarrow> \<exists>t'. print_log t cs = Some t' \<and> trace_wf t' \<and>
     printed t' = printed t @ concat (map (call_text (current_position t) t) cs) \<and>
     newlines (printed t') = newlines (printed t) + (\<Sum>c \<leftarrow> cs. lines_of t c)"
proof (induction cs arbitrary: t)
  case (Cons c cs)
  then obtain t1 where t1: "print_call t c = Some t1" "same_setting t t1"
    "newlines (printed t1) = newlines (printed t) + lines_of t c"
    using print_call_wf [of t c] by auto
  have wf: "trace_wf t1" using same_setting_keeps(1) [OF t1(2)] Cons.prems(1) by simp
  have same: "states t1 = states t" "trace_flags t1 = trace_flags t" "enabled t1 = enabled t"
    using t1(2) by (simp_all add: same_setting_def)
  have "lines_of t1 = lines_of t" by (rule lines_of_setting [OF same])
  moreover have "current_position t1 = current_position t"
    using t1(2) call_text_setting(2) [OF same] by (simp add: current_position_def same_setting_def)
  moreover have "printed t1 = printed t @ call_text (current_position t) t c"
    using print_call_text [OF Cons.prems(1) _ t1(1)] Cons.prems(2) by simp
  ultimately show ?case using Cons.IH [OF wf] Cons.prems(2) t1 call_text_setting(1) [OF same] by auto
qed simp

text \<open>
  (C19) The calls of the trace are well typed: in every run, whatever instructions it executes, each
  access that is reported has an access type and a cause that have a name, a register that exists, and a
  mode number below 32, so that printing the report never reads outside the tables of names; and what it
  prints are exactly the lines that the options ask for, in the order of the accesses, and nothing else (here all
  behind one position, the current one of \<open>t\<close>; positions of their own are the matter of \<open>trace_lines\<close>).
\<close>

theorem run_calls_well_typed:
  assumes "runs n p rs q" "core_wf p" "trace_wf t"
  shows "\<exists>cs t'. trace q = cs @ trace p \<and> list_all call_ok cs \<and> print_log t (rev cs) = Some t' \<and>
    printed t' = printed t @ concat (map (call_text (current_position t) t) (rev cs)) \<and>
    newlines (printed t') = newlines (printed t) + (\<Sum>c \<leftarrow> rev cs. lines_of t c)"
proof -
  from runs_keep [OF assms(1,2)] obtain cs where cs: "trace q = cs @ trace p" "list_all call_ok cs"
    by (auto simp: logged_def)
  then have "list_all call_ok (rev cs)" by (simp add: list_all_iff)
  from print_log_wf [OF assms(3) this] cs show ?thesis by blast
qed

theorem run_calls_well_typed_witness:
  "\<exists>q cs t'. runs 1 (program_core 0xEF 1) [7] q \<and> trace q = cs @ trace (program_core 0xEF 1) \<and>
     print_log (trace_initial\<lparr>trace_flags := MEMORY\<rparr>) (rev cs) = Some t'"
proof -
  obtain q where q: "runs 1 (program_core 0xEF 1) [7] q" using program_runs by blast
  have "trace_wf (trace_initial\<lparr>trace_flags := MEMORY\<rparr>)" by (simp add: trace_wf_def trace_initial_def)
  from run_calls_well_typed [OF q _ this] q show ?thesis by auto
qed

end
