(* ===== verification/Sim_Debug.thy ===== *)
theory Sim_Debug
  imports C_Prelude "HOL-Library.List_Lexorder"
begin

text \<open>
  \<^verbatim>\<open>debug.c\<close>: the table of the source files whose debugging messages are shown, a sorted
  array of at most 64 names that \<open>add_debug_to\<close> extends (option \<^verbatim>\<open>--debug\<close>) and that every
  message searches by bisection, and the printing of binary data. A name is the list of its bytes
  without the terminating zero.
\<close>

section \<open>Names and their order\<close>

datatype file_name = Name (chars: "u8 list")

text \<open>The sign of the result of \<open>strcmp\<close>; the bytes are compared as unsigned numbers.\<close>

fun strcmp :: "u8 list \<Rightarrow> u8 list \<Rightarrow> int" where
  "strcmp [] [] = 0"
| "strcmp [] (d # ds) = -1"
| "strcmp (c # cs) [] = 1"
| "strcmp (c # cs) (d # ds) = (if c = d then strcmp cs ds else if c < d then -1 else 1)"

lemma strcmp_less: "strcmp cs ds < 0 \<longleftrightarrow> cs < ds"
  by (induction cs ds rule: strcmp.induct) auto

lemma strcmp_greater: "0 < strcmp cs ds \<longleftrightarrow> ds < cs"
  by (induction cs ds rule: strcmp.induct) (auto simp: not_less_iff_gr_or_eq)

lemma strcmp_eq_0: "strcmp cs ds = 0 \<longleftrightarrow> cs = ds"
  by (induction cs ds rule: strcmp.induct) auto

text \<open>The names are ordered by \<open>strcmp\<close>, so the sorted lists of the library apply to the table.\<close>

instantiation file_name :: linorder
begin

definition less_eq_file_name :: "file_name \<Rightarrow> file_name \<Rightarrow> bool" where
  "x \<le> y \<longleftrightarrow> strcmp (chars x) (chars y) \<le> 0"

definition less_file_name :: "file_name \<Rightarrow> file_name \<Rightarrow> bool" where
  "x < y \<longleftrightarrow> strcmp (chars x) (chars y) < 0"

instance
proof
  fix x y z :: file_name
  have le: "u \<le> v \<longleftrightarrow> chars u \<le> chars v" for u v :: file_name
    using strcmp_greater [of "chars u" "chars v"] by (auto simp: less_eq_file_name_def not_less [symmetric])
  have less: "u < v \<longleftrightarrow> chars u < chars v" for u v :: file_name
    by (simp add: less_file_name_def strcmp_less)
  show "x < y \<longleftrightarrow> x \<le> y \<and> \<not> y \<le> x" by (auto simp: le less)
  show "x \<le> x" by (simp add: le)
  show "x \<le> y \<Longrightarrow> y \<le> z \<Longrightarrow> x \<le> z" by (auto simp: le)
  show "x \<le> y \<Longrightarrow> y \<le> x \<Longrightarrow> x = y" by (simp add: le file_name.expand)
  show "x \<le> y \<or> y \<le> x" by (auto simp: le)
qed

end

section \<open>The table\<close>

definition MAX_FILES_NUMBER :: nat where "MAX_FILES_NUMBER = 64"

text \<open>The array holds null pointers until it is filled.\<close>

record debug_table =
  debugged_files :: "file_name option list"
  nb_debugged_files :: nat

definition debug_start :: debug_table where
  "debug_start = \<lparr>debugged_files = replicate MAX_FILES_NUMBER None, nb_debugged_files = 0\<rparr>"

text \<open>\<open>strcmp(debugged_files[i], name)\<close>: reading outside the array or through a null pointer is undefined.\<close>

definition strcmp_at :: "file_name option list \<Rightarrow> nat \<Rightarrow> file_name \<Rightarrow> int option" where
  "strcmp_at fs i name = do { f \<leftarrow> aget fs i; f \<leftarrow> f; Some (strcmp (chars f) (chars name)) }"

function place_loop :: "file_name option list \<Rightarrow> nat \<Rightarrow> nat \<Rightarrow> file_name \<Rightarrow> nat option" where
  "place_loop fs nb i name =
     (if i < nb \<and> i < MAX_FILES_NUMBER then do {
        r \<leftarrow> strcmp_at fs i name;
        if r < 0 then place_loop fs nb (i + 1) name else Some i
      } else Some i)"
  by pat_completeness auto

termination
  by (relation "measure (\<lambda>(fs, nb, i, name). nb - i)") auto

declare place_loop.simps [simp del]

text \<open>The loop that moves the names from index \<open>i\<close> on one place up, from index \<open>j\<close> downwards.\<close>

fun move_loop :: "file_name option list \<Rightarrow> nat \<Rightarrow> nat \<Rightarrow> file_name option list option" where
  "move_loop fs i 0 = Some fs"
| "move_loop fs i (Suc j) = (if i < Suc j then do {
     f \<leftarrow> aget fs j;
     fs \<leftarrow> aset fs (Suc j) f;
     move_loop fs i j
   } else Some fs)"

definition add_debug_to :: "debug_table \<Rightarrow> file_name \<Rightarrow> debug_table option" where
  "add_debug_to d name = do {
     i \<leftarrow> place_loop (debugged_files d) (nb_debugged_files d) 0 name;
     if MAX_FILES_NUMBER \<le> i then Some d
     else do {
       fs \<leftarrow> move_loop (debugged_files d) i (nb_debugged_files d);
       fs \<leftarrow> aset fs i (Some name);
       Some (d\<lparr>debugged_files := fs, nb_debugged_files := nb_debugged_files d + 1\<rparr>)
     }
   }"

text \<open>The bisection; the bounds are C \<open>int\<close>s and \<open>stop\<close> may become -1.\<close>

function search_loop :: "file_name option list \<Rightarrow> int \<Rightarrow> int \<Rightarrow> file_name \<Rightarrow> (bool \<times> int \<times> int) option" where
  "search_loop fs start stop name =
     (if start < stop then do {
        let middle = (start + stop) div 2;
        r \<leftarrow> strcmp_at fs (nat middle) name;
        if r < 0 then search_loop fs (middle + 1) stop name
        else if 0 < r then search_loop fs start (middle - 1) name
        else Some (True, start, stop)
      } else Some (False, start, stop))"
  by pat_completeness auto

termination
  by (relation "measure (\<lambda>(fs, start, stop, name). nat (stop - start))") auto

declare search_loop.simps [simp del]

definition is_debugged :: "debug_table \<Rightarrow> file_name \<Rightarrow> int option" where
  "is_debugged d name = do {
     (found, start, stop) \<leftarrow> search_loop (debugged_files d) 0 (int (nb_debugged_files d) - 1) name;
     if found then Some 1
     else if start = stop then do {
       r \<leftarrow> strcmp_at (debugged_files d) (nat start) name;
       Some (of_bool (r = 0))
     } else Some 0
   }"

text \<open>
  Binary data as text: the bytes that are not printable become dots. The parameter is a C \<open>int\<close>
  that the loop counts down to 0.
\<close>

definition isprint :: "u8 \<Rightarrow> bool" where
  "isprint c \<longleftrightarrow> 32 \<le> c \<and> c < 127"

fun debug_raw_binary :: "u8 list \<Rightarrow> nat \<Rightarrow> u8 list option" where
  "debug_raw_binary data 0 = Some []"
| "debug_raw_binary [] (Suc len) = None"
| "debug_raw_binary (c # data) (Suc len) = do {
     out \<leftarrow> debug_raw_binary data len;
     Some ((if isprint c then c else of_char CHR ''.'') # out)
   }"

section \<open>The table holds a sorted list\<close>

definition debug_holds :: "debug_table \<Rightarrow> file_name list \<Rightarrow> bool" where
  "debug_holds d xs \<longleftrightarrow> length (debugged_files d) = MAX_FILES_NUMBER \<and> nb_debugged_files d = length xs \<and>
     length xs \<le> MAX_FILES_NUMBER \<and> sorted xs \<and> take (length xs) (debugged_files d) = map Some xs"

lemma debug_start_holds: "debug_holds debug_start []"
  by (simp add: debug_holds_def debug_start_def)

lemma debug_holdsD:
  assumes "debug_holds d xs"
  shows "length (debugged_files d) = 64" "nb_debugged_files d = length xs" "length xs \<le> 64" "sorted xs"
    "i < length xs \<Longrightarrow> debugged_files d ! i = Some (xs ! i)"
    "debugged_files d = map Some xs @ drop (length xs) (debugged_files d)"
proof -
  show "length (debugged_files d) = 64" "nb_debugged_files d = length xs" "length xs \<le> 64" "sorted xs"
    using assms by (simp_all add: debug_holds_def MAX_FILES_NUMBER_def)
  have take: "take (length xs) (debugged_files d) = map Some xs" using assms by (simp add: debug_holds_def)
  show "debugged_files d = map Some xs @ drop (length xs) (debugged_files d)"
    using append_take_drop_id [of "length xs" "debugged_files d"] take by simp
  then show "i < length xs \<Longrightarrow> debugged_files d ! i = Some (xs ! i)"
    by (metis length_map nth_append nth_map)
qed

lemma strcmp_at_holds:
  assumes "debug_holds d xs" "i < length xs"
  shows "\<exists>r. strcmp_at (debugged_files d) i name = Some r \<and> (r < 0 \<longleftrightarrow> xs ! i < name) \<and>
    (0 < r \<longleftrightarrow> name < xs ! i) \<and> (r = 0 \<longleftrightarrow> xs ! i = name)"
  using debug_holdsD(1,3) [OF assms(1)] debug_holdsD(5) [OF assms] assms(2)
  by (auto simp: strcmp_at_def less_file_name_def strcmp_greater strcmp_less strcmp_eq_0 file_name.expand)

lemma place_loop_holds:
  assumes "debug_holds d xs"
  shows "i \<le> length xs \<Longrightarrow> place_loop (debugged_files d) (length xs) i name =
    Some (i + length (takeWhile (\<lambda>x. x < name) (drop i xs)))"
proof (induction "length xs - i" arbitrary: i)
  case 0
  then show ?case by (simp add: place_loop.simps)
next
  case (Suc n)
  then have i: "i < length xs" by simp
  then have "i < MAX_FILES_NUMBER" using debug_holdsD(3) [OF assms] by (simp add: MAX_FILES_NUMBER_def)
  moreover obtain r where "strcmp_at (debugged_files d) i name = Some r" "r < 0 \<longleftrightarrow> xs ! i < name"
    using strcmp_at_holds [OF assms i] by blast
  moreover have "drop i xs = xs ! i # drop (Suc i) xs" using i by (simp add: Cons_nth_drop_Suc)
  ultimately show ?case
    using Suc.hyps(1) [of "Suc i"] Suc.hyps(2) i by (simp add: place_loop.simps [of _ _ i])
qed

lemma move_loop_room:
  "\<exists>fs. move_loop (a @ b @ c # rest) (length a) (length a + length b) = Some fs \<and>
     length fs = Suc (length a + length b + length rest) \<and> fs[length a := x] = a @ x # b @ rest"
proof (induction b arbitrary: c rest rule: rev_induct)
  case Nil
  then show ?case by (cases a) auto
next
  case (snoc y b)
  have "(a @ (b @ [y]) @ c # rest)[Suc (length a + length b) := y] = a @ b @ y # y # rest"
    by (simp add: list_update_append)
  moreover have "(a @ (b @ [y]) @ c # rest) ! (length a + length b) = y"
    by (simp add: nth_append)
  ultimately show ?case using snoc.IH [of y "y # rest"] by simp
qed

lemma move_loop_full:
  "i < length fs \<Longrightarrow> move_loop fs i (length fs) = None"
  by (cases "length fs") (simp_all add: aset_def)

lemma insort_takeWhile:
  "insort x xs = takeWhile (\<lambda>y. y < x) xs @ x # dropWhile (\<lambda>y. y < x) xs"
  by (induction xs) auto

lemma add_debug_to_holds:
  assumes d: "debug_holds d xs"
  shows "if length xs < 64 then \<exists>d'. add_debug_to d name = Some d' \<and> debug_holds d' (insort name xs)
    else add_debug_to d name = (if \<forall>x \<in> set xs. x < name then Some d else None)"
proof -
  note D = debug_holdsD(1-4,6) [OF d]
  let ?a = "takeWhile (\<lambda>x. x < name) xs" and ?b = "dropWhile (\<lambda>x. x < name) xs"
  have ab: "length xs = length ?a + length ?b" by (metis length_append takeWhile_dropWhile_id)
  have place: "place_loop (debugged_files d) (nb_debugged_files d) 0 name = Some (length ?a)"
    using place_loop_holds [OF d, of 0 name] D by simp
  show ?thesis
  proof (cases "length xs < 64")
    case True
    then obtain c rest where rest: "drop (length xs) (debugged_files d) = c # rest"
      using D(1) by (cases "drop (length xs) (debugged_files d)") auto
    have fs: "debugged_files d = map Some ?a @ map Some ?b @ c # rest"
      using D(5) by (simp add: rest flip: map_append append_assoc)
    obtain fs where "move_loop (debugged_files d) (length ?a) (length xs) = Some fs"
      "length fs = 64" "fs[length ?a := Some name] = map Some ?a @ Some name # map Some ?b @ rest"
      using move_loop_room [of "map Some ?a" "map Some ?b" c rest "Some name"] D(1) by (auto simp: fs ab)
    then have "add_debug_to d name = Some (d\<lparr>debugged_files := map Some ?a @ Some name # map Some ?b @ rest,
      nb_debugged_files := length xs + 1\<rparr>)"
      using True D(2) place ab by (simp add: add_debug_to_def MAX_FILES_NUMBER_def)
    moreover have "debug_holds (d\<lparr>debugged_files := map Some ?a @ Some name # map Some ?b @ rest,
      nb_debugged_files := length xs + 1\<rparr>) (insort name xs)"
      using True D(1) sorted_insort [of name xs] D(4) ab fs
      by (simp add: debug_holds_def MAX_FILES_NUMBER_def insort_takeWhile)
    ultimately show ?thesis using True by simp
  next
    case False
    then have n: "length xs = 64" using D(3) by simp
    show ?thesis
    proof (cases "\<forall>x \<in> set xs. x < name")
      case True
      then have "length ?a = 64" using n by (metis takeWhile_eq_all_conv)
      then have "add_debug_to d name = Some d"
        by (simp add: add_debug_to_def MAX_FILES_NUMBER_def place)
      then show ?thesis using True n by simp
    next
      case some: False
      then have "?b \<noteq> []" by (simp add: dropWhile_eq_Nil_conv)
      then have a: "length ?a < 64" using n ab by (cases ?b) auto
      then have "move_loop (debugged_files d) (length ?a) 64 = None"
        using move_loop_full [of "length ?a" "debugged_files d"] D(1) by simp
      then have "add_debug_to d name = None"
        using a by (simp add: add_debug_to_def MAX_FILES_NUMBER_def place) (simp add: n D(2))
      then show ?thesis using some n by simp
    qed
  qed
qed

text \<open>The bisection keeps every occurrence of the name between its bounds.\<close>

lemma search_loop_holds:
  assumes d: "debug_holds d xs"
  shows "0 \<le> start \<Longrightarrow> stop < int (length xs) \<Longrightarrow>
    (name \<in> set xs \<Longrightarrow> \<exists>i. start \<le> int i \<and> int i \<le> stop \<and> xs ! i = name) \<Longrightarrow>
    \<exists>found s t. search_loop (debugged_files d) start stop name = Some (found, s, t) \<and>
      (if found then name \<in> set xs
       else 0 \<le> s \<and> t < int (length xs) \<and> (name \<in> set xs \<longrightarrow> s = t \<and> xs ! nat s = name))"
proof (induction "nat (stop - start)" arbitrary: start stop rule: less_induct)
  case less
  note sorted = debug_holdsD(4) [OF d]
  show ?case
  proof (cases "start < stop")
    case False
    have "s = t \<and> xs ! nat s = name" if st: "s = start" "t = stop" "name \<in> set xs" for s t
    proof -
      obtain i where "start \<le> int i" "int i \<le> stop" "xs ! i = name" using less.prems(3) [OF st(3)] by blast
      with st False have "start = int i" "stop = int i" by auto
      with st \<open>xs ! i = name\<close> show ?thesis by simp
    qed
    then show ?thesis using False less.prems
      by (intro exI [of _ False] exI [of _ start] exI [of _ stop]) (simp add: search_loop.simps [of _ start])
  next
    case True
    define m where "m = nat ((start + stop) div 2)"
    have m: "(start + stop) div 2 = int m" "start \<le> int m" "int m < stop"
      using True less.prems(1) by (auto simp: m_def)
    have len: "m < length xs" using m less.prems(2) by linarith
    obtain r where r: "strcmp_at (debugged_files d) m name = Some r" "r < 0 \<longleftrightarrow> xs ! m < name"
      "0 < r \<longleftrightarrow> name < xs ! m" "r = 0 \<longleftrightarrow> xs ! m = name"
      using strcmp_at_holds [OF d len] by blast
    have unfold: "search_loop (debugged_files d) start stop name =
      (if r < 0 then search_loop (debugged_files d) (int m + 1) stop name
       else if 0 < r then search_loop (debugged_files d) start (int m - 1) name
       else Some (True, start, stop))"
      using True r(1) by (simp add: search_loop.simps [of _ start] m(1))
    have above: "m < i" if "xs ! m < name" "xs ! i = name" "i < length xs" for i
      using sorted_nth_mono [OF sorted, of i m] that len by (metis leD leI)
    have below: "i < m" if "name < xs ! m" "xs ! i = name" "i < length xs" for i
      using sorted_nth_mono [OF sorted, of m i] that len by (metis leD leI)
    have within: "i < length xs" if "int i \<le> stop" for i using that less.prems(2) by linarith
    consider "r < 0" | "0 < r" | "r = 0" by linarith
    then show ?thesis
    proof cases
      case 1
      have "\<exists>i. int m + 1 \<le> int i \<and> int i \<le> stop \<and> xs ! i = name" if mem: "name \<in> set xs"
      proof -
        obtain i where i: "int i \<le> stop" "xs ! i = name" using less.prems(3) [OF mem] by blast
        with above [OF _ i(2) within [OF i(1)]] r(2) 1 show ?thesis by (intro exI [of _ i]) simp
      qed
      then show ?thesis
        using less.hyps [of stop "int m + 1"] less.prems(2) m 1 unfold by simp
    next
      case 2
      have "\<exists>i. start \<le> int i \<and> int i \<le> int m - 1 \<and> xs ! i = name" if mem: "name \<in> set xs"
      proof -
        obtain i where i: "start \<le> int i" "int i \<le> stop" "xs ! i = name" using less.prems(3) [OF mem] by blast
        with below [OF _ i(3) within [OF i(2)]] r(3) 2 show ?thesis by (intro exI [of _ i]) simp
      qed
      then show ?thesis
        using less.hyps [of "int m - 1" start] less.prems(1,2) m 2 unfold by simp
    next
      case 3
      then show ?thesis using unfold r(4) len by (auto simp: in_set_conv_nth)
    qed
  qed
qed

lemma is_debugged_holds:
  assumes d: "debug_holds d xs"
  shows "is_debugged d name = Some (of_bool (name \<in> set xs))"
proof -
  have "\<exists>i. 0 \<le> int i \<and> int i \<le> int (length xs) - 1 \<and> xs ! i = name" if "name \<in> set xs"
    using that by (force simp: in_set_conv_nth)
  from search_loop_holds [OF d order_refl _ this] obtain found s t where
    s: "search_loop (debugged_files d) 0 (int (length xs) - 1) name = Some (found, s, t)"
      "if found then name \<in> set xs
       else 0 \<le> s \<and> t < int (length xs) \<and> (name \<in> set xs \<longrightarrow> s = t \<and> xs ! nat s = name)" by auto
  show ?thesis
  proof (cases "\<not> found \<and> s = t")
    case True
    then have n: "nat s < length xs" using s(2) by auto
    from strcmp_at_holds [OF d n, of name] obtain r where
      "strcmp_at (debugged_files d) (nat s) name = Some r" "r = 0 \<longleftrightarrow> xs ! nat s = name" by blast
    moreover have "name \<in> set xs \<longleftrightarrow> xs ! nat s = name" using s(2) True n by auto
    ultimately show ?thesis using s True debug_holdsD(2) [OF d] by (auto simp: is_debugged_def)
  next
    case False
    then show ?thesis using s debug_holdsD(2) [OF d] by (auto simp: is_debugged_def split: if_splits)
  qed
qed

section \<open>Properties\<close>

text \<open>The options \<^verbatim>\<open>--debug\<close> of a command line, in their order.\<close>

fun debug_options :: "file_name list \<Rightarrow> debug_table \<Rightarrow> debug_table option" where
  "debug_options [] d = Some d"
| "debug_options (name # names) d = do { d \<leftarrow> add_debug_to d name; debug_options names d }"

lemma debug_options_holds:
  "debug_holds d xs \<Longrightarrow> length xs + length names \<le> 64 \<Longrightarrow>
   \<exists>d' ys. debug_options names d = Some d' \<and> debug_holds d' ys \<and> set ys = set xs \<union> set names"
proof (induction names arbitrary: d xs)
  case (Cons name names)
  obtain d1 where d1: "add_debug_to d name = Some d1" "debug_holds d1 (insort name xs)"
    using add_debug_to_holds [OF Cons.prems(1), of name] Cons.prems(2) by auto
  from Cons.IH [OF d1(2)] Cons.prems(2) d1(1) show ?case by (auto simp: set_insort_key)
qed auto

text \<open>
  With at most 64 options \<^verbatim>\<open>--debug\<close>, in any order and with repetitions, the messages of a
  source file are shown exactly when one of the options names it: the array stays sorted, and the
  bisection never reads outside its filled part.
\<close>

lemma debug_files_found:
  assumes "length names \<le> 64"
  shows "\<exists>d. debug_options names debug_start = Some d \<and>
    (\<forall>name. is_debugged d name = Some (of_bool (name \<in> set names)))"
  using debug_options_holds [OF debug_start_holds, of names] assms is_debugged_holds by fastforce

text \<open>
  When 64 names are registered, one more option is ignored if its name comes after all of them,
  and writes past the end of the array otherwise, because the number of names is not tested before
  the names are moved.
\<close>

lemma debug_table_overflow:
  assumes "debug_holds d xs" "length xs = 64"
  shows "add_debug_to d name = (if \<forall>x \<in> set xs. x < name then Some d else None)"
  using add_debug_to_holds [OF assms(1), of name] assms(2) by simp

definition full_table :: debug_table where
  "full_table = \<lparr>debugged_files = replicate 64 (Some (Name [98])), nb_debugged_files = 64\<rparr>"

lemma debug_table_overflow_example:
  "add_debug_to full_table (Name [97]) = None \<and> add_debug_to full_table (Name [99]) = Some full_table"
proof -
  have h: "debug_holds full_table (replicate 64 (Name [98]))"
    by (simp add: debug_holds_def full_table_def MAX_FILES_NUMBER_def)
  have "Name [98] < Name [99]" "\<not> Name [98] < Name [97]"
    by (simp_all add: less_file_name_def)
  then show ?thesis using debug_table_overflow [OF h] by simp
qed

end
