(* ===== verification/Sim_Program.thy ===== *)
theory Sim_Program
  imports Gdb_Invariant Sim_Trace Sim_Debug
begin

text \<open>
  The two programs: the simulator, \<^verbatim>\<open>arm_simulator.c\<close>, with its options, the creation of the
  processor and its two threads, and \<^verbatim>\<open>send_irq.c\<close>, which sends it exceptions.

  The options are read from the letters and arguments that \<open>getopt_long\<close> returns (which is modelled in
  \<open>Sim_Getopt\<close>); a null \<open>optarg\<close> is \<open>None\<close>. The sockets are those of the operating system: a connection is the stream
  of the bytes read from it. The usage texts are not modelled.
\<close>

section \<open>Options of the simulator\<close>

record simulator_options =
  gdb_port :: u16
  irq_port :: u16
  trace_file :: "string option"
  tracing :: trace_state
  debugging :: debug_table

text \<open>A program ends with an exit status or goes on.\<close>

datatype 'a status_or = Exits nat | Runs 'a

definition default_options :: simulator_options where
  "default_options = \<lparr>gdb_port = 0, irq_port = 0, trace_file = None, tracing = trace_initial, debugging = debug_start\<rparr>"

text \<open>One turn of the loop over the options; \<open>opens\<close> tells which files can be opened for writing.\<close>

definition read_option ::
  "(string \<Rightarrow> bool) \<Rightarrow> simulator_options \<Rightarrow> char \<Rightarrow> string option \<Rightarrow> simulator_options status_or option" where
  "read_option opens sim opt optarg =
     (if opt = CHR ''g'' then do { s \<leftarrow> optarg; v \<leftarrow> atoi (bytes s @ [0]); Some (Runs (sim\<lparr>gdb_port := word_of_int v\<rparr>)) }
      else if opt = CHR ''i'' then do { s \<leftarrow> optarg; v \<leftarrow> atoi (bytes s @ [0]); Some (Runs (sim\<lparr>irq_port := word_of_int v\<rparr>)) }
      else if opt = CHR ''h'' then Some (Exits 0)
      else if opt = CHR ''t'' then do {
        s \<leftarrow> optarg;
        Some (if opens s then Runs (sim\<lparr>trace_file := Some s\<rparr>) else Exits 1)
      }
      else if opt = CHR ''r'' then do { t \<leftarrow> trace_add (tracing sim) REGISTERS; Some (Runs (sim\<lparr>tracing := t\<rparr>)) }
      else if opt = CHR ''m'' then do { t \<leftarrow> trace_add (tracing sim) MEMORY; Some (Runs (sim\<lparr>tracing := t\<rparr>)) }
      else if opt = CHR ''s'' then do {
        s \<leftarrow> optarg;
        t \<leftarrow> trace_add (tracing sim) (arm_get_mode_number s);
        Some (Runs (sim\<lparr>tracing := t\<rparr>))
      }
      else if opt = CHR ''p'' then do { t \<leftarrow> trace_add (tracing sim) POSITION; Some (Runs (sim\<lparr>tracing := t\<rparr>)) }
      else if opt = CHR ''d'' then do {
        s \<leftarrow> optarg;
        t \<leftarrow> add_debug_to (debugging sim) (Name (bytes s));
        Some (Runs (sim\<lparr>debugging := t\<rparr>))
      }
      else Some (Exits 1))"

fun read_options ::
  "(string \<Rightarrow> bool) \<Rightarrow> simulator_options \<Rightarrow> (char \<times> string option) list \<Rightarrow> simulator_options status_or option" where
  "read_options opens sim [] = Some (Runs sim)"
| "read_options opens sim ((opt, optarg) # opts) = do {
     r \<leftarrow> read_option opens sim opt optarg;
     case r of Exits n \<Rightarrow> Some (Exits n) | Runs sim \<Rightarrow> read_options opens sim opts
   }"

section \<open>Start and threads\<close>

text \<open>
  The allocations may fail: \<open>got_mem\<close>, \<open>block\<close>, \<open>got_regs\<close> and \<open>got_arm\<close> say whether they do and what
  the memory contains. Without a memory \<open>arm_create\<close> asks a null pointer for its size.
\<close>

definition simulator_start :: "bool \<Rightarrow> u8 list option \<Rightarrow> bool \<Rightarrow> bool \<Rightarrow> u32 \<Rightarrow> arm_core option option" where
  "simulator_start got_mem block got_regs got_arm u = (
     case memory_create got_mem block 0x8000 of
       Some m \<Rightarrow> arm_create got_arm u (registers_create got_regs) m
     | None \<Rightarrow> if got_arm then None else Some None)"

text \<open>
  \<open>irq_listener\<close>: every byte of every connection is an exception for the processor. \<open>us\<close> gives the
  uninitialised local of the k-th call of \<open>arm_exception\<close>.
\<close>

fun irq_connection :: "(nat \<Rightarrow> u32) \<Rightarrow> nat \<Rightarrow> arm_core \<Rightarrow> u8 list \<Rightarrow> (nat \<times> arm_core) option" where
  "irq_connection us k p [] = Some (k, p)"
| "irq_connection us k p (irq # irqs) = do {
     (r, p) \<leftarrow> arm_exception (us k) p irq;
     irq_connection us (k + 1) p irqs
   }"

fun irq_listener :: "(nat \<Rightarrow> u32) \<Rightarrow> nat \<Rightarrow> arm_core \<Rightarrow> u8 list list \<Rightarrow> (nat \<times> arm_core) option" where
  "irq_listener us k p [] = Some (k, p)"
| "irq_listener us k p (c # cs) = do {
     (k, p) \<leftarrow> irq_connection us k p c;
     irq_listener us k p cs
   }"

text \<open>
  The two threads: the scanner goes from one jump to the next, and the interrupt listener raises an
  exception in between. The mutex is held while a handler runs, so a whole action is one step, and an
  exception that arrives during a \<open>cont\<close> waits until the processor stops.
\<close>

definition with_core :: "'w yy_next_label \<Rightarrow> arm_core \<Rightarrow> 'w yy_next_label" where
  "with_core x a = (case x of
     Goto label g d w \<Rightarrow> Goto label g (d\<lparr>gdb := (gdb d)\<lparr>arm := a\<rparr>\<rparr>) w
   | Return d w \<Rightarrow> Return (d\<lparr>gdb := (gdb d)\<lparr>arm := a\<rparr>\<rparr>) w)"

inductive sim_step ::
  "'w reader \<Rightarrow> (nat \<Rightarrow> u8 list) \<Rightarrow> (nat \<Rightarrow> gdb_junk) \<Rightarrow> nat \<Rightarrow> 'w yy_next_label \<Rightarrow> 'w yy_next_label \<Rightarrow> bool"
  for rd alloc jk fuel where
  scan_step: "yy_step rd alloc jk fuel label g d w = Some (Continue x) \<Longrightarrow> sim_step rd alloc jk fuel (Goto label g d w) x"
| irq_step: "arm_exception u (arm (gdb (next_data x))) irq = Some (r, a) \<Longrightarrow> sim_step rd alloc jk fuel x (with_core x a)"

inductive_cases sim_stepE: "sim_step rd alloc jk fuel x y"

section \<open>Sending an exception\<close>

text \<open>
  The loop of \<^verbatim>\<open>send_irq.c\<close> over the names of the exceptions, from \<open>irq\<close> on; an inner \<open>None\<close>
  is the null pointer that ends it.
\<close>

lemma exception_name_less:
  "arm_get_exception_name irq = Some (Some n) \<Longrightarrow> irq < 8"
  by (simp add: arm_get_exception_name_def split: if_splits)

function irq_number :: "string \<Rightarrow> u8 \<Rightarrow> u8 option option" where
  "irq_number name irq = do {
     irq_name \<leftarrow> arm_get_exception_name irq;
     case irq_name of
       Some n \<Rightarrow> if n \<noteq> name then irq_number name (irq + 1) else Some (Some irq)
     | None \<Rightarrow> Some None
   }"
  by auto

termination
proof (relation "measure (\<lambda>(name, irq). 8 - unat irq)")
  fix name :: string and irq x n assume "arm_get_exception_name irq = Some x" "x = Some n"
  then have l: "irq < 8" using exception_name_less by simp
  then have "unat (irq + 1) = unat irq + 1" by (simp add: unat_word_ariths word_less_nat_alt)
  with l show "((name, irq + 1), (name, irq)) \<in> measure (\<lambda>(name, irq). 8 - unat irq)"
    by (simp add: word_less_nat_alt)
qed simp

declare irq_number.simps [simp del]

text \<open>\<open>main\<close> on its arguments \<open>argv\<close>, up to the byte it writes to the connection.\<close>

definition send_irq :: "string list \<Rightarrow> u8 status_or option" where
  "send_irq argv =
     (if length argv < 3 then Some (Exits 1)
      else if length argv < 4 then Some (Runs (word_of_int INTERRUPT))
      else do {
        r \<leftarrow> irq_number (argv ! 3) (word_of_int RESET);
        Some (case r of Some irq \<Rightarrow> Runs irq | None \<Rightarrow> Exits 2)
      })"

section \<open>The interleaved threads\<close>

lemma next_data_with_core [simp]:
  "next_data (with_core x a) = (next_data x)\<lparr>gdb := (gdb (next_data x))\<lparr>arm := a\<rparr>\<rparr>"
  by (cases x) (simp_all add: with_core_def next_data_def)

lemma parser_wf_core:
  "parser_wf n d \<Longrightarrow> core_wf a \<Longrightarrow> taille (mem a) = n \<Longrightarrow> parser_wf n (d\<lparr>gdb := (gdb d)\<lparr>arm := a\<rparr>\<rparr>)"
  by (simp add: parser_wf_def gdb_wf_update)

lemma sim_step_wf:
  assumes "sim_step rd alloc jk fuel x y" "parser_wf n (next_data x)"
  shows "parser_wf n (next_data y)"
  using assms(1)
proof cases
  case scan_step
  with assms(2) yy_step_data show ?thesis by (auto simp: next_data_def)
next
  case (irq_step u irq r a)
  have "core_wf (arm (gdb (next_data x)))" "taille (mem (arm (gdb (next_data x)))) = n"
    using assms(2) by (simp_all add: parser_wf_def gdb_wf_def)
  with arm_exception_wf [OF this(1) irq_step(2)] show ?thesis
    by (simp add: irq_step(1) parser_wf_core [OF assms(2)])
qed

lemma simulation_wf:
  "(sim_step rd alloc jk fuel)\<^sup>*\<^sup>* x y \<Longrightarrow> parser_wf n (next_data x) \<Longrightarrow> parser_wf n (next_data y)"
  by (induction rule: rtranclp_induct) (auto intro: sim_step_wf)

text \<open>The processor and the debugger as the program creates them.\<close>

lemma simulator_start_wf:
  assumes "simulator_start got_mem (Some block) True got_arm u = Some (Some a)" "length block = 0x8000"
  shows "core_wf a \<and> taille (mem a) = 0x8000 \<and> gpr a 15 = 0 \<and> gpr a 13 = 0x8000 \<and> cpsr a = 0x1d3"
proof -
  let ?m = "\<lparr>mem_value = Some block, taille = 0x8000\<rparr>"
  let ?p = "\<lparr>cycle_count = 0, reg = registers_create True, mem = ?m, trace = [], console = []\<rparr>"
  have wf: "core_wf ?p" using assms(2) by (simp add: core_wf_def mem_wf_def registers_create_wf del: core_wf_sel)
  have "arm_create got_arm u (registers_create True) ?m = Some (Some a)"
    using assms(1) by (auto simp: simulator_start_def memory_create_def split: if_splits)
  then show ?thesis
    using wf by (auto simp: arm_create_def exception_defs arm_exception_reset memory_get_size_def core_simps CPSR_Reserved_Mask_def
        split: if_splits)
qed

lemma started:
  assumes "length block = 0x8000"
  shows "\<exists>a. simulator_start True (Some block) True True u = Some (Some a)"
proof -
  let ?p = "\<lparr>cycle_count = 0, reg = registers_create True, mem = \<lparr>mem_value = Some block, taille = 0x8000\<rparr>, trace = [],
    console = []\<rparr>"
  have "core_wf ?p" using assms by (simp add: core_wf_def mem_wf_def registers_create_wf del: core_wf_sel)
  then show ?thesis
    by (simp add: simulator_start_def memory_create_def arm_create_def exception_defs arm_exception_reset
        memory_get_size_def core_simps)
qed

text \<open>A debugger that has been allocated, with whatever its arrays contain.\<close>

lemma debugger_start_wf:
  assumes "gdb_init_data got a pkt bps fails = Some g" "core_wf a" "length pkt = MAX_PACKET_SIZE" "length bps = MAX_BREAKPOINTS_NUMBER"
  shows "gdb_wf (taille (mem a)) g"
  using assms by (auto simp: gdb_init_data_def gdb_wf_def bp_wf_def bp_list_def split: if_splits)

section \<open>Exceptions by name\<close>

lemma irq_number_step:
  "arm_get_exception_name irq = Some (Some n) \<Longrightarrow>
   irq_number name irq = (if n = name then Some (Some irq) else irq_number name (irq + 1))"
  by (subst irq_number.simps) simp

lemma irq_number_end: "arm_get_exception_name irq = Some None \<Longrightarrow> irq_number name irq = Some None"
  by (subst irq_number.simps) simp

lemma exception_name_values:
  "arm_get_exception_name 1 = Some (Some ''reset'')" "arm_get_exception_name 2 = Some (Some ''data abort'')"
  "arm_get_exception_name 3 = Some (Some ''fast interrupt'')" "arm_get_exception_name 4 = Some (Some ''interrupt'')"
  "arm_get_exception_name 5 = Some (Some ''imprecise abort'')" "arm_get_exception_name 6 = Some (Some ''prefetch abort'')"
  "arm_get_exception_name 7 = Some (Some ''undefined instruction'')" "arm_get_exception_name 8 = Some None"
  by (simp_all add: arm_get_exception_name_def arm_exception_names_def)

lemma irq_number_eval: "irq_number name 1 =
  Some (if name = ''reset'' then Some 1 else if name = ''data abort'' then Some 2 else if name = ''fast interrupt'' then Some 3
    else if name = ''interrupt'' then Some 4 else if name = ''imprecise abort'' then Some 5
    else if name = ''prefetch abort'' then Some 6 else if name = ''undefined instruction'' then Some 7 else None)"
  by (simp add: irq_number_step [OF exception_name_values(1)] irq_number_step [OF exception_name_values(2)]
      irq_number_step [OF exception_name_values(3)] irq_number_step [OF exception_name_values(4)]
      irq_number_step [OF exception_name_values(5)] irq_number_step [OF exception_name_values(6)]
      irq_number_step [OF exception_name_values(7)] irq_number_end [OF exception_name_values(8)])

section \<open>Options\<close>

lemma flag_bits: "(x :: int) AND MEMORY \<noteq> 0 \<longleftrightarrow> bit x 5" "x AND REGISTERS \<noteq> 0 \<longleftrightarrow> bit x 6"
  "x AND STATE \<noteq> 0 \<longleftrightarrow> bit x 7" "x AND POSITION \<noteq> 0 \<longleftrightarrow> bit x 8"
  using and_exp_eq_0_iff_not_bit [of x 5] and_exp_eq_0_iff_not_bit [of x 6] and_exp_eq_0_iff_not_bit [of x 7]
    and_exp_eq_0_iff_not_bit [of x 8] by (simp_all add: MEMORY_def REGISTERS_def STATE_def POSITION_def)

lemma flag_values: "bit MEMORY n = (n = 5)" "bit REGISTERS n = (n = 6)" "bit STATE n = (n = 7)" "bit POSITION n = (n = 8)"
  using bit_exp_iff [of 5 n, where 'a = int] bit_exp_iff [of 6 n, where 'a = int] bit_exp_iff [of 7 n, where 'a = int]
    bit_exp_iff [of 8 n, where 'a = int]
  by (auto simp: MEMORY_def REGISTERS_def STATE_def POSITION_def)

lemma mode_number_of_name: "i < 32 \<Longrightarrow> arm_mode_names ! i = Some n \<Longrightarrow> arm_get_mode_number n = int i"
proof -
  have "list_all (\<lambda>i. case arm_mode_names ! i of None \<Rightarrow> True | Some n \<Rightarrow> arm_get_mode_number n = int i) [0..<32]"
    by code_simp
  then show "i < 32 \<Longrightarrow> arm_mode_names ! i = Some n \<Longrightarrow> arm_get_mode_number n = int i"
    by (force simp: list_all_iff)
qed

lemma bytes_inj: "bytes s = bytes t \<longleftrightarrow> s = t"
proof
  have "inj (of_char :: char \<Rightarrow> u8)"
  proof (rule injI)
    fix c d :: char assume "(of_char c :: u8) = of_char d"
    then have "unat (of_char c :: u8) = unat (of_char d :: u8)" by simp
    moreover have "unat (of_char e :: u8) = of_char e" for e
    proof -
      have "(of_char e :: u8) = of_nat (of_char e)" by (rule of_nat_of_char [symmetric])
      then show ?thesis by (simp add: unat_of_nat take_bit_nat_eq_self)
    qed
    ultimately show "c = d" by (simp add: of_char_eq_iff)
  qed
  then show "bytes s = bytes t \<Longrightarrow> s = t" by (auto simp: bytes_def inj_map_eq_map)
qed simp

text \<open>What the options read so far have set; \<open>xs\<close> are the files whose messages are shown.\<close>

definition settings :: "(char \<times> string option) list \<Rightarrow> simulator_options \<Rightarrow> file_name list \<Rightarrow> bool" where
  "settings opts sim xs \<longleftrightarrow> enabled (tracing sim) \<and> length (states (tracing sim)) = 32 \<and>
     bit (trace_flags (tracing sim)) 5 = (CHR ''m'' \<in> fst ` set opts) \<and>
     bit (trace_flags (tracing sim)) 6 = (CHR ''r'' \<in> fst ` set opts) \<and>
     bit (trace_flags (tracing sim)) 8 = (CHR ''p'' \<in> fst ` set opts) \<and>
     bit (trace_flags (tracing sim)) 7 = (\<exists>n. (CHR ''s'', Some n) \<in> set opts \<and> Some n \<in> set arm_mode_names) \<and>
     (\<forall>i < 32. i \<in> set (selected_modes (tracing sim)) \<longleftrightarrow> (\<exists>n. (CHR ''s'', Some n) \<in> set opts \<and> arm_mode_names ! i = Some n)) \<and>
     debug_holds (debugging sim) xs \<and> set xs = {Name (bytes n) |n. (CHR ''d'', Some n) \<in> set opts} \<and>
     length xs \<le> length (filter (\<lambda>x. fst x = CHR ''d'') opts)"

lemma default_settings: "settings [] default_options []"
proof -
  have "set (selected_modes trace_initial) = {}" by (auto simp: selected_modes_def trace_initial_def)
  then show ?thesis
    using debug_start_holds by (simp add: settings_def default_options_def trace_initial_def)
qed

definition plain_option :: "char \<times> string option \<Rightarrow> bool" where
  "plain_option x \<longleftrightarrow> fst x \<in> {CHR ''m'', CHR ''r'', CHR ''p''} 
\<or> fst x \<in> {CHR ''s'', CHR ''d''} \<and> snd x \<noteq> None"

lemma selected_modes_flags [simp]: "selected_modes (t\<lparr>trace_flags := f\<rparr>) = selected_modes t"
  by (simp add: selected_modes_def)

lemma flag_settings:
  assumes "settings opts sim xs" "(c, f) \<in> {(CHR ''m'', MEMORY), (CHR ''r'', REGISTERS), (CHR ''p'', POSITION)}"
  shows "settings (opts @ [(c, a)]) (sim\<lparr>tracing := (tracing sim)\<lparr>trace_flags := trace_flags (tracing sim) OR f\<rparr>\<rparr>) xs"
  using assms(2) assms(1) [unfolded settings_def]
  by (elim insertE emptyE; simp add: settings_def bit_or_iff flag_values)

lemma mode_settings:
  assumes "settings opts sim xs"
  shows "\<exists>t. trace_add (tracing sim) (arm_get_mode_number n) = Some t \<and>
    settings (opts @ [(CHR ''s'', Some n)]) (sim\<lparr>tracing := t\<rparr>) xs"
proof -
  have "length (states (tracing sim)) = 32" using assms by (simp add: settings_def)
  from trace_add_mode [OF this, of n] obtain t where t: "trace_add (tracing sim) (arm_get_mode_number n) = Some t"
    "if Some n \<in> set arm_mode_names then
       t = (tracing sim)\<lparr>trace_flags := trace_flags (tracing sim) OR STATE, states := states t\<rparr> \<and> length (states t) = 32 \<and>
       set (selected_modes t) = insert (nat (arm_get_mode_number n)) (set (selected_modes (tracing sim))) \<and>
       arm_mode_names ! nat (arm_get_mode_number n) = Some n
     else t = tracing sim" by blast
  have "settings (opts @ [(CHR ''s'', Some n)]) (sim\<lparr>tracing := t\<rparr>) xs"
  proof (cases "Some n \<in> set arm_mode_names")
    case False
    then have "arm_mode_names ! i \<noteq> Some n" if "i < 32" for i using that by (metis length_tables(1) nth_mem)
    then have "(\<exists>n'. (n' = n \<or> (CHR ''s'', Some n') \<in> set opts) \<and> arm_mode_names ! i = Some n') \<longleftrightarrow>
        (\<exists>n'. (CHR ''s'', Some n') \<in> set opts \<and> arm_mode_names ! i = Some n')" if "i < 32" for i
      using that by metis
    moreover have "(\<exists>n'. (n' = n \<or> (CHR ''s'', Some n') \<in> set opts) \<and> Some n' \<in> set arm_mode_names) \<longleftrightarrow>
        (\<exists>n'. (CHR ''s'', Some n') \<in> set opts \<and> Some n' \<in> set arm_mode_names)"
      using False by metis
    ultimately show ?thesis using False t(2) assms by (simp add: settings_def)
  next
    case True
    then obtain k where k: "k < 32" "arm_mode_names ! k = Some n" by (metis in_set_conv_nth length_tables(1))
    note num = mode_number_of_name [OF k]
    have sel: "i \<in> set (selected_modes t) \<longleftrightarrow> arm_mode_names ! i = Some n \<or> i \<in> set (selected_modes (tracing sim))"
      if "i < 32" for i
      using True t(2) num mode_number_of_name [OF that] k by auto
    obtain flags: "trace_flags t = trace_flags (tracing sim) OR STATE" "enabled t = enabled (tracing sim)" "length (states t) = 32"
    proof -
      have "t = (tracing sim)\<lparr>trace_flags := trace_flags (tracing sim) OR STATE, states := states t\<rparr>" "length (states t) = 32"
        using True t(2) by simp_all
      from arg_cong [OF this(1), of trace_flags] arg_cong [OF this(1), of enabled] this(2) that show thesis by simp
    qed
    have "\<exists>n'. (CHR ''s'', Some n') \<in> set (opts @ [(CHR ''s'', Some n)]) \<and> Some n' \<in> set arm_mode_names" using True by auto
    with assms sel flags show ?thesis by (auto simp: settings_def bit_or_iff flag_values)
  qed
  with t(1) show ?thesis by blast
qed

lemma option_settings:
  assumes "settings opts sim xs" "plain_option (c, a)" "length (filter (\<lambda>x. fst x = CHR ''d'') (opts @ [(c, a)])) \<le> 64"
  shows "\<exists>sim' ys. read_option opens sim c a = Some (Runs sim') \<and> settings (opts @ [(c, a)]) sim' ys"
proof -
  consider (flag) f where "(c, f) \<in> {(CHR ''m'', MEMORY), (CHR ''r'', REGISTERS), (CHR ''p'', POSITION)}"
    | (mode) n where "c = CHR ''s''" "a = Some n" | (debug) n where "c = CHR ''d''" "a = Some n"
    using assms(2) by (auto simp: plain_option_def)
  then show ?thesis
  proof cases
    case flag
    from flag have "read_option opens sim c a =
        Some (Runs (sim\<lparr>tracing := (tracing sim)\<lparr>trace_flags := trace_flags (tracing sim) OR f\<rparr>\<rparr>))"
      by (elim insertE emptyE; simp add: read_option_def trace_add_def MEMORY_def REGISTERS_def POSITION_def)
    with flag_settings [OF assms(1) flag] show ?thesis by blast
  next
    case mode
    with mode_settings [OF assms(1), of n] show ?thesis by (auto simp: read_option_def)
  next
    case debug
    have h: "debug_holds (debugging sim) xs" "length xs < 64"
      using assms(1,3) debug by (auto simp: settings_def)
    obtain d where d: "add_debug_to (debugging sim) (Name (bytes n)) = Some d" "debug_holds d (insort (Name (bytes n)) xs)"
      using add_debug_to_holds [OF h(1), of "Name (bytes n)"] h(2) by auto
    have "settings (opts @ [(c, a)]) (sim\<lparr>debugging := d\<rparr>) (insort (Name (bytes n)) xs)"
      using assms(1) debug d(2) by (auto simp: settings_def set_insort_key)
    with debug d(1) show ?thesis by (auto simp: read_option_def)
  qed
qed

section \<open>The effect of exceptions\<close>

text \<open>What a reset leaves: the memory and the other registers are kept.\<close>

definition reset_of :: "arm_core \<Rightarrow> arm_core \<Rightarrow> bool" where
  "reset_of p q \<longleftrightarrow> core_wf q \<and> gpr q 15 = 0 \<and> cpsr q = 0x1d3 \<and> (\<forall>i < 15. gpr q i = gpr p i) \<and> mem q = mem p \<and>
     console q = console p \<and> cycle_count q = cycle_count p"

lemma reset_of_trans: "reset_of p q \<Longrightarrow> reset_of q r \<Longrightarrow> reset_of p r"
  by (simp add: reset_of_def)

lemma reset_effect:
  assumes "core_wf p"
  shows "\<exists>q. arm_exception u p 1 = Some (1, q) \<and> reset_of p q"
  unfolding arm_exception_reset [OF assms]
  using assms by (auto simp: reset_of_def CPSR_Reserved_Mask_def)

lemma irq_connection_effect:
  "core_wf p \<Longrightarrow> 8 \<notin> set irqs \<Longrightarrow> \<exists>q. irq_connection us k p irqs = Some (k + length irqs, q) \<and>
     (if 1 \<in> set irqs then reset_of p q else q = p)"
proof (induction irqs arbitrary: k p)
  case (Cons irq irqs)
  have rest: "8 \<notin> set irqs" "irq \<noteq> 8" using Cons.prems(2) by auto
  show ?case
  proof (cases "irq = 1")
    case True
    obtain p1 where p1: "arm_exception (us k) p 1 = Some (1, p1)" "reset_of p p1"
      using reset_effect [OF Cons.prems(1)] by blast
    then have "core_wf p1" by (simp add: reset_of_def)
    from Cons.IH [OF this rest(1), of "k + 1"] obtain q where
      q: "irq_connection us (k + 1) p1 irqs = Some (k + 1 + length irqs, q)" "if 1 \<in> set irqs then reset_of p1 q else q = p1"
      by blast
    have "reset_of p q" using q(2) p1(2) reset_of_trans by (auto split: if_splits)
    with p1(1) q(1) True show ?thesis by simp
  next
    case False
    then have "uint irq \<noteq> RESET" "uint irq \<noteq> SOFTWARE_INTERRUPT"
      using rest(2) by (simp_all add: exception_defs word_uint_eq_iff)
    then have "arm_exception (us k) p irq = Some (uint irq, p)" by (rule arm_exception_other)
    with Cons.IH [OF Cons.prems(1) rest(1), of "k + 1"] False show ?thesis by auto
  qed
qed simp

section \<open>Properties\<close>

text \<open>
  (C1) The simulator from its start: 32 KiB of memory with any content, the processor reset with the
  stack pointer at the end of the memory, a debugger with uninitialised arrays, and then the two
  threads in any interleaving, whatever bytes the debugger and the senders of exceptions transmit. As long as the program
  runs and has done nothing undefined (an \<open>m\<close> request of 2046 bytes or more leaves the packet buffer, see
  \<open>read_memory_bounds\<close>), in
  every state that is reached the processor is well formed and the memory has its size, the
  breakpoints are sorted and at most 1024, the
  code of the last step is 0, UNDEFINED_INSTRUCTION or 255, and the buffer for characters outside of packets has room:
  neither to add another one nor to report them accesses memory outside it.
\<close>

theorem simulator_invariant:
  assumes "simulator_start True (Some block) True got_arm u = Some (Some a)" "length block = 0x8000"
    "gdb_init_data got a pkt bps fails = Some g" "length pkt = MAX_PACKET_SIZE" "length bps = MAX_BREAKPOINTS_NUMBER"
    "length buf = MAX_ERROR_SIZE"
    "(sim_step rd alloc jk fuel)\<^sup>*\<^sup>* (Goto Scan st \<lparr>gdb = g, buffer = buf, len = 0, packets = 0, echoed = []\<rparr> w) x"
  shows "core_wf (arm (gdb (next_data x))) \<and> taille (mem (arm (gdb (next_data x)))) = 0x8000 \<and>
    bp_wf (gdb (next_data x)) \<and> target_exception (gdb (next_data x)) \<in> {0, 7, 255} \<and>
    (\<forall>c. add_character_to_error (next_data x) c \<noteq> None) \<and> handle_error (next_data x) \<noteq> None"
proof -
  have a: "core_wf a" "taille (mem a) = 0x8000" using simulator_start_wf [OF assms(1,2)] by simp_all
  from debugger_start_wf [OF assms(3) a(1) assms(4,5)] a(2) assms(6)
  have "parser_wf 0x8000 (next_data (Goto Scan st \<lparr>gdb = g, buffer = buf, len = 0, packets = 0, echoed = []\<rparr> w))"
    by (simp add: parser_wf_def next_data_def MAX_ERROR_SIZE_def)
  from simulation_wf [OF assms(7) this] have "parser_wf 0x8000 (next_data x)" .
  from this add_character_defined [OF this] handle_error_defined [OF this] show ?thesis
    by (simp add: parser_wf_def gdb_wf_def)
qed

text \<open>
  (C33) An exception from \<^verbatim>\<open>send_irq\<close> to the processor: the program sends the number of the
  exception that its fourth argument names (an unknown name, and \<open>software interrupt\<close>, end it with
  status 2; without a name it sends an interrupt), the listener passes it on, and the processor is
  reset when the name is \<open>reset\<close>. All other exceptions leave the processor exactly as it was.
\<close>

theorem exception_by_name:
  assumes "core_wf p" "3 \<le> length argv"
  shows "case send_irq argv of
      Some (Runs irq) \<Rightarrow> arm_exception_names ! unat irq = Some (if length argv = 3 then ''interrupt'' else argv ! 3) \<and>
        (\<exists>q. irq_listener us k p [[irq]] = Some (k + 1, q) \<and>
          (if length argv > 3 \<and> argv ! 3 = ''reset'' then reset_of p q else q = p))
    | Some (Exits status) \<Rightarrow> status = 2 \<and> length argv > 3 \<and> Some (argv ! 3) \<notin> set (take 8 arm_exception_names)
    | None \<Rightarrow> False"
proof -
  have listen: "\<exists>q. irq_listener us k p [[irq]] = Some (k + 1, q) \<and> (if irq = 1 then reset_of p q else q = p)"
    if "irq \<noteq> 8" for irq
    using irq_connection_effect [OF assms(1), of "[irq]" us k] that by auto
  show ?thesis
  proof (cases "length argv = 3")
    case True
    then have "send_irq argv = Some (Runs 4)" by (simp add: send_irq_def INTERRUPT_def)
    with True listen [of 4] show ?thesis by (simp add: arm_exception_names_def)
  next
    case False
    then have "send_irq argv = map_option (case_option (Exits 2) Runs) (irq_number (argv ! 3) 1)"
      using assms(2) by (cases "irq_number (argv ! 3) 1") (auto simp: send_irq_def RESET_def split: option.split)
    with False assms(2) show ?thesis
      using listen [of 1] listen [of 2] listen [of 3] listen [of 4] listen [of 5] listen [of 6] listen [of 7]
      by (simp add: irq_number_eval arm_exception_names_def del: irq_listener.simps)
  qed
qed

theorem exception_by_name_witness:
  "\<exists>q. send_irq [''send_irq'', ''localhost'', ''4242'', ''reset''] = Some (Runs 1) \<and>
     irq_listener (\<lambda>k. 0) 0 sample_core [[1]] = Some (1, q) \<and> reset_of sample_core q"
  using exception_by_name [of sample_core "[''send_irq'', ''localhost'', ''4242'', ''reset'']" "\<lambda>k. 0" 0]
  by (simp add: send_irq_def RESET_def irq_number_eval)

text \<open>A start, and a reset that arrives before the first byte of the debugger.\<close>

theorem simulator_invariant_witness:
  "\<exists>a g q. simulator_start True (Some (replicate 0x8000 0)) True True 0 = Some (Some a) \<and>
     gdb_init_data True a (replicate 4096 0) (replicate 1024 7) (\<lambda>k. k = 3) = Some g \<and>
     arm_exception 0 a 1 = Some (1, q) \<and> core_wf q \<and> taille (mem q) = 0x8000 \<and> bp_wf (g\<lparr>arm := q\<rparr>)"
proof -
  let ?m = "\<lparr>mem_value = Some (replicate 0x8000 0), taille = 0x8000\<rparr>"
  have "mem_wf ?m" by (simp add: mem_wf_def)
  obtain a where a: "simulator_start True (Some (replicate 0x8000 0)) True True 0 = Some (Some a)"
    using started [of "replicate 0x8000 0" 0] by auto
  have wf: "core_wf a" using simulator_start_wf [OF a] by simp
  obtain q where q: "arm_exception 0 a 1 = Some (1, q)" using reset_effect [OF wf] by blast
  let ?g = "\<lparr>breakpoints = replicate 1024 7, breakpoints_number = 0, arm = a, target_exception = 0,
    packet = replicate 4096 0, pkt_len = 0, sent = [], shut_down = False, conn = (\<lambda>k. k = 3)\<rparr>"
  let ?x = "Goto Scan (yyguts.make [] 0 0 0 0 0 0 0 0 (0, 0)) \<lparr>gdb = ?g, buffer = replicate 1024 0, len = 0, packets = 0, echoed = []\<rparr> ()"
  have g: "gdb_init_data True a (replicate 4096 0) (replicate 1024 7) (\<lambda>k. k = 3) = Some ?g" by (simp add: gdb_init_data_def)
  have "sim_step (\<lambda>w n. None) (\<lambda>n. []) (\<lambda>n. undefined) 0 ?x (with_core ?x q)"
    by (rule irq_step [of 0 _ 1]) (simp add: next_data_def q)
  then have "(sim_step (\<lambda>w n. None) (\<lambda>n. []) (\<lambda>n. undefined) 0)\<^sup>*\<^sup>* ?x (with_core ?x q)" by (rule r_into_rtranclp)
  from simulator_invariant [OF a _ g _ _ _ this]
  have "core_wf q \<and> taille (mem q) = 0x8000 \<and> bp_wf (?g\<lparr>arm := q\<rparr>)"
    unfolding next_data_with_core by (simp add: next_data_def MAX_PACKET_SIZE_def MAX_BREAKPOINTS_NUMBER_def MAX_ERROR_SIZE_def)
  with a g q show ?thesis by blast
qed

end
