(* ===== verification/Sim_Lock.thy ===== *)
theory Sim_Lock
  imports Sim_Program
begin

text \<open>
  The two threads of \<^verbatim>\<open>arm_simulator.c\<close> at the mutex they share. Each thread has a program counter
  that stands before or after the calls of \<open>pthread_mutex_lock\<close> and \<open>pthread_mutex_unlock\<close>, and the command
  \<open>c\<close> is a step for every turn of its loop. The theorem at the end shows that a run of these steps does what
  some sequence of whole packets and whole exceptions does, which is how \<open>sim_step\<close> and the rest of
  the development treat them. A write to the connection that fails ends the program with both threads, so there is no state after it.
\<close>

section \<open>A packet up to the lock\<close>

text \<open>
  \<open>gdb_packet_analysis\<close> up to the test of the table of handlers: what is to be done with the packet.
  \<open>Command\<close> holds the index of the handler and its argument.
\<close>

datatype request = Corrupted | Unsupported | Command u8 "u8 list"

definition packet_request :: "gdb_junk \<Rightarrow> u8 list \<Rightarrow> nat \<Rightarrow> request option" where
  "packet_request u pkt n = do {
     let i = max 1 (n - 3);
     c_assert (i \<le> length pkt);
     let check = packet_sum pkt i;
     given \<leftarrow> sscanf_x (drop (i + 1) pkt) (junk_a u);
     if ucast check = given then do {
       pkt \<leftarrow> aset pkt i 0;
       index \<leftarrow> aget pkt 1;
       Some (if gdb_init ! unat index \<noteq> None then Command index (drop 2 pkt) else Unsupported)
     } else Some Corrupted
   }"

text \<open>One turn of the loop of \<open>cont\<close>, with its variable \<open>stop\<close>.\<close>

definition cont_turn :: "stack_junk \<Rightarrow> gdb_protocol_data \<Rightarrow> (bool \<times> gdb_protocol_data) option" where
  "cont_turn u st = do {
     st \<leftarrow> single_step u st;
     PC \<leftarrow> registers_read (reg (arm st)) 15 (registers_get_mode (reg (arm st)));
     found \<leftarrow> gdb_find_breakpoint st PC;
     Some (if found \<noteq> -1 then True else target_exception st \<noteq> 0, st)
   }"

section \<open>Threads\<close>

datatype thread = Gdb_thread | Irq_thread

text \<open>
  Where the thread of the debugger is: between two packets, before the lock with the command it has
  acknowledged, in a handler, in the loop of \<open>cont\<close> after \<open>k\<close> turns, behind that loop, or before the unlock.
  The junk is that of the packet.
\<close>

datatype gdb_place =
    Between_packets
  | Before_lock gdb_junk u8 "u8 list"
  | In_handler gdb_junk u8 "u8 list"
  | In_cont gdb_junk nat
  | Behind_cont
  | Before_unlock

text \<open>Where the listener is: before \<open>Read\<close>, or with the byte \<open>irq\<close> before the lock and in \<open>arm_exception\<close>.\<close>

datatype irq_place = Before_read | Before_irq_lock u8 | In_exception u8 | Before_irq_unlock

record machine =
  holder :: "thread option"
  gdb_at :: gdb_place
  irq_at :: irq_place
  shared :: gdb_protocol_data

text \<open>What arrives from outside: a packet that the scanner has found and a byte for the listener.\<close>

datatype event = is_packet: Packet_in "u8 list" nat | is_byte: Byte_in u8

definition is_cont :: "u8 \<Rightarrow> bool" where
  "is_cont index \<longleftrightarrow> unat index = slot CHR ''c'' \<or> unat index = slot CHR ''C''"

text \<open>The processor is shared: an exception changes it in the data of the debugger.\<close>

definition raise_in :: "u32 \<Rightarrow> gdb_protocol_data \<Rightarrow> u8 \<Rightarrow> gdb_protocol_data option" where
  "raise_in v st irq = do {
     (r, a) \<leftarrow> arm_exception v (arm st) irq;
     Some (st\<lparr>arm := a\<rparr>)
   }"

inductive gdb_thread_step :: "machine \<Rightarrow> event list \<Rightarrow> machine \<Rightarrow> bool" where
  corrupted: "gdb_at s = Between_packets \<Longrightarrow> packet_request u pkt n = Some Corrupted \<Longrightarrow>
    gdb_require_retransmission (shared s) = Continue g \<Longrightarrow> gdb_thread_step s [Packet_in pkt n] (s\<lparr>shared := g\<rparr>)"
| unsupported: "gdb_at s = Between_packets \<Longrightarrow> packet_request u pkt n = Some Unsupported \<Longrightarrow>
    gdb_send_ack (shared s) = Continue g0 \<Longrightarrow> gdb_send_data g0 '''' = Some (Continue g) \<Longrightarrow> gdb_thread_step s [Packet_in pkt n] (s\<lparr>shared := g\<rparr>)"
| command: "gdb_at s = Between_packets \<Longrightarrow> packet_request u pkt n = Some (Command index data) \<Longrightarrow>
    gdb_send_ack (shared s) = Continue g \<Longrightarrow> gdb_thread_step s [Packet_in pkt n] (s\<lparr>shared := g, gdb_at := Before_lock u index data\<rparr>)"
| lock: "gdb_at s = Before_lock u index data \<Longrightarrow> holder s = None \<Longrightarrow>
    gdb_thread_step s [] (s\<lparr>holder := Some Gdb_thread, gdb_at := (if is_cont index then In_cont u 0 else In_handler u index data)\<rparr>)"
| handle: "gdb_at s = In_handler u index data \<Longrightarrow> gdb_init ! unat index = Some handler \<Longrightarrow>
    handler u fuel (shared s) data = Some (Continue g) \<Longrightarrow> gdb_thread_step s [] (s\<lparr>shared := g, gdb_at := Before_unlock\<rparr>)"
| turn: "gdb_at s = In_cont u k \<Longrightarrow> cont_turn (junk_steps u k) (shared s) = Some (stop, g) \<Longrightarrow>
    gdb_thread_step s [] (s\<lparr>shared := g, gdb_at := (if stop then Behind_cont else In_cont u (k + 1))\<rparr>)"
| report: "gdb_at s = Behind_cont \<Longrightarrow> gdb_send_stop_reason (shared s) = Some (Continue g) \<Longrightarrow>
    gdb_thread_step s [] (s\<lparr>shared := g, gdb_at := Before_unlock\<rparr>)"
| unlock: "gdb_at s = Before_unlock \<Longrightarrow> gdb_thread_step s [] (s\<lparr>holder := None, gdb_at := Between_packets\<rparr>)"

inductive irq_thread_step :: "machine \<Rightarrow> event list \<Rightarrow> machine \<Rightarrow> bool" where
  read: "irq_at s = Before_read \<Longrightarrow> irq_thread_step s [Byte_in irq] (s\<lparr>irq_at := Before_irq_lock irq\<rparr>)"
| irq_lock: "irq_at s = Before_irq_lock irq \<Longrightarrow> holder s = None \<Longrightarrow>
    irq_thread_step s [] (s\<lparr>holder := Some Irq_thread, irq_at := In_exception irq\<rparr>)"
| irq_raise: "irq_at s = In_exception irq \<Longrightarrow> raise_in v (shared s) irq = Some g \<Longrightarrow>
    irq_thread_step s [] (s\<lparr>shared := g, irq_at := Before_irq_unlock\<rparr>)"
| irq_unlock: "irq_at s = Before_irq_unlock \<Longrightarrow> irq_thread_step s [] (s\<lparr>holder := None, irq_at := Before_read\<rparr>)"

inductive threads_run :: "machine \<Rightarrow> event list \<Rightarrow> machine \<Rightarrow> bool" where
  started: "threads_run s [] s"
| gdb_runs: "threads_run s es t \<Longrightarrow> gdb_thread_step t e t' \<Longrightarrow> threads_run s (es @ e) t'"
| irq_runs: "threads_run s es t \<Longrightarrow> irq_thread_step t e t' \<Longrightarrow> threads_run s (es @ e) t'"

section \<open>Whole actions\<close>

datatype action = Whole_packet gdb_junk nat "u8 list" nat | Whole_exception u32 u8

fun run_actions :: "action list \<Rightarrow> gdb_protocol_data \<Rightarrow> gdb_protocol_data or_exit option" where
  "run_actions [] st = Some (Continue st)"
| "run_actions (Whole_packet u fuel pkt n # acts) st = and_then (gdb_packet_analysis u fuel st pkt n) (run_actions acts)"
| "run_actions (Whole_exception v irq # acts) st = do { st \<leftarrow> raise_in v st irq; run_actions acts st }"

fun event_of :: "action \<Rightarrow> event" where
  "event_of (Whole_packet u fuel pkt n) = Packet_in pkt n"
| "event_of (Whole_exception v irq) = Byte_in irq"

lemma run_actions_append: "run_actions (acts @ acts') st = and_then (run_actions acts st) (run_actions acts')"
proof (induction acts st rule: run_actions.induct)
  case (2 u fuel pkt n acts st)
  then have "and_then (gdb_packet_analysis u fuel st pkt n) (run_actions (acts @ acts')) =
      and_then (gdb_packet_analysis u fuel st pkt n) (\<lambda>st. and_then (run_actions acts st) (run_actions acts'))"
    by (cases "gdb_packet_analysis u fuel st pkt n"; cases "the (gdb_packet_analysis u fuel st pkt n)") auto
  then show ?case by (simp add: and_then_assoc)
qed (simp_all cong: Option.bind_cong)

lemma run_actions_snoc:
  "run_actions acts st = Some (Continue st') \<Longrightarrow> gdb_packet_analysis u fuel st' pkt n = Some (Continue g) \<Longrightarrow>
   run_actions (acts @ [Whole_packet u fuel pkt n]) st = Some (Continue g)"
  "run_actions acts st = Some (Continue st') \<Longrightarrow> raise_in v st' irq = Some g \<Longrightarrow>
   run_actions (acts @ [Whole_exception v irq]) st = Some (Continue g)"
  by (simp_all add: run_actions_append)

text \<open>The two halves of the analysis of a packet.\<close>

lemma analysis_request:
  "packet_request u pkt n = Some r \<Longrightarrow> gdb_packet_analysis u fuel st pkt n =
     (case r of
       Corrupted \<Rightarrow> Some (gdb_require_retransmission st)
     | Unsupported \<Rightarrow> and_then (Some (gdb_send_ack st)) (\<lambda>g. gdb_send_data g '''')
     | Command index data \<Rightarrow> and_then (Some (gdb_send_ack st)) (\<lambda>g. do { handler \<leftarrow> gdb_init ! unat index; handler u fuel g data }))"
  by (cases "gdb_send_ack st")
    (auto simp: gdb_packet_analysis_def packet_request_def Let_def bind_eq_Some_conv split: option.splits if_splits)

lemma cont_loop_turn:
  "cont_loop u k (Suc fuel) st = do {
     (stop, st) \<leftarrow> cont_turn (junk_steps u k) st;
     if stop then Some st else cont_loop u (k + 1) fuel st
   }"
  by (simp add: cont_turn_def Let_def cong: Option.bind_cong)

lemma is_cont_handler:
  assumes "is_cont index"
  shows "gdb_init ! unat index = Some cont"
proof -
  have "cont_with_signal = cont" by (intro ext) (simp add: cont_with_signal_def)
  with assms show ?thesis by (auto simp: is_cont_def gdb_init_def slot_def)
qed

lemma raise_ack:
  assumes "gdb_send_ack st = Continue g" "raise_in v g irq = Some g'"
  shows "\<exists>st'. raise_in v st irq = Some st' \<and> gdb_send_ack st' = Continue g'"
proof -
  have g: "g = st\<lparr>sent := sent st @ bytes ''+''\<rparr>" using assms(1) unfolding gdb_send_ack_def by (rule rio_send_Continue)
  obtain r a where a: "arm_exception v (arm st) irq = Some (r, a)" "g' = g\<lparr>arm := a\<rparr>"
    using assms(2) by (auto simp: raise_in_def g bind_eq_Some_conv)
  have "gdb_send_ack (st\<lparr>arm := a\<rparr>) = Continue g'"
    using assms(1) by (auto simp: gdb_send_ack_def rio_send_def a(2) split: if_splits)
  with a(1) show ?thesis by (intro exI [of _ "st\<lparr>arm := a\<rparr>"]) (simp add: raise_in_def)
qed

section \<open>The simulation\<close>

text \<open>
  \<open>gdb_rel\<close> relates the place of the debugger and the shared data to the data \<open>st\<close> that the whole actions
  have produced so far; \<open>pend\<close> is the packet that has been received and is not yet among them.
\<close>

fun gdb_rel :: "gdb_place \<Rightarrow> gdb_protocol_data \<Rightarrow> gdb_protocol_data \<Rightarrow> event list \<Rightarrow> bool" where
  "gdb_rel Between_packets st g pend \<longleftrightarrow> g = st \<and> pend = []"
| "gdb_rel (Before_lock u index data) st g pend \<longleftrightarrow> gdb_send_ack st = Continue g \<and>
     (\<exists>pkt n. pend = [Packet_in pkt n] \<and> packet_request u pkt n = Some (Command index data))"
| "gdb_rel (In_handler u index data) st g pend \<longleftrightarrow> gdb_send_ack st = Continue g \<and>
     (\<exists>pkt n. pend = [Packet_in pkt n] \<and> packet_request u pkt n = Some (Command index data))"
| "gdb_rel (In_cont u k) st g pend \<longleftrightarrow> (\<exists>pkt n. pend = [Packet_in pkt n] \<and>
     (\<forall>fuel h. cont_loop u k fuel g = Some h \<longrightarrow> (\<exists>fuel. gdb_packet_analysis u fuel st pkt n = gdb_send_stop_reason h)))"
| "gdb_rel Behind_cont st g pend \<longleftrightarrow> (\<exists>pkt n u fuel. pend = [Packet_in pkt n] \<and>
     gdb_packet_analysis u fuel st pkt n = gdb_send_stop_reason g)"
| "gdb_rel Before_unlock st g pend \<longleftrightarrow> g = st \<and> pend = []"

fun irq_pending :: "irq_place \<Rightarrow> event list" where
  "irq_pending (Before_irq_lock irq) = [Byte_in irq]"
| "irq_pending (In_exception irq) = [Byte_in irq]"
| "irq_pending _ = []"

definition gdb_inside :: "gdb_place \<Rightarrow> bool" where
  "gdb_inside p \<longleftrightarrow> (case p of Between_packets \<Rightarrow> False | Before_lock _ _ _ \<Rightarrow> False | _ \<Rightarrow> True)"

definition irq_inside :: "irq_place \<Rightarrow> bool" where
  "irq_inside p \<longleftrightarrow> (case p of In_exception _ \<Rightarrow> True | Before_irq_unlock \<Rightarrow> True | _ \<Rightarrow> False)"

definition exclusive :: "machine \<Rightarrow> bool" where
  "exclusive s \<longleftrightarrow> (holder s = Some Gdb_thread \<longleftrightarrow> gdb_inside (gdb_at s)) \<and> (holder s = Some Irq_thread \<longleftrightarrow> irq_inside (irq_at s))"

definition simulates ::
  "gdb_protocol_data \<Rightarrow> event list \<Rightarrow> machine \<Rightarrow> action list \<Rightarrow> gdb_protocol_data \<Rightarrow> event list \<Rightarrow> bool" where
  "simulates st0 es s acts st pend \<longleftrightarrow> run_actions acts st0 = Some (Continue st) \<and> gdb_rel (gdb_at s) st (shared s) pend \<and>
     filter is_packet es = filter is_packet (map event_of acts) @ pend \<and>
     filter is_byte es = filter is_byte (map event_of acts) @ irq_pending (irq_at s)"

lemma gdb_step_exclusive: "gdb_thread_step s e s' \<Longrightarrow> exclusive s \<Longrightarrow> exclusive s'"
  by (induction rule: gdb_thread_step.induct) (auto simp: exclusive_def gdb_inside_def)

lemma irq_step_exclusive: "irq_thread_step s e s' \<Longrightarrow> exclusive s \<Longrightarrow> exclusive s'"
  by (induction rule: irq_thread_step.induct) (auto simp: exclusive_def irq_inside_def)

lemma threads_run_exclusive: "threads_run s es t \<Longrightarrow> exclusive s \<Longrightarrow> exclusive t"
  by (induction rule: threads_run.induct) (auto intro: gdb_step_exclusive irq_step_exclusive)

text \<open>A step of the debugger adds a whole packet to the actions, or nothing.\<close>

lemma add_packet:
  assumes "simulates st0 es s acts st pend" "gdb_packet_analysis u fuel st pkt n = Some (Continue g)"
    "pend @ filter is_packet e = [Packet_in pkt n]" "filter is_byte e = []" "irq_at s' = irq_at s"
    "gdb_rel (gdb_at s') g (shared s') []"
  shows "\<exists>acts st pend. simulates st0 (es @ e) s' acts st pend"
proof -
  have "simulates st0 (es @ e) s' (acts @ [Whole_packet u fuel pkt n]) g []"
    using assms run_actions_snoc(1) [OF _ assms(2)] by (simp add: simulates_def)
  then show ?thesis by blast
qed

lemma keep_actions:
  assumes "simulates st0 es s acts st pend" "gdb_rel (gdb_at s') st (shared s') (pend @ filter is_packet e)"
    "irq_pending (irq_at s') = irq_pending (irq_at s) @ filter is_byte e"
  shows "\<exists>acts st pend. simulates st0 (es @ e) s' acts st pend"
proof -
  have "simulates st0 (es @ e) s' acts st (pend @ filter is_packet e)" using assms by (simp add: simulates_def)
  then show ?thesis by blast
qed

lemma gdb_step_simulates:
  assumes "gdb_thread_step s e s'" "simulates st0 es s acts st pend"
  shows "\<exists>acts st pend. simulates st0 (es @ e) s' acts st pend"
proof -
  have rel: "gdb_rel (gdb_at s) st (shared s) pend" using assms(2) by (simp add: simulates_def)
  note add = add_packet [OF assms(2)] and keep = keep_actions [OF assms(2)]
  from assms(1) show ?thesis
  proof cases
    case (corrupted u pkt n g)
    with rel show ?thesis by (intro add [of u 0 pkt n g]) (simp_all add: analysis_request [OF corrupted(4)])
  next
    case (unsupported u pkt n g0 g)
    with rel show ?thesis by (intro add [of u 0 pkt n g]) (simp_all add: analysis_request [OF unsupported(4)])
  next
    case (command u pkt n index data g)
    with rel show ?thesis by (intro keep) auto
  next
    case (lock u index data)
    show ?thesis
    proof (cases "is_cont index")
      case True
      have c: "gdb_packet_analysis u fuel st pkt n = gdb_send_stop_reason h"
        if "packet_request u pkt n = Some (Command index data)" "gdb_send_ack st = Continue g" "cont_loop u 0 fuel g = Some h" for pkt n fuel g h
        by (simp add: analysis_request [OF that(1)] is_cont_handler [OF True] cont_def that(2,3))
      from rel lock(3) obtain pkt n where pend: "pend = [Packet_in pkt n]" "packet_request u pkt n = Some (Command index data)"
        "gdb_send_ack st = Continue (shared s)" by auto
      have "\<forall>fuel h. cont_loop u 0 fuel (shared s) = Some h \<longrightarrow>
          (\<exists>fuel. gdb_packet_analysis u fuel st pkt n = gdb_send_stop_reason h)"
        using c [OF pend(2,3)] by blast
      with True lock(1,2) pend(1) show ?thesis by (intro keep) simp_all
    next
      case False
      with rel lock show ?thesis by (intro keep) simp_all
    qed
  next
    case (handle u index data handler fuel g)
    then obtain pkt n where pend: "pend = [Packet_in pkt n]" "packet_request u pkt n = Some (Command index data)"
      "gdb_send_ack st = Continue (shared s)" using rel by auto
    show ?thesis
      by (rule add [of u fuel pkt n g]) (use handle pend in \<open>simp_all add: analysis_request [OF pend(2)]\<close>)
  next
    case (turn u k stop g)
    then obtain pkt n where pend: "pend = [Packet_in pkt n]" "\<And>fuel h. cont_loop u k fuel (shared s) = Some h \<Longrightarrow>
        \<exists>fuel. gdb_packet_analysis u fuel st pkt n = gdb_send_stop_reason h" using rel by auto
    have next_turn: "cont_loop u k (Suc fuel) (shared s) = (if stop then Some g else cont_loop u (k + 1) fuel g)" for fuel
      unfolding cont_loop_turn by (simp add: turn(4))
    show ?thesis
    proof (cases stop)
      case True
      then have "\<exists>fuel. gdb_packet_analysis u fuel st pkt n = gdb_send_stop_reason g"
        using pend(2) [of "Suc 0" g] next_turn [of 0] by simp
      with True turn(1,2) pend(1) show ?thesis by (intro keep) (simp_all, blast)
    next
      case False
      then have "\<exists>fuel. gdb_packet_analysis u fuel st pkt n = gdb_send_stop_reason h" if "cont_loop u (k + 1) fuel g = Some h" for fuel h
        using next_turn pend(2) [of "Suc fuel" h] that by simp
      with False turn pend(1) show ?thesis by (intro keep) simp_all
    qed
  next
    case (report g)
    then obtain pkt n u fuel where pend: "pend = [Packet_in pkt n]" "gdb_packet_analysis u fuel st pkt n = Some (Continue g)"
      using rel by auto
    show ?thesis by (rule add [OF pend(2)]) (use report pend in simp_all)
  next
    case unlock
    with rel show ?thesis by (intro keep) simp_all
  qed
qed

text \<open>
  An exception is added when it is raised. The debugger is then not inside the lock, so its data is that of
  the actions so far, perhaps with an acknowledgement, which does not depend on the processor.
\<close>

lemma irq_step_simulates:
  assumes "irq_thread_step s e s'" "simulates st0 es s acts st pend" "exclusive s"
  shows "\<exists>acts st pend. simulates st0 (es @ e) s' acts st pend"
  using assms(1)
proof cases
  case (irq_raise irq v g)
  have outside: "\<not> gdb_inside (gdb_at s)" using assms(3) irq_raise(3) by (auto simp: exclusive_def irq_inside_def)
  have rel: "gdb_rel (gdb_at s) st (shared s) pend" using assms(2) by (simp add: simulates_def)
  have "\<exists>st'. raise_in v st irq = Some st' \<and> gdb_rel (gdb_at s) st' g pend"
  proof (cases "gdb_at s")
    case Between_packets
    with rel irq_raise(4) show ?thesis by simp
  next
    case (Before_lock u index data)
    with rel raise_ack [OF _ irq_raise(4)] obtain st' where "raise_in v st irq = Some st'" "gdb_send_ack st' = Continue g" by auto
    with Before_lock rel show ?thesis by auto
  qed (use outside in \<open>simp_all add: gdb_inside_def\<close>)
  then obtain st' where st': "raise_in v st irq = Some st'" "gdb_rel (gdb_at s) st' g pend" by blast
  have "simulates st0 (es @ e) s' (acts @ [Whole_exception v irq]) st' pend"
    using assms(2) irq_raise st'(2) run_actions_snoc(2) [OF _ st'(1)] by (simp add: simulates_def)
  then show ?thesis by blast
qed (use assms(2) in \<open>auto intro!: keep_actions simp: simulates_def\<close>)

text \<open>Both threads at the start of their loops.\<close>

definition at_rest :: "machine \<Rightarrow> bool" where
  "at_rest s \<longleftrightarrow> gdb_at s = Between_packets \<and> irq_at s = Before_read"

definition threads_start :: "gdb_protocol_data \<Rightarrow> machine" where
  "threads_start st = \<lparr>holder = None, gdb_at = Between_packets, irq_at = Before_read, shared = st\<rparr>"

lemma threads_run_simulates:
  "threads_run s es t \<Longrightarrow> s = threads_start st0 \<Longrightarrow> exclusive t \<and> (\<exists>acts st pend. simulates st0 es t acts st pend)"
proof (induction rule: threads_run.induct)
  case (started s)
  have "simulates st0 [] s [] st0 []" using started by (simp add: simulates_def threads_start_def)
  moreover have "exclusive s" using started by (simp add: exclusive_def threads_start_def gdb_inside_def irq_inside_def)
  ultimately show ?case by blast
next
  case (gdb_runs s es t e t')
  then show ?case using gdb_step_simulates gdb_step_exclusive by blast
next
  case (irq_runs s es t e t')
  then show ?case using irq_step_simulates irq_step_exclusive by blast
qed

text \<open>
  Between any two steps, also inside a command, the processor and the debugger are well formed; and the
  listener that holds the mutex releases it, so the debugger never waits for ever.
\<close>

lemma gdb_thread_step_wf:
  "gdb_thread_step s e s' \<Longrightarrow> gdb_wf n (shared s) \<Longrightarrow> gdb_wf n (shared s')"
proof (induction rule: gdb_thread_step.induct)
  case (corrupted s u pkt k g)
  then show ?case using safe_endD [OF rio_send_safe] by (simp add: gdb_require_retransmission_def)
next
  case (unsupported s u pkt k g0 g)
  then have "gdb_wf n g0" using safe_endD [OF rio_send_safe] by (simp add: gdb_send_ack_def)
  from safe_endD [OF send_data_safe [OF this] unsupported(4)] show ?case by simp
next
  case (command s u pkt k index data g)
  then show ?case using safe_endD [OF rio_send_safe] by (simp add: gdb_send_ack_def)
next
  case (handle s u index data handler fuel g)
  then show ?case using safe_endD [OF handlers_safe] by simp
next
  case (turn s u k stop g)
  then show ?case using safeD [OF single_step_safe] by (auto simp: cont_turn_def bind_eq_Some_conv)
next
  case (report s g)
  then show ?case using safe_endD [OF stop_reason_safe] by simp
qed simp_all

lemma irq_thread_step_wf:
  "irq_thread_step s e s' \<Longrightarrow> gdb_wf n (shared s) \<Longrightarrow> gdb_wf n (shared s')"
proof (induction rule: irq_thread_step.induct)
  case (irq_raise s irq v g)
  then obtain r a where ra: "arm_exception v (arm (shared s)) irq = Some (r, a)" "g = (shared s)\<lparr>arm := a\<rparr>"
    by (auto simp: raise_in_def bind_eq_Some_conv)
  with arm_exception_wf [OF _ ra(1)] irq_raise(3) show ?case by (simp add: gdb_wf_def)
qed simp_all

lemma threads_run_wf: "threads_run s es t \<Longrightarrow> gdb_wf n (shared s) \<Longrightarrow> gdb_wf n (shared t)"
  by (induction rule: threads_run.induct) (auto intro: gdb_thread_step_wf irq_thread_step_wf)

lemma listener_releases:
  assumes "gdb_wf n (shared s)" "holder s = Some Irq_thread" "exclusive s" "irq_at s \<noteq> In_exception 8"
  shows "\<exists>t. threads_run s [] t \<and> holder t = None \<and> gdb_at t = gdb_at s"
proof -
  have "irq_inside (irq_at s)" using assms(2,3) by (simp add: exclusive_def)
  have release: "\<exists>t'. threads_run t [] t' \<and> holder t' = None \<and> gdb_at t' = gdb_at t" if "irq_at t = Before_irq_unlock" for t
    using irq_runs [OF started irq_unlock [OF that]] by auto
  from \<open>irq_inside (irq_at s)\<close> show ?thesis
  proof (cases "irq_at s")
    case (In_exception irq)
    have "\<exists>r a. arm_exception 0 (arm (shared s)) irq = Some (r, a)"
    proof (cases "irq = 1")
      case True
      then show ?thesis using arm_exception_reset [OF gdb_wf_sel(1) [OF assms(1)]] by simp
    next
      case False
      then have "uint irq \<noteq> RESET" "uint irq \<noteq> SOFTWARE_INTERRUPT"
        using In_exception assms(4) by (simp_all add: exception_defs word_uint_eq_iff)
      then show ?thesis using arm_exception_other by blast
    qed
    then obtain g where "raise_in 0 (shared s) irq = Some g" by (auto simp: raise_in_def)
    from irq_raise [OF In_exception this] have
      1: "irq_thread_step s [] (s\<lparr>shared := g, irq_at := Before_irq_unlock\<rparr>)" .
    let ?t = "s\<lparr>shared := g, irq_at := Before_irq_unlock\<rparr>"
    have "irq_thread_step ?t [] (?t\<lparr>holder := None, irq_at := Before_read\<rparr>)" by (rule irq_unlock) simp
    from irq_runs [OF irq_runs [OF started 1] this] show ?thesis by auto
  next
    case Before_irq_unlock
    with release show ?thesis by blast
  qed (simp_all add: irq_inside_def)
qed

section \<open>Property\<close>

text \<open>
  (C3) The mutex makes the commands of the debugger and the exceptions atomic. In every run of the two
  threads from their start, the thread that holds the mutex is the one inside a handler or inside
  \<open>arm_exception\<close>, so never both are; and when both threads are again at the start of their loops, the
  debugger and the processor are what some sequence of whole packets and whole exceptions makes of them,
  with the packets and the bytes in the order of their arrival. An exception that arrives while
  \<open>c\<close> runs is therefore raised before or after the whole command. The acknowledgement and the answer
  to an unknown command are sent outside the lock, which makes no difference. A run ends where a write to the
  connection fails, because that ends the program.
\<close>

theorem threads_are_atomic:
  assumes "threads_run (threads_start st) es s"
  shows "(holder s = Some Gdb_thread \<longleftrightarrow> gdb_inside (gdb_at s)) \<and> (holder s = Some Irq_thread \<longleftrightarrow> irq_inside (irq_at s)) \<and>
    (at_rest s \<longrightarrow> (\<exists>acts. run_actions acts st = Some (Continue (shared s)) \<and>
       filter is_packet (map event_of acts) = filter is_packet es \<and> filter is_byte (map event_of acts) = filter is_byte es))"
  using threads_run_simulates [OF assms refl] by (auto simp: exclusive_def simulates_def at_rest_def)

text \<open>The packet \<open>$k#6b\<close> is acknowledged, an interrupt takes the lock first, then the command runs.\<close>

theorem threads_are_atomic_witness:
  "\<exists>s pkt. threads_run (threads_start (sample_gdb 0xEF 1)) [Byte_in 4, Packet_in pkt 5] s \<and> at_rest s \<and>
     sent (shared s) = bytes ''+'' \<and> shut_down (shared s) \<and> holder s \<noteq> Some Gdb_thread \<and>
     (\<exists>acts. run_actions acts (sample_gdb 0xEF 1) = Some (Continue (shared s)) \<and>
        filter is_packet (map event_of acts) = [Packet_in pkt 5] \<and> filter is_byte (map event_of acts) = [Byte_in 4])"
proof -
  define g where "g = sample_gdb 0xEF 1"
  define pkt where "pkt = (of_char CHR ''$'' :: u8) # [0x6B] @ of_char CHR ''#'' # hex_byte 0x6B @ [0]"
  fix u :: gdb_junk
  have k: "gdb_init ! unat (0x6B :: u8) = Some kill_request" by (simp add: gdb_init_def slot_def)
  have request: "packet_request u pkt 5 = Some (Command 0x6B (drop 2 (pkt[2 := 0])))"
  proof -
    have "sscanf_x (drop 3 pkt) (junk_a u) = Some 0x6B"
      using sscanf_hex_byte [of "[0]" "0x6B" "junk_a u"] by (simp add: pkt_def)
    moreover have "length pkt = 6" using hex_byte_two [of "0x6B"] by (auto simp: pkt_def)
    moreover have "packet_sum pkt (Suc (Suc 0)) = 0x6B" by (simp add: packet_sum_def pkt_def numeral_2_eq_2)
    ultimately show ?thesis
      using k by (simp add: packet_request_def Let_def c_assert_def aset_def aget_def nth_list_update) (simp add: pkt_def)
  qed
  let ?data = "drop 2 (pkt[2 := 0])"
  let ?m = "\<lambda>h p q d. \<lparr>holder = h, gdb_at = p, irq_at = q, shared = d\<rparr>"
  let ?a = "g\<lparr>sent := sent g @ bytes ''+''\<rparr>"
  have ack: "gdb_send_ack g = Continue ?a" by (simp add: gdb_send_ack_def g_def)
  let ?w = "Before_lock u 0x6B ?data"
  have k_runs: "kill_request u 0 ?a ?data = Some (Continue (?a\<lparr>shut_down := True\<rparr>))" by (simp add: kill_request_def)
  have raised: "raise_in 0 ?a 4 = Some ?a" by (simp add: raise_in_def arm_exception_other exception_defs)
  have not_cont: "\<not> is_cont 0x6B" by (simp add: is_cont_def slot_def)
  have "threads_run (threads_start g) [] (?m None Between_packets Before_read g)"
    using started by (simp add: threads_start_def)
  from irq_runs [OF this read [of _ 4]] have "threads_run (threads_start g) [Byte_in 4] (?m None Between_packets (Before_irq_lock 4) g)"
    by simp
  from gdb_runs [OF this command [OF _ request]] ack have
    "threads_run (threads_start g) [Byte_in 4, Packet_in pkt 5] (?m None ?w (Before_irq_lock 4) ?a)" by simp
  from irq_runs [OF this irq_lock] have
    "threads_run (threads_start g) [Byte_in 4, Packet_in pkt 5] (?m (Some Irq_thread) ?w (In_exception 4) ?a)" by simp
  from irq_runs [OF this irq_raise [of _ 4 0 ?a]] raised have
    "threads_run (threads_start g) [Byte_in 4, Packet_in pkt 5] (?m (Some Irq_thread) ?w Before_irq_unlock ?a)" by simp
  from irq_runs [OF this irq_unlock] have
    "threads_run (threads_start g) [Byte_in 4, Packet_in pkt 5] (?m None ?w Before_read ?a)" by simp
  from gdb_runs [OF this lock] not_cont have
    "threads_run (threads_start g) [Byte_in 4, Packet_in pkt 5] (?m (Some Gdb_thread) (In_handler u 0x6B ?data) Before_read ?a)"
    by simp
  from gdb_runs [OF this handle [OF _ k]] k_runs have
    "threads_run (threads_start g) [Byte_in 4, Packet_in pkt 5] (?m (Some Gdb_thread) Before_unlock Before_read (?a\<lparr>shut_down := True\<rparr>))"
    by simp
  from gdb_runs [OF this unlock] have
    "threads_run (threads_start g) [Byte_in 4, Packet_in pkt 5] (?m None Between_packets Before_read (?a\<lparr>shut_down := True\<rparr>))"
    by simp
  from threads_are_atomic [OF this] this show ?thesis
    unfolding g_def by (intro exI [of _ "?m None Between_packets Before_read (?a\<lparr>shut_down := True\<rparr>)"] exI [of _ pkt])
      (simp add: at_rest_def g_def)
qed

end
