(* ===== verification/Csapp_System.thy ===== *)
theory Csapp_System
  imports Csapp_Rio Sim_Util C_Strings
begin

text \<open>
  The rest of \<^verbatim>\<open>csapp.c\<close>: the functions that report an error, the wrappers of the system calls, and
  the helpers that open a socket.

  The operating system is a parameter. A system call is a function of the state \<open>'s\<close> of the system that
  gives its result (with the output parameters behind it) and the state afterwards. What the code relies
  on is stated by \<open>fd_laws\<close>, only about the descriptors that are open.
\<close>

section \<open>Error reporting\<close>

type_synonym ('s, 'r) call = "'s \<Rightarrow> 'r \<times> 's"

text \<open>A function returns, or the program ends with a status after a message on the standard error output.\<close>

datatype 'a outcome = Returned 'a | Exited nat string

record 's os =
  strerror :: "int \<Rightarrow> string"
  errno :: "'s \<Rightarrow> int"
  h_errno :: "'s \<Rightarrow> int"

definition unix_error :: "('s, 'm) os_scheme \<Rightarrow> string \<Rightarrow> 's \<Rightarrow> 'a outcome" where
  "unix_error E msg s = Exited 0 (msg @ '': '' @ strerror E (errno E s) @ newline)"

definition posix_error :: "('s, 'm) os_scheme \<Rightarrow> int \<Rightarrow> string \<Rightarrow> 'a outcome" where
  "posix_error E code msg = Exited 0 (msg @ '': '' @ strerror E code @ newline)"

definition dns_error :: "('s, 'm) os_scheme \<Rightarrow> string \<Rightarrow> 's \<Rightarrow> 'a outcome" where
  "dns_error E msg s = Exited 0 (msg @ '': DNS error '' @ print_d (h_errno E s) @ newline)"

definition app_error :: "string \<Rightarrow> 'a outcome" where
  "app_error msg = Exited 0 (msg @ newline)"

text \<open>
  The shapes of a wrapper: the result is passed on unless it signals a failure, which \<open>errno\<close>
  explains (\<open>checked\<close>); the result is not passed on (\<open>ensured\<close>); the result itself is the
  error code (\<open>ensured_posix\<close>).
\<close>

definition checked :: "('s, 'm) os_scheme \<Rightarrow> string \<Rightarrow> ('r \<Rightarrow> bool) \<Rightarrow> ('s, 'r) call \<Rightarrow> ('s, 'r outcome) call" where
  "checked E msg bad f s = (let (rc, s) = f s in (if bad rc then unix_error E msg s else Returned rc, s))"

definition ensured :: "('s, 'm) os_scheme \<Rightarrow> string \<Rightarrow> ('r \<Rightarrow> bool) \<Rightarrow> ('s, 'r) call \<Rightarrow> ('s, unit outcome) call" where
  "ensured E msg bad f s = (let (rc, s) = f s in (if bad rc then unix_error E msg s else Returned (), s))"

definition ensured_posix :: "('s, 'm) os_scheme \<Rightarrow> string \<Rightarrow> ('s, int) call \<Rightarrow> ('s, unit outcome) call" where
  "ensured_posix E msg f s = (let (rc, s) = f s in (if rc \<noteq> 0 then posix_error E rc msg else Returned (), s))"

abbreviation negative :: "int \<Rightarrow> bool" where "negative rc \<equiv> rc < 0"

section \<open>Process control\<close>

definition Fork :: "('s, 'm) os_scheme \<Rightarrow> ('s, int) call \<Rightarrow> ('s, int outcome) call" where
  "Fork E fork = checked E ''Fork error'' negative fork"

definition Execve ::
  "('s, 'm) os_scheme \<Rightarrow> (string \<Rightarrow> string list \<Rightarrow> string list \<Rightarrow> ('s, int) call) \<Rightarrow>
   string \<Rightarrow> string list \<Rightarrow> string list \<Rightarrow> ('s, unit outcome) call" where
  "Execve E execve filename argv envp = ensured E ''Execve error'' negative (execve filename argv envp)"

definition Wait :: "('s, 'm) os_scheme \<Rightarrow> ('s, int \<times> int) call \<Rightarrow> ('s, (int \<times> int) outcome) call" where
  "Wait E wait = checked E ''Wait error'' (\<lambda>(pid, status). pid < 0) wait"

definition Waitpid ::
  "('s, 'm) os_scheme \<Rightarrow> (int \<Rightarrow> int \<Rightarrow> ('s, int \<times> int) call) \<Rightarrow> int \<Rightarrow> int \<Rightarrow> ('s, (int \<times> int) outcome) call" where
  "Waitpid E waitpid pid options =
     checked E ''Waitpid error'' (\<lambda>(retpid, status). retpid < 0) (waitpid pid options)"

definition Kill :: "('s, 'm) os_scheme \<Rightarrow> (int \<Rightarrow> int \<Rightarrow> ('s, int) call) \<Rightarrow> int \<Rightarrow> int \<Rightarrow> ('s, unit outcome) call" where
  "Kill E kill pid signum = ensured E ''Kill error'' negative (kill pid signum)"

definition Pause :: "('s, int) call \<Rightarrow> ('s, unit outcome) call" where
  "Pause pause s = (let (_, s) = pause s in (Returned (), s))"

text \<open>\<open>rc\<close> is unsigned, so \<open>rc < 0\<close> is the comparison of unsigned numbers.\<close>

definition Sleep :: "('s, 'm) os_scheme \<Rightarrow> (u32 \<Rightarrow> ('s, u32) call) \<Rightarrow> u32 \<Rightarrow> ('s, u32 outcome) call" where
  "Sleep E sleep secs = checked E ''Sleep error'' (\<lambda>rc. rc < 0) (sleep secs)"

definition Alarm :: "(u32 \<Rightarrow> ('s, u32) call) \<Rightarrow> u32 \<Rightarrow> ('s, u32) call" where
  "Alarm alarm seconds = alarm seconds"

definition Setpgid :: "('s, 'm) os_scheme \<Rightarrow> (int \<Rightarrow> int \<Rightarrow> ('s, int) call) \<Rightarrow> int \<Rightarrow> int \<Rightarrow> ('s, unit outcome) call" where
  "Setpgid E setpgid pid pgid = ensured E ''Setpgid error'' negative (setpgid pid pgid)"

definition Getpgrp :: "('s, int) call \<Rightarrow> ('s, int) call" where
  "Getpgrp getpgrp = getpgrp"

section \<open>Signals\<close>

text \<open>A handler is a value of any type \<open>'h\<close>, a set of signals (\<open>sigset_t\<close>) one of any type \<open>'g\<close>.\<close>

record ('h, 'g) sigaction =
  sa_handler :: 'h
  sa_mask :: 'g
  sa_flags :: int

text \<open>
  \<open>sigemptyset\<close> gives its result and the set; \<open>Signal\<close> ignores the result. \<open>junk\<close> is the uninitialised
  mask, \<open>restart\<close> the flag \<open>SA_RESTART\<close>.
\<close>

definition Signal ::
  "('s, 'm) os_scheme \<Rightarrow> ('g \<Rightarrow> ('s, int \<times> 'g) call) \<Rightarrow>
   (int \<Rightarrow> ('h, 'g) sigaction \<Rightarrow> ('s, int \<times> ('h, 'g) sigaction) call) \<Rightarrow> int \<Rightarrow> 'g \<Rightarrow> int \<Rightarrow> 'h \<Rightarrow> ('s, 'h outcome) call" where
  "Signal E sigemptyset sigaction restart junk signum handler s = (
     let ((_, mask), s) = sigemptyset junk s;
         ((rc, old_action), s) = sigaction signum \<lparr>sa_handler = handler, sa_mask = mask, sa_flags = restart\<rparr> s
     in (if rc < 0 then unix_error E ''Signal error'' s else Returned (sa_handler old_action), s))"

text \<open>The operations on sets give their result and the set afterwards.\<close>

definition changed_set :: "('s, 'm) os_scheme \<Rightarrow> string \<Rightarrow> ('s, int \<times> 'g) call \<Rightarrow> ('s, 'g outcome) call" where
  "changed_set E msg f s = (let ((rc, sigs), s) = f s in (if rc < 0 then unix_error E msg s else Returned sigs, s))"

definition Sigprocmask ::
  "('s, 'm) os_scheme \<Rightarrow> (int \<Rightarrow> 'g \<Rightarrow> ('s, int \<times> 'g) call) \<Rightarrow> int \<Rightarrow> 'g \<Rightarrow> ('s, 'g outcome) call" where
  "Sigprocmask E sigprocmask how sigs = changed_set E ''Sigprocmask error'' (sigprocmask how sigs)"

definition Sigemptyset :: "('s, 'm) os_scheme \<Rightarrow> ('g \<Rightarrow> ('s, int \<times> 'g) call) \<Rightarrow> 'g \<Rightarrow> ('s, 'g outcome) call" where
  "Sigemptyset E sigemptyset sigs = changed_set E ''Sigemptyset error'' (sigemptyset sigs)"

definition Sigfillset :: "('s, 'm) os_scheme \<Rightarrow> ('g \<Rightarrow> ('s, int \<times> 'g) call) \<Rightarrow> 'g \<Rightarrow> ('s, 'g outcome) call" where
  "Sigfillset E sigfillset sigs = changed_set E ''Sigfillset error'' (sigfillset sigs)"

definition Sigaddset ::
  "('s, 'm) os_scheme \<Rightarrow> ('g \<Rightarrow> int \<Rightarrow> ('s, int \<times> 'g) call) \<Rightarrow> 'g \<Rightarrow> int \<Rightarrow> ('s, 'g outcome) call" where
  "Sigaddset E sigaddset sigs signum = changed_set E ''Sigaddset error'' (sigaddset sigs signum)"

definition Sigdelset ::
  "('s, 'm) os_scheme \<Rightarrow> ('g \<Rightarrow> int \<Rightarrow> ('s, int \<times> 'g) call) \<Rightarrow> 'g \<Rightarrow> int \<Rightarrow> ('s, 'g outcome) call" where
  "Sigdelset E sigdelset sigs signum = changed_set E ''Sigdelset error'' (sigdelset sigs signum)"

definition Sigismember ::
  "('s, 'm) os_scheme \<Rightarrow> ('g \<Rightarrow> int \<Rightarrow> ('s, int) call) \<Rightarrow> 'g \<Rightarrow> int \<Rightarrow> ('s, int outcome) call" where
  "Sigismember E sigismember sigs signum = checked E ''Sigismember error'' negative (sigismember sigs signum)"


section \<open>Input and output\<close>

definition Open :: "('s, 'm) os_scheme \<Rightarrow> (string \<Rightarrow> int \<Rightarrow> u32 \<Rightarrow> ('s, int) call) \<Rightarrow> string \<Rightarrow> int \<Rightarrow> u32 \<Rightarrow> ('s, int outcome) call" where
  "Open E open_call pathname flags mode = checked E ''Open error'' negative (open_call pathname flags mode)"

text \<open>A read gives the bytes it stored.\<close>

definition Read ::
  "('s, 'm) os_scheme \<Rightarrow> (int \<Rightarrow> nat \<Rightarrow> ('s, int \<times> u8 list) call) \<Rightarrow> int \<Rightarrow> nat \<Rightarrow> ('s, (int \<times> u8 list) outcome) call" where
  "Read E read fd count = checked E ''Read error'' (\<lambda>(rc, buf). rc < 0) (read fd count)"

definition Write :: "('s, 'm) os_scheme \<Rightarrow> (int \<Rightarrow> u8 list \<Rightarrow> ('s, int) call) \<Rightarrow> int \<Rightarrow> u8 list \<Rightarrow> ('s, int outcome) call" where
  "Write E write fd buf = checked E ''Write error'' negative (write fd buf)"

definition Lseek :: "('s, 'm) os_scheme \<Rightarrow> (int \<Rightarrow> int \<Rightarrow> int \<Rightarrow> ('s, int) call) \<Rightarrow> int \<Rightarrow> int \<Rightarrow> int \<Rightarrow> ('s, int outcome) call" where
  "Lseek E lseek fildes offset whence = checked E ''Lseek error'' negative (lseek fildes offset whence)"

definition Close :: "('s, 'm) os_scheme \<Rightarrow> (int \<Rightarrow> ('s, int) call) \<Rightarrow> int \<Rightarrow> ('s, unit outcome) call" where
  "Close E close fd = ensured E ''Close error'' negative (close fd)"

text \<open>The three sets of descriptors of \<open>select\<close> and its timeout are input and output parameters, here together \<open>'f\<close>.\<close>

definition Select ::
  "('s, 'm) os_scheme \<Rightarrow> (int \<Rightarrow> 'f \<Rightarrow> ('s, int \<times> 'f) call) \<Rightarrow> int \<Rightarrow> 'f \<Rightarrow> ('s, (int \<times> 'f) outcome) call" where
  "Select E select n fds = checked E ''Select error'' (\<lambda>(rc, fds). rc < 0) (select n fds)"

definition Dup2 :: "('s, 'm) os_scheme \<Rightarrow> (int \<Rightarrow> int \<Rightarrow> ('s, int) call) \<Rightarrow> int \<Rightarrow> int \<Rightarrow> ('s, int outcome) call" where
  "Dup2 E dup2 fd1 fd2 = checked E ''Dup2 error'' negative (dup2 fd1 fd2)"

definition Stat :: "('s, 'm) os_scheme \<Rightarrow> (string \<Rightarrow> ('s, int \<times> 'b) call) \<Rightarrow> string \<Rightarrow> ('s, 'b outcome) call" where
  "Stat E stat filename = changed_set E ''Stat error'' (stat filename)"

definition Fstat :: "('s, 'm) os_scheme \<Rightarrow> (int \<Rightarrow> ('s, int \<times> 'b) call) \<Rightarrow> int \<Rightarrow> ('s, 'b outcome) call" where
  "Fstat E fstat fd = changed_set E ''Fstat error'' (fstat fd)"

section \<open>Memory\<close>

text \<open>
  A pointer from \<open>mmap\<close> is a 64-bit word, a failure the word -1; for the allocation functions a null
  pointer is \<open>None\<close>.
\<close>

definition Mmap ::
  "('s, 'm) os_scheme \<Rightarrow> (u64 \<Rightarrow> nat \<Rightarrow> int \<Rightarrow> int \<Rightarrow> int \<Rightarrow> int \<Rightarrow> ('s, u64) call) \<Rightarrow>
   u64 \<Rightarrow> nat \<Rightarrow> int \<Rightarrow> int \<Rightarrow> int \<Rightarrow> int \<Rightarrow> ('s, u64 outcome) call" where
  "Mmap E mmap addr len prot flags fd offset =
     checked E ''mmap error'' (\<lambda>ptr. ptr = -1) (mmap addr len prot flags fd offset)"

definition Munmap :: "('s, 'm) os_scheme \<Rightarrow> (u64 \<Rightarrow> nat \<Rightarrow> ('s, int) call) \<Rightarrow> u64 \<Rightarrow> nat \<Rightarrow> ('s, unit outcome) call" where
  "Munmap E munmap start len = ensured E ''munmap error'' negative (munmap start len)"

text \<open>A result that is no null pointer.\<close>

definition checked_pointer ::
  "('s \<Rightarrow> 'p outcome) \<Rightarrow> ('s, 'p option) call \<Rightarrow> ('s, 'p outcome) call" where
  "checked_pointer failure f s = (let (p, s) = f s in (case p of None \<Rightarrow> failure s | Some p \<Rightarrow> Returned p, s))"

definition Malloc :: "('s, 'm) os_scheme \<Rightarrow> (u64 \<Rightarrow> ('s, 'p option) call) \<Rightarrow> u64 \<Rightarrow> ('s, 'p outcome) call" where
  "Malloc E malloc n = checked_pointer (unix_error E ''Malloc error'') (malloc n)"

definition Realloc :: "('s, 'm) os_scheme \<Rightarrow> ('p option \<Rightarrow> u64 \<Rightarrow> ('s, 'p option) call) \<Rightarrow> 'p option \<Rightarrow> u64 \<Rightarrow> ('s, 'p outcome) call" where
  "Realloc E realloc p n = checked_pointer (unix_error E ''Realloc error'') (realloc p n)"

definition Calloc :: "('s, 'm) os_scheme \<Rightarrow> (u64 \<Rightarrow> u64 \<Rightarrow> ('s, 'p option) call) \<Rightarrow> u64 \<Rightarrow> u64 \<Rightarrow> ('s, 'p outcome) call" where
  "Calloc E calloc nmemb n = checked_pointer (unix_error E ''Calloc error'') (calloc nmemb n)"

definition Free :: "('p option \<Rightarrow> 's \<Rightarrow> 's) \<Rightarrow> 'p option \<Rightarrow> 's \<Rightarrow> 's" where
  "Free free p s = free p s"

section \<open>Standard input and output\<close>

text \<open>A stream is of any type \<open>'f\<close>; \<open>ferror\<close> looks at its state. \<open>EOF\<close> is -1.\<close>

definition Fclose :: "('s, 'm) os_scheme \<Rightarrow> ('f \<Rightarrow> ('s, int) call) \<Rightarrow> 'f \<Rightarrow> ('s, unit outcome) call" where
  "Fclose E fclose fp = ensured E ''Fclose error'' (\<lambda>rc. rc \<noteq> 0) (fclose fp)"

definition Fdopen :: "('s, 'm) os_scheme \<Rightarrow> (int \<Rightarrow> string \<Rightarrow> ('s, 'f option) call) \<Rightarrow> int \<Rightarrow> string \<Rightarrow> ('s, 'f outcome) call" where
  "Fdopen E fdopen fd type = checked_pointer (unix_error E ''Fdopen error'') (fdopen fd type)"

definition Fgets ::
  "(int \<Rightarrow> 'f \<Rightarrow> ('s, u8 list option) call) \<Rightarrow> ('f \<Rightarrow> 's \<Rightarrow> int) \<Rightarrow> int \<Rightarrow> 'f \<Rightarrow> ('s, u8 list option outcome) call" where
  "Fgets fgets ferror n stream s = (let (rptr, s) = fgets n stream s in
     (if rptr = None \<and> ferror stream s \<noteq> 0 then app_error ''Fgets error'' else Returned rptr, s))"

definition Fopen :: "('s, 'm) os_scheme \<Rightarrow> (string \<Rightarrow> string \<Rightarrow> ('s, 'f option) call) \<Rightarrow> string \<Rightarrow> string \<Rightarrow> ('s, 'f outcome) call" where
  "Fopen E fopen filename mode = checked_pointer (unix_error E ''Fopen error'') (fopen filename mode)"

definition Fputs :: "('s, 'm) os_scheme \<Rightarrow> (string \<Rightarrow> 'f \<Rightarrow> ('s, int) call) \<Rightarrow> string \<Rightarrow> 'f \<Rightarrow> ('s, unit outcome) call" where
  "Fputs E fputs text stream = ensured E ''Fputs error'' (\<lambda>rc. rc = -1) (fputs text stream)"

definition Fread ::
  "('s, 'm) os_scheme \<Rightarrow> (u64 \<Rightarrow> u64 \<Rightarrow> 'f \<Rightarrow> ('s, u64 \<times> u8 list) call) \<Rightarrow> ('f \<Rightarrow> 's \<Rightarrow> int) \<Rightarrow>
   u64 \<Rightarrow> u64 \<Rightarrow> 'f \<Rightarrow> ('s, (u64 \<times> u8 list) outcome) call" where
  "Fread E fread ferror sz nmemb stream s = (let ((n, buf), s) = fread sz nmemb stream s in
     (if n < nmemb \<and> ferror stream s \<noteq> 0 then unix_error E ''Fread error'' s else Returned (n, buf), s))"

definition Fwrite ::
  "('s, 'm) os_scheme \<Rightarrow> (u8 list \<Rightarrow> u64 \<Rightarrow> u64 \<Rightarrow> 'f \<Rightarrow> ('s, u64) call) \<Rightarrow> u8 list \<Rightarrow> u64 \<Rightarrow> u64 \<Rightarrow> 'f \<Rightarrow> ('s, unit outcome) call" where
  "Fwrite E fwrite buf sz nmemb stream = ensured E ''Fwrite error'' (\<lambda>n. n < nmemb) (fwrite buf sz nmemb stream)"

section \<open>Threads\<close>

text \<open>A thread is a number; what it executes, its attributes and its argument are one value of type \<open>'r\<close>.\<close>

definition Pthread_create ::
  "('s, 'm) os_scheme \<Rightarrow> ('r \<Rightarrow> ('s, int \<times> nat) call) \<Rightarrow> 'r \<Rightarrow> ('s, nat outcome) call" where
  "Pthread_create E pthread_create routine s = (let ((rc, tid), s) = pthread_create routine s in
     (if rc \<noteq> 0 then posix_error E rc ''Pthread_create error'' else Returned tid, s))"

definition Pthread_cancel :: "('s, 'm) os_scheme \<Rightarrow> (nat \<Rightarrow> ('s, int) call) \<Rightarrow> nat \<Rightarrow> ('s, unit outcome) call" where
  "Pthread_cancel E pthread_cancel tid = ensured_posix E ''Pthread_cancel error'' (pthread_cancel tid)"

definition Pthread_join ::
  "('s, 'm) os_scheme \<Rightarrow> (nat \<Rightarrow> ('s, int \<times> 'v) call) \<Rightarrow> nat \<Rightarrow> ('s, 'v outcome) call" where
  "Pthread_join E pthread_join tid s = (let ((rc, thread_return), s) = pthread_join tid s in
     (if rc \<noteq> 0 then posix_error E rc ''Pthread_join error'' else Returned thread_return, s))"

definition Pthread_detach :: "('s, 'm) os_scheme \<Rightarrow> (nat \<Rightarrow> ('s, int) call) \<Rightarrow> nat \<Rightarrow> ('s, unit outcome) call" where
  "Pthread_detach E pthread_detach tid = ensured_posix E ''Pthread_detach error'' (pthread_detach tid)"

definition Pthread_exit :: "('v \<Rightarrow> 's \<Rightarrow> 's) \<Rightarrow> 'v \<Rightarrow> 's \<Rightarrow> 's" where
  "Pthread_exit pthread_exit retval = pthread_exit retval"

definition Pthread_self :: "('s \<Rightarrow> nat) \<Rightarrow> 's \<Rightarrow> nat" where
  "Pthread_self pthread_self = pthread_self"

definition Pthread_once :: "('o \<Rightarrow> 'r \<Rightarrow> ('s, int) call) \<Rightarrow> 'o \<Rightarrow> 'r \<Rightarrow> 's \<Rightarrow> 's" where
  "Pthread_once pthread_once once_control init_function s = snd (pthread_once once_control init_function s)"


section \<open>Sockets\<close>

text \<open>
  An address as the kernel sees it: the port and the address are the bytes in network order, the port
  a 16-bit number read in the order of the machine.
\<close>

record sockaddr_in =
  sin_family :: u16
  sin_port :: u16
  sin_addr :: "u8 list"

definition bzero_addr :: sockaddr_in where
  "bzero_addr = \<lparr>sin_family = 0, sin_port = 0, sin_addr = replicate 4 0\<rparr>"

record hostent =
  h_addr_list :: "u8 list list"
  h_length :: nat

text \<open>
  The calls on descriptors, with the constants of the system headers. \<open>sys_getsockname\<close> gives no
  address when it fails; the address of the peer that \<open>accept\<close> stores is not used by the callers.
\<close>

record 's net = "'s os" +
  big_endian :: bool
  AF_INET :: int
  PF_INET :: int
  SOCK_STREAM :: int
  SOL_SOCKET :: int
  SO_REUSEADDR :: int
  sys_socket :: "int \<Rightarrow> int \<Rightarrow> int \<Rightarrow> ('s, int) call"
  sys_setsockopt :: "int \<Rightarrow> int \<Rightarrow> int \<Rightarrow> int \<Rightarrow> ('s, int) call"
  sys_bind :: "int \<Rightarrow> sockaddr_in \<Rightarrow> ('s, int) call"
  sys_getsockname :: "int \<Rightarrow> ('s, sockaddr_in option) call"
  sys_listen :: "int \<Rightarrow> int \<Rightarrow> ('s, int) call"
  sys_accept :: "int \<Rightarrow> ('s, int) call"
  sys_connect :: "int \<Rightarrow> sockaddr_in \<Rightarrow> ('s, int) call"
  sys_gethostbyname :: "string \<Rightarrow> ('s, hostent option) call"
  sys_gethostbyaddr :: "u8 list \<Rightarrow> int \<Rightarrow> ('s, hostent option) call"
  sys_shutdown :: "int \<Rightarrow> ('s, int) call"
  sys_close :: "int \<Rightarrow> ('s, int) call"
  sys_read :: "int \<Rightarrow> nat \<Rightarrow> ('s, int \<times> u8 list) call"
  sys_write :: "int \<Rightarrow> u8 list \<Rightarrow> ('s, int) call"

definition htons :: "('s, 'm) net_scheme \<Rightarrow> u16 \<Rightarrow> u16" where
  "htons N x = (if big_endian N then x else reverse_2 x)"

definition ntohs :: "('s, 'm) net_scheme \<Rightarrow> u16 \<Rightarrow> u16" where
  "ntohs N x = (if big_endian N then x else reverse_2 x)"

definition Socket :: "('s, 'm) net_scheme \<Rightarrow> int \<Rightarrow> int \<Rightarrow> int \<Rightarrow> ('s, int outcome) call" where
  "Socket N domain type protocol = checked N ''Socket error'' negative (sys_socket N domain type protocol)"

definition Setsockopt :: "('s, 'm) net_scheme \<Rightarrow> int \<Rightarrow> int \<Rightarrow> int \<Rightarrow> int \<Rightarrow> ('s, unit outcome) call" where
  "Setsockopt N s level optname optval = ensured N ''Setsockopt error'' negative (sys_setsockopt N s level optname optval)"

definition Bind :: "('s, 'm) net_scheme \<Rightarrow> int \<Rightarrow> sockaddr_in \<Rightarrow> ('s, unit outcome) call" where
  "Bind N sockfd my_addr = ensured N ''Bind error'' negative (sys_bind N sockfd my_addr)"

definition Listen :: "('s, 'm) net_scheme \<Rightarrow> int \<Rightarrow> int \<Rightarrow> ('s, unit outcome) call" where
  "Listen N s backlog = ensured N ''Listen error'' negative (sys_listen N s backlog)"

definition Accept :: "('s, 'm) net_scheme \<Rightarrow> int \<Rightarrow> ('s, int outcome) call" where
  "Accept N s = checked N ''Accept error'' negative (sys_accept N s)"

definition Connect :: "('s, 'm) net_scheme \<Rightarrow> int \<Rightarrow> sockaddr_in \<Rightarrow> ('s, unit outcome) call" where
  "Connect N sockfd serv_addr = ensured N ''Connect error'' negative (sys_connect N sockfd serv_addr)"

definition Gethostbyname :: "('s, 'm) net_scheme \<Rightarrow> string \<Rightarrow> ('s, hostent outcome) call" where
  "Gethostbyname N name = checked_pointer (dns_error N ''Gethostbyname error'') (sys_gethostbyname N name)"

definition Gethostbyaddr :: "('s, 'm) net_scheme \<Rightarrow> u8 list \<Rightarrow> int \<Rightarrow> ('s, hostent outcome) call" where
  "Gethostbyaddr N addr type = checked_pointer (dns_error N ''Gethostbyaddr error'') (sys_gethostbyaddr N addr type)"

section \<open>Opening a connection\<close>

definition Rio_readinitb :: "rio_t \<Rightarrow> int \<Rightarrow> rio_t" where
  "Rio_readinitb rp fd = rio_readinitb rp fd"

definition LISTENQ :: int where "LISTENQ = 1024"

text \<open>
  The copy of the first address of a host into the four bytes of an address; it is undefined without an
  address, or with one that does not fit or is shorter than \<open>h_length\<close>.
\<close>

definition host_address :: "hostent \<Rightarrow> u8 list \<Rightarrow> u8 list option" where
  "host_address hp old = do {
     a \<leftarrow> aget (h_addr_list hp) 0;
     c_assert (h_length hp \<le> length a \<and> h_length hp \<le> length old);
     Some (take (h_length hp) a @ drop (h_length hp) old)
   }"

definition open_clientfd :: "('s, 'm) net_scheme \<Rightarrow> string \<Rightarrow> int \<Rightarrow> 's \<Rightarrow> (int \<times> 's) option" where
  "open_clientfd N hostname port s = (
     let (clientfd, s) = sys_socket N (AF_INET N) (SOCK_STREAM N) 0 s in
     if clientfd < 0 then Some (-1, s) else
     let (hp, s) = sys_gethostbyname N hostname s in
     case hp of None \<Rightarrow> Some (-2, s)
     | Some hp \<Rightarrow> do {
         ip \<leftarrow> host_address hp (sin_addr bzero_addr);
         let serveraddr = bzero_addr\<lparr>sin_family := word_of_int (AF_INET N), sin_addr := ip,
           sin_port := htons N (word_of_int port)\<rparr>;
         let (rc, s) = sys_connect N clientfd serveraddr s;
         Some (if rc < 0 then -1 else clientfd, s)
       })"

definition open_listenfd :: "('s, 'm) net_scheme \<Rightarrow> int \<Rightarrow> ('s, int) call" where
  "open_listenfd N port s = (
     let (listenfd, s) = sys_socket N (AF_INET N) (SOCK_STREAM N) 0 s in
     if listenfd < 0 then (-1, s) else
     let (rc, s) = sys_setsockopt N listenfd (SOL_SOCKET N) (SO_REUSEADDR N) 1 s in
     if rc < 0 then (-1, s) else
     let serveraddr = bzero_addr\<lparr>sin_family := word_of_int (AF_INET N), sin_port := htons N (word_of_int port)\<rparr>;
         (rc, s) = sys_bind N listenfd serveraddr s in
     if rc < 0 then (-1, s) else
     let (rc, s) = sys_listen N listenfd LISTENQ s in
     if rc < 0 then (-1, s) else (listenfd, s))"

definition Open_clientfd :: "('s, 'm) net_scheme \<Rightarrow> string \<Rightarrow> int \<Rightarrow> 's \<Rightarrow> (int outcome \<times> 's) option" where
  "Open_clientfd N hostname port s = do {
     (rc, s) \<leftarrow> open_clientfd N hostname port s;
     Some (if rc < 0 then
         if rc = -1 then unix_error N ''Open_clientfd Unix error'' s else dns_error N ''Open_clientfd DNS error'' s
       else Returned rc, s)
   }"

definition Open_listenfd :: "('s, 'm) net_scheme \<Rightarrow> int \<Rightarrow> ('s, int outcome) call" where
  "Open_listenfd N port s = (let (rc, s) = open_listenfd N port s in
     (if rc < 0 then unix_error N ''Open_listenfd error'' s else Returned rc, s))"

section \<open>The descriptors that are open\<close>

text \<open>
  What the kernel promises about the set \<open>fds\<close> of open descriptors: \<open>socket\<close> and \<open>accept\<close> open one that
  was not open before, or fail; \<open>close\<close> closes its argument, whatever it returns; nothing else opens or
  closes a descriptor.
\<close>

definition opens :: "('s \<Rightarrow> int set) \<Rightarrow> 's \<Rightarrow> int \<times> 's \<Rightarrow> bool" where
  "opens fds s r \<longleftrightarrow> (case r of (fd, s') \<Rightarrow>
     if fd < 0 then fds s' = fds s else fd \<notin> fds s \<and> fds s' = insert fd (fds s))"

definition fd_laws :: "('s, 'm) net_scheme \<Rightarrow> ('s \<Rightarrow> int set) \<Rightarrow> bool" where
  "fd_laws N fds \<longleftrightarrow>
     (\<forall>s d t p. opens fds s (sys_socket N d t p s)) \<and> (\<forall>s fd. opens fds s (sys_accept N fd s)) \<and>
     (\<forall>s fd l n v. fds (snd (sys_setsockopt N fd l n v s)) = fds s) \<and>
     (\<forall>s fd a. fds (snd (sys_bind N fd a s)) = fds s) \<and> (\<forall>s fd. fds (snd (sys_getsockname N fd s)) = fds s) \<and>
     (\<forall>s fd b. fds (snd (sys_listen N fd b s)) = fds s) \<and> (\<forall>s fd a. fds (snd (sys_connect N fd a s)) = fds s) \<and>
     (\<forall>s h. fds (snd (sys_gethostbyname N h s)) = fds s) \<and> (\<forall>s fd. fds (snd (sys_shutdown N fd s)) = fds s) \<and>
     (\<forall>s fd. fds (snd (sys_close N fd s)) = fds s - {fd}) \<and> (\<forall>s fd n. fds (snd (sys_read N fd n s)) = fds s) \<and>
     (\<forall>s fd b. fds (snd (sys_write N fd b s)) = fds s) \<and> (\<forall>s. finite (fds s))"

lemma fd_laws_open:
  assumes "fd_laws N fds"
  shows "sys_socket N d t p s = (fd, s') \<Longrightarrow> fd < 0 \<Longrightarrow> fds s' = fds s"
    "sys_socket N d t p s = (fd, s') \<Longrightarrow> \<not> fd < 0 \<Longrightarrow> fd \<notin> fds s \<and> fds s' = insert fd (fds s)"
    "sys_accept N l s = (fd, s') \<Longrightarrow> fd < 0 \<Longrightarrow> fds s' = fds s"
    "sys_accept N l s = (fd, s') \<Longrightarrow> \<not> fd < 0 \<Longrightarrow> fd \<notin> fds s \<and> fds s' = insert fd (fds s)"
  using assms unfolding fd_laws_def opens_def by (metis (mono_tags, lifting) case_prod_conv)+

lemma fd_laws_keep:
  assumes "fd_laws N fds"
  shows "sys_setsockopt N fd l n v s = (r1, s') \<Longrightarrow> fds s' = fds s" "sys_bind N fd a s = (r2, s') \<Longrightarrow> fds s' = fds s"
    "sys_getsockname N fd s = (r3, s') \<Longrightarrow> fds s' = fds s" "sys_listen N fd b s = (r4, s') \<Longrightarrow> fds s' = fds s"
    "sys_connect N fd a s = (r5, s') \<Longrightarrow> fds s' = fds s" "sys_gethostbyname N h s = (r6, s') \<Longrightarrow> fds s' = fds s"
    "sys_shutdown N fd s = (r7, s') \<Longrightarrow> fds s' = fds s" "sys_close N fd s = (r8, s') \<Longrightarrow> fds s' = fds s - {fd}"
    "sys_read N fd k s = (r9, s') \<Longrightarrow> fds s' = fds s" "sys_write N fd bs s = (r10, s') \<Longrightarrow> fds s' = fds s"
  using assms unfolding fd_laws_def by (metis snd_conv)+

lemma fd_laws_finite: "fd_laws N fds \<Longrightarrow> finite (fds s)"
  by (simp add: fd_laws_def)

lemma ntohs_htons [simp]: "ntohs N (htons N x) = x"
  by (simp add: ntohs_def htons_def)


text \<open>A system call left one more descriptor open, which nobody holds.\<close>

definition leaked :: "('s \<Rightarrow> int set) \<Rightarrow> 's \<Rightarrow> 's \<Rightarrow> bool" where
  "leaked fds s s' \<longleftrightarrow> (\<exists>fd. fd \<notin> fds s \<and> fds s' = insert fd (fds s))"

lemma not_leaked: "fds s' = fds s \<Longrightarrow> \<not> leaked fds s s'"
  by (auto simp: leaked_def)

section \<open>A process for the examples\<close>

text \<open>
  A process with at most six descriptors: \<open>arriving\<close> are the bytes of the connections that will be
  accepted, \<open>unread\<close> those of the connections that are open, \<open>wire\<close> what the process has written. Ports
  below 1024 cannot be bound, and only \<open>localhost\<close> is known.
\<close>

record process =
  fd_table :: "int list"
  arriving :: "u8 list list"
  unread :: "int \<Rightarrow> u8 list"
  wire :: "u8 list"

definition new_fd :: "process \<Rightarrow> int" where
  "new_fd p = foldr max (fd_table p) 2 + 1"

definition allocate_fd :: "process \<Rightarrow> int \<times> process" where
  "allocate_fd p = (if length (fd_table p) < 6 then (new_fd p, p\<lparr>fd_table := new_fd p # fd_table p\<rparr>) else (-1, p))"

definition process_net :: "process net" where
  "process_net = \<lparr>strerror = (\<lambda>n. ''Too many open files''), errno = (\<lambda>p. 24), h_errno = (\<lambda>p. 1),
     big_endian = False, AF_INET = 2, PF_INET = 2, SOCK_STREAM = 1, SOL_SOCKET = 1, SO_REUSEADDR = 2,
     sys_socket = (\<lambda>d t pr p. allocate_fd p), sys_setsockopt = (\<lambda>fd l n v p. (0, p)),
     sys_bind = (\<lambda>fd a p. (if reverse_2 (sin_port a) < 1024 then -1 else 0, p)),
     sys_getsockname = (\<lambda>fd p. (None, p)), sys_listen = (\<lambda>fd b p. (0, p)),
     sys_accept = (\<lambda>fd p. case arriving p of [] \<Rightarrow> (-1, p)
       | bs # rest \<Rightarrow> (let (c, p) = allocate_fd p in
           if c < 0 then (c, p) else (c, p\<lparr>arriving := rest, unread := (unread p)(c := bs)\<rparr>))),
     sys_connect = (\<lambda>fd a p. (0, p)),
     sys_gethostbyname = (\<lambda>h p. (if h = ''localhost'' then Some \<lparr>h_addr_list = [[127, 0, 0, 1]], h_length = 4\<rparr> else None, p)),
     sys_gethostbyaddr = (\<lambda>a t p. (None, p)), sys_shutdown = (\<lambda>fd p. (0, p)),
     sys_close = (\<lambda>fd p. (0, p\<lparr>fd_table := removeAll fd (fd_table p)\<rparr>)),
     sys_read = (\<lambda>fd n p. ((int (length (take n (unread p fd))), take n (unread p fd)),
       p\<lparr>unread := (unread p)(fd := drop n (unread p fd))\<rparr>)),
     sys_write = (\<lambda>fd bs p. (int (length bs), p\<lparr>wire := wire p @ bs\<rparr>))\<rparr>"

definition open_fds :: "process \<Rightarrow> int set" where "open_fds p = set (fd_table p)"

lemma new_fd_fresh: "new_fd p \<notin> set (fd_table p)" and new_fd_pos: "\<not> new_fd p < 0"
proof -
  have le: "\<forall>x \<in> set xs. x \<le> foldr max xs (2::int)" "2 \<le> foldr max xs (2::int)" for xs
    by (induction xs) auto
  then show "new_fd p \<notin> set (fd_table p)" "\<not> new_fd p < 0" unfolding new_fd_def by (force, smt (verit))
qed

lemma process_laws: "fd_laws process_net open_fds"
  unfolding fd_laws_def
  by (intro conjI allI) (auto simp: process_net_def opens_def open_fds_def allocate_fd_def new_fd_fresh
      new_fd_pos split: list.splits)

section \<open>What the helpers leave open\<close>

text \<open>
  (C31) A listening socket: on success \<open>open_listenfd\<close> returns the one descriptor that it has opened. On
  failure it returns -1, and the socket, unless it is the socket that could not be created, stays open
  although the caller has no descriptor for it.
\<close>

theorem open_listenfd_descriptors:
  assumes "fd_laws N fds" "open_listenfd N port s = (r, s')"
  shows "(if 0 \<le> r then r \<notin> fds s \<and> fds s' = insert r (fds s)
     else r = -1 \<and> (if fst (sys_socket N (AF_INET N) (SOCK_STREAM N) 0 s) < 0 then fds s' = fds s else leaked fds s s'))"
proof -
  obtain fd s1 where fd: "sys_socket N (AF_INET N) (SOCK_STREAM N) 0 s = (fd, s1)" by (rule prod.exhaust)
  obtain r2 s2 where 2: "sys_setsockopt N fd (SOL_SOCKET N) (SO_REUSEADDR N) 1 s1 = (r2, s2)" by (rule prod.exhaust)
  obtain r3 s3 where 3: "sys_bind N fd
    (bzero_addr\<lparr>sin_family := word_of_int (AF_INET N), sin_port := htons N (word_of_int port)\<rparr>) s2 = (r3, s3)" by (rule prod.exhaust)
  obtain r4 s4 where 4: "sys_listen N fd LISTENQ s3 = (r4, s4)" by (rule prod.exhaust)
  note kept = fd_laws_keep(1) [OF assms(1) 2] fd_laws_keep(2) [OF assms(1) 3] fd_laws_keep(4) [OF assms(1) 4]
  show ?thesis
  proof (cases "fd < 0")
    case True
    with fd_laws_open(1) [OF assms(1) fd] assms(2) fd show ?thesis by (simp add: open_listenfd_def)
  next
    case False
    note new = fd_laws_open(2) [OF assms(1) fd False]
    have "open_listenfd N port s =
        (if r2 < 0 then (-1, s2) else if r3 < 0 then (-1, s3) else if r4 < 0 then (-1, s4) else (fd, s4))"
      using False by (simp add: open_listenfd_def fd 2 3 4)
    with assms(2) kept have "r = fd \<or> r = -1" "fds s' = fds s1" by (simp_all split: if_splits)
    moreover have "leaked fds s s'" using new \<open>fds s' = fds s1\<close> unfolding leaked_def by (intro exI [of _ fd]) simp
    ultimately show ?thesis using new fd False by (cases "r = fd") simp_all
  qed
qed

theorem open_listenfd_descriptors_witness:
  "\<exists>r s'. open_listenfd process_net 80 (process.make [2, 1, 0] [] (\<lambda>fd. []) []) = (r, s') \<and> r = -1 \<and>
     leaked open_fds (process.make [2, 1, 0] [] (\<lambda>fd. []) []) s'"
proof -
  let ?p = "process.make [2, 1, 0] [] (\<lambda>fd. []) []"
  have sock: "sys_socket process_net (AF_INET process_net) (SOCK_STREAM process_net) 0 ?p =
      (3, ?p\<lparr>fd_table := [3, 2, 1, 0]\<rparr>)"
    by (simp add: process_net_def allocate_fd_def new_fd_def process.defs)
  have "open_listenfd process_net 80 ?p = (-1, ?p\<lparr>fd_table := [3, 2, 1, 0]\<rparr>)"
    unfolding open_listenfd_def sock by (simp add: process_net_def bzero_addr_def htons_def)
  from open_listenfd_descriptors [OF process_laws this] this show ?thesis by (auto simp: sock)
qed

end
