(* ===== verification/Sim_Getopt.thy ===== *)
theory Sim_Getopt
  imports Sim_Program
begin

text \<open>
  The command line of the simulator: \<open>getopt_long\<close> of the C library, as \<open>main\<close> of
  \<^verbatim>\<open>arm_simulator.c\<close> uses it, and the loop of \<open>main\<close> over what it returns. \<open>getopt_long\<close> is that of
  glibc without \<^verbatim>\<open>POSIXLY_CORRECT\<close>: operands are skipped wherever they stand, long names may be
  abbreviated, every error returns \<open>?\<close>. Its messages are left out.
\<close>

section \<open>The options of the simulator\<close>

record longopt =
  opt_name :: string
  has_arg :: bool
  opt_val :: char

definition longopts :: "longopt list" where
  "longopts = [
     \<lparr>opt_name = ''gdb-port'', has_arg = True, opt_val = CHR ''g''\<rparr>,
     \<lparr>opt_name = ''irq-port'', has_arg = True, opt_val = CHR ''i''\<rparr>,
     \<lparr>opt_name = ''trace-file'', has_arg = True, opt_val = CHR ''t''\<rparr>,
     \<lparr>opt_name = ''trace-registers'', has_arg = False, opt_val = CHR ''r''\<rparr>,
     \<lparr>opt_name = ''trace-memory'', has_arg = False, opt_val = CHR ''m''\<rparr>,
     \<lparr>opt_name = ''trace-state'', has_arg = True, opt_val = CHR ''s''\<rparr>,
     \<lparr>opt_name = ''trace-position'', has_arg = False, opt_val = CHR ''p''\<rparr>,
     \<lparr>opt_name = ''help'', has_arg = False, opt_val = CHR ''h''\<rparr>,
     \<lparr>opt_name = ''debug'', has_arg = True, opt_val = CHR ''d''\<rparr>]"

definition shortopts :: string where "shortopts = ''g:i:ht:rmspd:''"

section \<open>The library function\<close>

text \<open>The search for a letter in the short options: whether it has an argument, \<open>None\<close> when it is unknown.\<close>

fun find_short :: "string \<Rightarrow> char \<Rightarrow> bool option" where
  "find_short [] c = None"
| "find_short (x # xs) c = (if x = c \<and> c \<noteq> CHR '':'' \<and> c \<noteq> CHR '';'' then Some (take 1 xs = '':'') else find_short xs c)"

text \<open>The search for a long name: an exact match, or the only option that the name abbreviates.\<close>

definition find_long :: "longopt list \<Rightarrow> string \<Rightarrow> longopt option" where
  "find_long opts name = (case filter (\<lambda>p. opt_name p = name) opts of
       p # _ \<Rightarrow> Some p
     | [] \<Rightarrow> (case filter (\<lambda>p. take (length name) (opt_name p) = name) opts of
           [] \<Rightarrow> None
         | p # ps \<Rightarrow> if list_all (\<lambda>q. has_arg q = has_arg p \<and> opt_val q = opt_val p) ps then Some p else None))"

text \<open>
  The state between two calls: the rest of a word of short options, and the words that follow. A call
  returns the option with \<open>optarg\<close> and the new state.
\<close>

type_synonym getopt_state = "string \<times> string list"
type_synonym getopt_result = "(char \<times> string option) \<times> getopt_state"

definition bad_option :: char where "bad_option = CHR ''?''"

fun short_option :: "string \<Rightarrow> char \<Rightarrow> string \<Rightarrow> string list \<Rightarrow> getopt_result" where
  "short_option opts c cs ws = (case find_short opts c of
       None \<Rightarrow> ((bad_option, None), cs, ws)
     | Some False \<Rightarrow> ((c, None), cs, ws)
     | Some True \<Rightarrow>
         (if cs \<noteq> [] then ((c, Some cs), [], ws)
          else case ws of [] \<Rightarrow> ((bad_option, None), [], []) | w # ws \<Rightarrow> ((c, Some w), [], ws)))"

definition long_option :: "longopt list \<Rightarrow> string \<Rightarrow> string list \<Rightarrow> getopt_result" where
  "long_option opts word ws = (
     let name = takeWhile (\<lambda>c. c \<noteq> CHR ''='') word;
         given = (if CHR ''='' \<in> set word then Some (drop (length name + 1) word) else None)
     in case find_long opts name of
       None \<Rightarrow> ((bad_option, None), [], ws)
     | Some p \<Rightarrow>
         (case given of
            Some v \<Rightarrow> if has_arg p then ((opt_val p, Some v), [], ws) else ((bad_option, None), [], ws)
          | None \<Rightarrow>
              if has_arg p
              then (case ws of [] \<Rightarrow> ((bad_option, None), [], []) | w # ws \<Rightarrow> ((opt_val p, Some w), [], ws))
              else ((opt_val p, None), [], ws)))"

definition is_operand :: "string \<Rightarrow> bool" where
  "is_operand w \<longleftrightarrow> w = [] \<or> hd w \<noteq> CHR ''-'' \<or> w = ''-''"

fun next_word :: "string \<Rightarrow> longopt list \<Rightarrow> string list \<Rightarrow> getopt_result option" where
  "next_word opts lopts [] = None"
| "next_word opts lopts (w # ws) =
     (if w = ''--'' then None
      else if is_operand w then next_word opts lopts ws
      else if take 2 w = ''--'' then Some (long_option lopts (drop 2 w) ws)
      else Some (short_option opts (w ! 1) (drop 2 w) ws))"

text \<open>\<open>None\<close> is the result \<open>-1\<close> at the end of the options.\<close>

definition getopt_long :: "string \<Rightarrow> longopt list \<Rightarrow> getopt_state \<Rightarrow> getopt_result option" where
  "getopt_long opts lopts st = (case st of
       ([], ws) \<Rightarrow> next_word opts lopts ws
     | (c # cs, ws) \<Rightarrow> Some (short_option opts c cs ws))"

text \<open>Every call uses up a part of the command line.\<close>

definition left :: "getopt_state \<Rightarrow> nat" where
  "left st = length (fst st) + sum_list (map (\<lambda>w. length w + 1) (snd st))"

lemma short_option_left: "short_option opts c cs ws = (r, st) \<Longrightarrow> left st \<le> length cs + sum_list (map (\<lambda>w. length w + 1) ws)"
  by (auto simp: left_def split: option.splits bool.splits if_splits list.splits)

lemma long_option_left: "long_option opts word ws = (r, st) \<Longrightarrow> left st \<le> sum_list (map (\<lambda>w. length w + 1) ws)"
  by (auto simp: left_def long_option_def Let_def split: option.splits if_splits list.splits)

lemma next_word_left: "next_word opts lopts ws = Some (r, st) \<Longrightarrow> left st < sum_list (map (\<lambda>w. length w + 1) ws)"
proof (induction opts lopts ws rule: next_word.induct)
  case (2 opts lopts w ws)
  show ?case
  proof (cases "is_operand w \<or> take 2 w = ''--''")
    case True
    then show ?thesis using 2 by (force split: if_splits dest: long_option_left)
  next
    case False
    with 2(2) have "short_option opts (w ! 1) (drop 2 w) ws = (r, st)" "w \<noteq> []"
      by (auto simp: is_operand_def split: if_splits simp del: short_option.simps)
    with short_option_left [OF this(1)] show ?thesis by simp
  qed
qed simp

lemma getopt_long_left: "getopt_long opts lopts st = Some (r, st') \<Longrightarrow> left st' < left st"
proof -
  assume step: "getopt_long opts lopts st = Some (r, st')"
  obtain cluster ws where st: "st = (cluster, ws)" by (cases st)
  show ?thesis
  proof (cases cluster)
    case Nil
    with step st next_word_left [of opts lopts ws r st'] show ?thesis by (simp add: getopt_long_def left_def)
  next
    case (Cons c cs)
    with step st short_option_left [of opts c cs ws r st'] show ?thesis
      by (simp add: getopt_long_def left_def del: short_option.simps)
  qed
qed

section \<open>The loop of the program\<close>

text \<open>The loop of \<open>main\<close> over the options; \<open>None\<close> is undefined behaviour.\<close>

function option_loop :: "(string \<Rightarrow> bool) \<Rightarrow> simulator_options \<Rightarrow> getopt_state \<Rightarrow> simulator_options status_or option" where
  "option_loop opens sim st = (case getopt_long shortopts longopts st of
       None \<Rightarrow> Some (Runs sim)
     | Some ((opt, optarg), st) \<Rightarrow> do {
         r \<leftarrow> read_option opens sim opt optarg;
         case r of Exits n \<Rightarrow> Some (Exits n) | Runs sim \<Rightarrow> option_loop opens sim st
       })"
  by auto

termination
  by (relation "measure (\<lambda>(opens, sim, st). left st)") (auto dest: getopt_long_left)

declare option_loop.simps [simp del]

text \<open>\<open>argv\<close> without the name of the program.\<close>

definition command_line :: "(string \<Rightarrow> bool) \<Rightarrow> string list \<Rightarrow> simulator_options status_or option" where
  "command_line opens args = option_loop opens default_options ([], args)"

section \<open>Spellings of options\<close>

text \<open>
  The options by name, with the letter that \<open>main\<close> handles and whether an argument follows the name (the usage
  text shows \<^verbatim>\<open>--trace-state\<close> without one). As letters, the same options take the same arguments but
  for \<open>s\<close>.
\<close>

definition documented :: "(string \<times> char \<times> bool) list" where
  "documented = [(''gdb-port'', CHR ''g'', True), (''irq-port'', CHR ''i'', True), (''trace-file'', CHR ''t'', True),
     (''trace-registers'', CHR ''r'', False), (''trace-memory'', CHR ''m'', False), (''trace-state'', CHR ''s'', True),
     (''trace-position'', CHR ''p'', False), (''help'', CHR ''h'', False), (''debug'', CHR ''d'', True)]"

definition named :: "string \<Rightarrow> (char \<times> bool) option" where
  "named n = (case filter (\<lambda>(name, _). take (length n) name = n) documented of [(name, c, t)] \<Rightarrow> Some (c, t) | _ \<Rightarrow> None)"

definition flag_letter :: "char \<Rightarrow> bool" where
  "flag_letter c \<longleftrightarrow> c \<in> {CHR ''h'', CHR ''r'', CHR ''m'', CHR ''s'', CHR ''p''}"

definition arg_letter :: "char \<Rightarrow> bool" where
  "arg_letter c \<longleftrightarrow> c \<in> {CHR ''g'', CHR ''i'', CHR ''t'', CHR ''d''}"

lemma find_short_eq:
  "find_short shortopts c = (if flag_letter c then Some False else if arg_letter c then Some True else None)"
proof -
  consider "flag_letter c" | "arg_letter c" | "c = CHR '':''" | "c \<notin> set shortopts"
    by (auto simp: shortopts_def flag_letter_def arg_letter_def)
  then show ?thesis
  proof cases
    case 1
    then show ?thesis unfolding flag_letter_def by (elim insertE emptyE; simp add: shortopts_def)
  next
    case 2
    then show ?thesis unfolding arg_letter_def by (elim insertE emptyE; simp add: flag_letter_def shortopts_def)
  next
    case 3
    then show ?thesis by (simp add: flag_letter_def arg_letter_def shortopts_def)
  next
    case 4
    have "c \<notin> set opts \<Longrightarrow> find_short opts c = None" for opts by (induction opts) auto
    with 4 have "find_short shortopts c = None" by simp
    with 4 show ?thesis by (auto simp: flag_letter_def arg_letter_def shortopts_def)
  qed
qed

lemma arg_not_flag: "arg_letter c \<Longrightarrow> \<not> flag_letter c"
  by (auto simp: flag_letter_def arg_letter_def)

text \<open>No name is the start of another one, and no two options have the same letter.\<close>

lemma documented_options: "documented = map (\<lambda>p. (opt_name p, opt_val p, has_arg p)) longopts"
  by (simp add: documented_def longopts_def)

lemma exact_names:
  "list_all (\<lambda>n. map_option (\<lambda>p. (opt_val p, has_arg p)) (find_long longopts n) = named n) (map opt_name longopts)"
  by code_simp

lemma find_long_eq: "map_option (\<lambda>p. (opt_val p, has_arg p)) (find_long longopts n) = named n"
proof (cases "n \<in> set (map opt_name longopts)")
  case True
  with exact_names show ?thesis by (simp only: list_all_iff)
next
  case False
  define ps where "ps = filter (\<lambda>p. take (length n) (opt_name p) = n) longopts"
  have exact: "filter (\<lambda>p. opt_name p = n) longopts = []" using False by (auto simp: filter_empty_conv)
  have "distinct (map opt_val longopts)" by (simp add: longopts_def)
  then have distinct: "distinct (map opt_val ps)" unfolding ps_def by (rule distinct_map_filter)
  have named: "named n = (case map (\<lambda>p. (opt_name p, opt_val p, has_arg p)) ps of [(name, c, t)] \<Rightarrow> Some (c, t) | _ \<Rightarrow> None)"
    by (simp add: named_def documented_options ps_def filter_map comp_def)
  have long: "find_long longopts n =
      (case ps of [] \<Rightarrow> None | p # ps \<Rightarrow> if list_all (\<lambda>q. has_arg q = has_arg p \<and> opt_val q = opt_val p) ps then Some p else None)"
    by (simp add: find_long_def exact ps_def)
  show ?thesis
  proof (cases ps)
    case (Cons p qs)
    then show ?thesis using distinct by (cases qs) (auto simp: named long)
  qed (simp add: named long)
qed

lemma find_long_named:
  "named n = Some (c, t) \<Longrightarrow> \<exists>p. find_long longopts n = Some p \<and> opt_val p = c \<and> has_arg p = t"
  "named n = None \<Longrightarrow> find_long longopts n = None"
  using find_long_eq [of n] by (cases "find_long longopts n"; simp)+

text \<open>
  The words \<open>ws\<close> spell the options \<open>os\<close>, with operands between them: letters alone or together, an argument in
  the same word or in the next one, long names or what is left of them.
\<close>

inductive spells :: "string list \<Rightarrow> (char \<times> string option) list \<Rightarrow> bool" where
  nothing: "spells [] []"
| operand: "is_operand w \<Longrightarrow> spells ws os \<Longrightarrow> spells (w # ws) os"
| flags: "list_all flag_letter cs \<Longrightarrow> cs \<noteq> [] \<Longrightarrow> spells ws os \<Longrightarrow>
    spells ((CHR ''-'' # cs) # ws) (map (\<lambda>c. (c, None)) cs @ os)"
| attached: "list_all flag_letter cs \<Longrightarrow> arg_letter c \<Longrightarrow> v \<noteq> [] \<Longrightarrow> spells ws os \<Longrightarrow>
    spells ((CHR ''-'' # cs @ c # v) # ws) (map (\<lambda>c. (c, None)) cs @ (c, Some v) # os)"
| separate: "list_all flag_letter cs \<Longrightarrow> arg_letter c \<Longrightarrow> spells ws os \<Longrightarrow>
    spells ((CHR ''-'' # cs @ [c]) # v # ws) (map (\<lambda>c. (c, None)) cs @ (c, Some v) # os)"
| name: "named n = Some (c, False) \<Longrightarrow> CHR ''='' \<notin> set n \<Longrightarrow> n \<noteq> [] \<Longrightarrow> spells ws os \<Longrightarrow>
    spells ((''--'' @ n) # ws) ((c, None) # os)"
| name_equals: "named n = Some (c, True) \<Longrightarrow> CHR ''='' \<notin> set n \<Longrightarrow> spells ws os \<Longrightarrow>
    spells ((''--'' @ n @ CHR ''='' # v) # ws) ((c, Some v) # os)"
| name_separate: "named n = Some (c, True) \<Longrightarrow> CHR ''='' \<notin> set n \<Longrightarrow> n \<noteq> [] \<Longrightarrow> spells ws os \<Longrightarrow>
    spells ((''--'' @ n) # v # ws) ((c, Some v) # os)"

text \<open>The loop goes on behind the options that have been read.\<close>

definition go_on ::
  "(string \<Rightarrow> bool) \<Rightarrow> simulator_options status_or option \<Rightarrow> getopt_state \<Rightarrow> simulator_options status_or option" where
  "go_on opens m st = do { r \<leftarrow> m; case r of Exits n \<Rightarrow> Some (Exits n) | Runs sim \<Rightarrow> option_loop opens sim st }"

lemma go_on_simps [simp]:
  "go_on opens (Some (Runs sim)) st = option_loop opens sim st" "go_on opens (Some (Exits n)) st = Some (Exits n)"
  "go_on opens None st = None"
  by (simp_all add: go_on_def)

lemma option_loop_next:
  "getopt_long shortopts longopts st = Some ((c, a), st') \<Longrightarrow> option_loop opens sim st = go_on opens (read_option opens sim c a) st'"
  by (subst option_loop.simps) (simp add: go_on_def)

lemma option_loop_end: "getopt_long shortopts longopts st = None \<Longrightarrow> option_loop opens sim st = Some (Runs sim)"
  by (subst option_loop.simps) simp

lemma option_loop_same: "getopt_long shortopts longopts st = getopt_long shortopts longopts st' \<Longrightarrow>
    option_loop opens sim st = option_loop opens sim st'"
  by (subst (1 2) option_loop.simps) simp

lemma go_on_read:
  assumes "\<And>sim. option_loop opens sim st = go_on opens (read_options opens sim os) st'"
  shows "go_on opens (read_option opens sim c a) st = go_on opens (read_options opens sim ((c, a) # os)) st'"
proof (cases "read_option opens sim c a")
  case (Some r)
  then show ?thesis using assms by (cases r) simp_all
qed simp

lemma loop_flags:
  assumes "list_all flag_letter cs" "\<And>sim. option_loop opens sim (rest, ws) = go_on opens (read_options opens sim os) st'"
  shows "option_loop opens sim (cs @ rest, ws) = go_on opens (read_options opens sim (map (\<lambda>c. (c, None)) cs @ os)) st'"
  using assms(1)
proof (induction cs arbitrary: sim)
  case (Cons c cs)
  have "option_loop opens sim ((c # cs) @ rest, ws) = go_on opens (read_option opens sim c None) (cs @ rest, ws)"
    by (rule option_loop_next) (use Cons.prems in \<open>simp add: getopt_long_def find_short_eq\<close>)
  also have "\<dots> = go_on opens (read_options opens sim ((c, None) # map (\<lambda>c. (c, None)) cs @ os)) st'"
    by (rule go_on_read) (use Cons in simp)
  finally show ?case by simp
qed (use assms(2) in simp)

lemma loop_letters:
  "cs \<noteq> [] \<Longrightarrow> hd cs \<noteq> CHR ''-'' \<Longrightarrow> option_loop opens sim ([], (CHR ''-'' # cs) # ws) = option_loop opens sim (cs, ws)"
  by (rule option_loop_same) (cases cs; simp add: getopt_long_def is_operand_def)

lemma long_word:
  assumes "n \<noteq> []"
  shows "getopt_long shortopts longopts ([], (''--'' @ n) # ws) = Some (long_option longopts n ws)"
  using assms by (simp add: getopt_long_def is_operand_def)

lemma takeWhile_name: "CHR ''='' \<notin> set n \<Longrightarrow> takeWhile (\<lambda>c. c \<noteq> CHR ''='') (n @ CHR ''='' # v) = n"
  "CHR ''='' \<notin> set n \<Longrightarrow> takeWhile (\<lambda>c. c \<noteq> CHR ''='') n = n"
  by (subst takeWhile_append2; auto) (auto simp: takeWhile_eq_all_conv)

lemma letter_not_dash: "list_all flag_letter cs \<Longrightarrow> arg_letter c \<Longrightarrow> hd (cs @ c # v) \<noteq> CHR ''-''"
  "list_all flag_letter cs \<Longrightarrow> cs \<noteq> [] \<Longrightarrow> hd cs \<noteq> CHR ''-''"
  by (cases cs; auto simp: flag_letter_def arg_letter_def)+

lemma spelled_options:
  "spells ws os \<Longrightarrow> option_loop opens sim ([], ws @ rest) = go_on opens (read_options opens sim os) ([], rest)"
proof (induction arbitrary: sim rule: spells.induct)
  case nothing
  then show ?case by simp
next
  case (operand w ws os)
  have "option_loop opens sim ([], (w # ws) @ rest) = option_loop opens sim ([], ws @ rest)"
    by (rule option_loop_same) (use operand(1) in \<open>auto simp: getopt_long_def is_operand_def\<close>)
  with operand.IH show ?case by simp
next
  case (flags cs ws os)
  show ?case
    using loop_flags [OF flags(1) flags.IH] loop_letters [OF flags(2)] letter_not_dash(2) [OF flags(1,2)]
    by (simp add: loop_flags)
next
  case (attached cs c v ws os)
  have "option_loop opens sim (c # v, ws @ rest) = go_on opens (read_options opens sim ((c, Some v) # os)) ([], rest)" for sim
    by (subst option_loop_next [of _ c "Some v" "([], ws @ rest)"])
      (use attached(2,3) go_on_read [OF attached.IH] in \<open>simp_all add: getopt_long_def find_short_eq arg_not_flag del: read_options.simps\<close>)
  from loop_flags [OF attached(1) this] show ?case
    using loop_letters [of "cs @ c # v"] letter_not_dash(1) [OF attached(1,2)] by simp
next
  case (separate cs c ws os v)
  have "option_loop opens sim ([c], v # ws @ rest) = go_on opens (read_options opens sim ((c, Some v) # os)) ([], rest)" for sim
    by (subst option_loop_next [of _ c "Some v" "([], ws @ rest)"])
      (use separate(2) go_on_read [OF separate.IH] in \<open>simp_all add: getopt_long_def find_short_eq arg_not_flag del: read_options.simps\<close>)
  from loop_flags [OF separate(1) this] show ?case
    using loop_letters [of "cs @ [c]"] letter_not_dash(1) [OF separate(1,2)] by simp
next
  case (name n c ws os)
  from find_long_named(1) [OF name(1)] obtain p where p: "find_long longopts n = Some p" "opt_val p = c" "has_arg p = False" by auto
  have "getopt_long shortopts longopts ([], ((''--'' @ n) # ws) @ rest) = Some ((c, None), [], ws @ rest)"
    using p name(2,3) long_word [of n "ws @ rest"] by (simp add: long_option_def takeWhile_name)
  then show ?case by (simp only: option_loop_next) (rule go_on_read [OF name.IH])
next
  case (name_equals n c ws os v)
  from find_long_named(1) [OF name_equals(1)] obtain p where p: "find_long longopts n = Some p" "opt_val p = c" "has_arg p = True" by auto
  have "getopt_long shortopts longopts ([], ((''--'' @ n @ CHR ''='' # v) # ws) @ rest) = Some ((c, Some v), [], ws @ rest)"
    using p name_equals(2) long_word [of "n @ CHR ''='' # v" "ws @ rest"]
    by (simp add: long_option_def takeWhile_name)
  then show ?case by (simp only: option_loop_next) (rule go_on_read [OF name_equals.IH])
next
  case (name_separate n c ws os v)
  from find_long_named(1) [OF name_separate(1)] obtain p where p: "find_long longopts n = Some p" "opt_val p = c" "has_arg p = True" by auto
  have "getopt_long shortopts longopts ([], ((''--'' @ n) # v # ws) @ rest) = Some ((c, Some v), [], ws @ rest)"
    using p name_separate(2,3) long_word [of n "v # ws @ rest"]
    by (simp add: long_option_def takeWhile_name)
  then show ?case by (simp only: option_loop_next) (rule go_on_read [OF name_separate.IH])
qed

section \<open>What the options set\<close>

definition last_arg :: "char \<Rightarrow> (char \<times> string option) list \<Rightarrow> string option" where
  "last_arg c opts = (case filter (\<lambda>x. fst x = c) (rev opts) of [] \<Rightarrow> None | x # _ \<Rightarrow> snd x)"

definition port_of :: "char \<Rightarrow> (char \<times> string option) list \<Rightarrow> u16" where
  "port_of c opts = (case last_arg c opts of None \<Rightarrow> 0 | Some s \<Rightarrow> (case atoi (bytes s @ [0]) of None \<Rightarrow> 0 | Some v \<Rightarrow> word_of_int v))"

text \<open>An option that can be obeyed: a number that is an \<open>int\<close>, a trace file that can be written.\<close>

definition good_option :: "(string \<Rightarrow> bool) \<Rightarrow> char \<times> string option \<Rightarrow> bool" where
  "good_option opens x \<longleftrightarrow> plain_option x \<or>
     fst x \<in> {CHR ''g'', CHR ''i''} \<and> (case snd x of None \<Rightarrow> False | Some s \<Rightarrow> atoi (bytes s @ [0]) \<noteq> None) \<or>
     fst x = CHR ''t'' \<and> (case snd x of None \<Rightarrow> False | Some s \<Rightarrow> opens s)"

definition obeyed :: "(char \<times> string option) list \<Rightarrow> simulator_options \<Rightarrow> file_name list \<Rightarrow> bool" where
  "obeyed opts sim xs \<longleftrightarrow> settings opts sim xs \<and> gdb_port sim = port_of CHR ''g'' opts \<and> irq_port sim = port_of CHR ''i'' opts \<and>
     trace_file sim = last_arg CHR ''t'' opts"

lemma last_arg_snoc [simp]: "last_arg c (opts @ [(d, a)]) = (if d = c then a else last_arg c opts)"
  by (simp add: last_arg_def)

lemma port_of_other: "d \<noteq> c \<Longrightarrow> port_of c (opts @ [(d, a)]) = port_of c opts"
  by (simp add: port_of_def)

lemma settings_other:
  assumes "settings opts sim xs" "c \<in> {CHR ''g'', CHR ''i'', CHR ''t''}" "tracing sim' = tracing sim" "debugging sim' = debugging sim"
  shows "settings (opts @ [(c, a)]) sim' xs"
  using assms(2) assms(1) by (elim insertE emptyE; simp add: settings_def assms(3,4))

lemma plain_option_ports:
  assumes "read_option opens sim c a = Some (Runs sim')" "plain_option (c, a)"
  shows "gdb_port sim' = gdb_port sim \<and> irq_port sim' = irq_port sim \<and> trace_file sim' = trace_file sim"
    "c \<notin> {CHR ''g'', CHR ''i'', CHR ''t''}"
  using assms(2) assms(1) unfolding plain_option_def
  by (elim disjE conjE insertE; auto simp: read_option_def bind_eq_Some_conv)+

lemma option_obeyed:
  assumes "obeyed opts sim xs" "good_option opens (c, a)" "length (filter (\<lambda>x. fst x = CHR ''d'') (opts @ [(c, a)])) \<le> 64"
  shows "\<exists>sim' ys. read_option opens sim c a = Some (Runs sim') \<and> obeyed (opts @ [(c, a)]) sim' ys"
proof -
  have set: "settings opts sim xs" using assms(1) by (simp add: obeyed_def)
  consider "plain_option (c, a)" | s v where "c = CHR ''g''" "a = Some s" "atoi (bytes s @ [0]) = Some v"
    | s v where "c = CHR ''i''" "a = Some s" "atoi (bytes s @ [0]) = Some v" | s where "c = CHR ''t''" "a = Some s" "opens s"
    using assms(2) by (auto simp: good_option_def split: option.splits)
  then show ?thesis
  proof cases
    case 1
    from option_settings [OF set 1 assms(3)] obtain sim' ys where
      r: "read_option opens sim c a = Some (Runs sim')" "settings (opts @ [(c, a)]) sim' ys" by blast
    from plain_option_ports [OF r(1) 1] r(2) assms(1) have "obeyed (opts @ [(c, a)]) sim' ys"
      by (auto simp: obeyed_def port_of_other)
    with r(1) show ?thesis by blast
  next
    case 2
    then have "obeyed (opts @ [(c, a)]) (sim\<lparr>gdb_port := word_of_int v\<rparr>) xs"
      using assms(1) settings_other [OF set] by (simp add: obeyed_def port_of_def)
    with 2 show ?thesis by (auto simp: read_option_def)
  next
    case 3
    then have "obeyed (opts @ [(c, a)]) (sim\<lparr>irq_port := word_of_int v\<rparr>) xs"
      using assms(1) settings_other [OF set] by (simp add: obeyed_def port_of_def)
    with 3 show ?thesis by (auto simp: read_option_def)
  next
    case 4
    then have "obeyed (opts @ [(c, a)]) (sim\<lparr>trace_file := Some s\<rparr>) xs"
      using assms(1) settings_other [OF set] by (simp add: obeyed_def port_of_def)
    with 4 show ?thesis by (auto simp: read_option_def)
  qed
qed

lemma options_obeyed:
  "obeyed done sim xs \<Longrightarrow> list_all (good_option opens) opts \<Longrightarrow> length (filter (\<lambda>x. fst x = CHR ''d'') (done @ opts)) \<le> 64 \<Longrightarrow>
   \<exists>sim' ys. read_options opens sim opts = Some (Runs sim') \<and> obeyed (done @ opts) sim' ys"
proof (induction opts arbitrary: "done" sim xs)
  case (Cons x opts)
  obtain c a where x: "x = (c, a)" by (cases x)
  obtain sim1 ys where 1: "read_option opens sim c a = Some (Runs sim1)" "obeyed (done @ [(c, a)]) sim1 ys"
    using option_obeyed [OF Cons.prems(1), of opens c a] Cons.prems(2,3) x by (force split: if_splits)
  from Cons.IH [OF 1(2)] Cons.prems(2,3) x 1(1) show ?case by auto
qed auto

lemma default_obeyed: "obeyed [] default_options []"
  using default_settings by (simp add: obeyed_def port_of_def last_arg_def default_options_def)

text \<open>The file names for which debugging has been asked are those of the options.\<close>

lemma settings_debug:
  assumes "settings opts sim xs"
  shows "is_debugged (debugging sim) (Name (bytes n)) = Some (of_bool ((CHR ''d'', Some n) \<in> set opts))"
proof -
  have "is_debugged (debugging sim) (Name (bytes n)) = Some (of_bool (Name (bytes n) \<in> set xs))"
    using assms is_debugged_holds [of "debugging sim" xs] by (simp add: settings_def)
  moreover have "Name (bytes n) \<in> set xs \<longleftrightarrow> (CHR ''d'', Some n) \<in> set opts"
    using assms by (auto simp: settings_def bytes_inj)
  ultimately show ?thesis by simp
qed

lemma settings_state:
  assumes "settings opts sim xs" "i < 32"
  shows "traces (tracing sim) STATE \<and> i \<in> set (selected_modes (tracing sim)) \<longleftrightarrow>
    (\<exists>n. (CHR ''s'', Some n) \<in> set opts \<and> arm_mode_names ! i = Some n)"
proof -
  have "Some n \<in> set arm_mode_names" if "arm_mode_names ! i = Some n" for n
    using that assms(2) by (metis length_tables(1) nth_mem)
  with assms show ?thesis by (auto simp: settings_def traces_def flag_bits)
qed

lemma settings_flags:
  assumes "settings opts sim xs"
  shows "traces (tracing sim) MEMORY = (CHR ''m'' \<in> fst ` set opts)" "traces (tracing sim) REGISTERS = (CHR ''r'' \<in> fst ` set opts)"
    "traces (tracing sim) POSITION = (CHR ''p'' \<in> fst ` set opts)"
  using assms by (simp_all add: settings_def traces_def flag_bits)

lemma command_line_obeyed:
  assumes "spells ws os" "list_all (good_option opens) os" "length (filter (\<lambda>x. fst x = CHR ''d'') os) \<le> 64"
  obtains sim xs where "read_options opens default_options os = Some (Runs sim)" "obeyed os sim xs"
    "\<And>rest. command_line opens (ws @ rest) = option_loop opens sim ([], rest)"
proof -
  obtain sim xs where 1: "read_options opens default_options os = Some (Runs sim)" "obeyed os sim xs"
    using options_obeyed [OF default_obeyed assms(2)] assms(3) by auto
  moreover have "command_line opens (ws @ rest) = option_loop opens sim ([], rest)" for rest
    unfolding command_line_def using spelled_options [OF assms(1), of opens default_options rest] 1(1) by simp
  ultimately show thesis by (rule that)
qed

section \<open>Words that end the program\<close>

text \<open>
  A word that is wrong when the words \<open>rest\<close> follow it, and one that asks for help. In a word of letters others may
  stand before the one that counts.
\<close>

definition trace_letter :: "char \<Rightarrow> bool" where
  "trace_letter c \<longleftrightarrow> c \<in> {CHR ''r'', CHR ''m'', CHR ''p''}"

inductive wrong_word :: "string \<Rightarrow> string list \<Rightarrow> bool" where
  unknown_letter: "list_all trace_letter fs \<Longrightarrow> \<not> flag_letter c \<Longrightarrow> \<not> arg_letter c \<Longrightarrow> fs \<noteq> [] \<or> c \<noteq> CHR ''-'' \<Longrightarrow>
    wrong_word (CHR ''-'' # fs @ c # cs) rest"
| letter_without_argument: "list_all trace_letter fs \<Longrightarrow> arg_letter c \<Longrightarrow> wrong_word (CHR ''-'' # fs @ [c]) []"
| unknown_name: "named n = None \<Longrightarrow> CHR ''='' \<notin> set n \<Longrightarrow> n \<noteq> [] \<Longrightarrow> wrong_word (''--'' @ n) rest"
| unknown_name_equals: "named n = None \<Longrightarrow> CHR ''='' \<notin> set n \<Longrightarrow> wrong_word (''--'' @ n @ CHR ''='' # v) rest"
| name_with_argument: "named n = Some (c, False) \<Longrightarrow> CHR ''='' \<notin> set n \<Longrightarrow>
    wrong_word (''--'' @ n @ CHR ''='' # v) rest"
| name_without_argument: "named n = Some (c, True) \<Longrightarrow> CHR ''='' \<notin> set n \<Longrightarrow> n \<noteq> [] \<Longrightarrow> wrong_word (''--'' @ n) []"

inductive help_word :: "string \<Rightarrow> bool" where
  help_letter: "list_all trace_letter fs \<Longrightarrow> help_word (CHR ''-'' # fs @ CHR ''h'' # cs)"
| help_name: "named n = Some (CHR ''h'', False) \<Longrightarrow> CHR ''='' \<notin> set n \<Longrightarrow> n \<noteq> [] \<Longrightarrow> help_word (''--'' @ n)"

text \<open>The loop passes the letters before.\<close>

lemma trace_letters_loop:
  "list_all trace_letter fs \<Longrightarrow> \<exists>sim'. option_loop opens sim (fs @ cs, ws) = option_loop opens sim' (cs, ws)"
proof (induction fs arbitrary: sim)
  case (Cons c fs)
  have "flag_letter c" using Cons.prems by (auto simp: trace_letter_def flag_letter_def)
  then have "option_loop opens sim ((c # fs) @ cs, ws) = go_on opens (read_option opens sim c None) (fs @ cs, ws)"
    by (intro option_loop_next) (simp add: getopt_long_def find_short_eq)
  moreover have "c \<in> {CHR ''r'', CHR ''m'', CHR ''p''}" using Cons.prems by (simp add: trace_letter_def)
  then have "\<exists>sim'. read_option opens sim c None = Some (Runs sim')" by (elim insertE emptyE; simp add: read_option_def trace_add_def MEMORY_def REGISTERS_def POSITION_def)
  ultimately show ?case using Cons by auto
qed auto

lemma letters_word:
  assumes "list_all trace_letter fs" "fs \<noteq> [] \<or> c \<noteq> CHR ''-''"
  obtains sim' where "option_loop opens sim ([], (CHR ''-'' # fs @ c # cs) # rest) = option_loop opens sim' (c # cs, rest)"
proof -
  have "hd (fs @ c # cs) \<noteq> CHR ''-''" using assms by (cases fs) (auto simp: trace_letter_def)
  then show thesis using loop_letters [of "fs @ c # cs" opens sim rest] trace_letters_loop [OF assms(1), of opens sim "c # cs" rest] that
    by auto
qed

lemma wrong_letter_ends:
  assumes "list_all trace_letter fs" "fs \<noteq> [] \<or> c \<noteq> CHR ''-''"
    "\<not> flag_letter c \<and> \<not> arg_letter c \<or> arg_letter c \<and> cs = [] \<and> rest = []"
  shows "option_loop opens sim ([], (CHR ''-'' # fs @ c # cs) # rest) = Some (Exits 1)"
proof -
  obtain sim' where l: "option_loop opens sim ([], (CHR ''-'' # fs @ c # cs) # rest) = option_loop opens sim' (c # cs, rest)"
    by (rule letters_word [OF assms(1,2)])
  have "\<exists>st. getopt_long shortopts longopts (c # cs, rest) = Some ((bad_option, None), st)"
    using assms(3) by (auto simp: getopt_long_def find_short_eq dest: arg_not_flag)
  with l show ?thesis by (auto simp: option_loop_next read_option_def bad_option_def)
qed

text \<open>Wrong names.\<close>

lemma wrong_name_ends:
  "named n = None \<Longrightarrow> CHR ''='' \<notin> set n \<Longrightarrow> n \<noteq> [] \<Longrightarrow> option_loop opens sim ([], (''--'' @ n) # rest) = Some (Exits 1)"
  "named n = None \<or> named n = Some (c, False) \<Longrightarrow> CHR ''='' \<notin> set n \<Longrightarrow>
     option_loop opens sim ([], (''--'' @ n @ CHR ''='' # v) # rest) = Some (Exits 1)"
  "named n = Some (c, True) \<Longrightarrow> CHR ''='' \<notin> set n \<Longrightarrow> n \<noteq> [] \<Longrightarrow> option_loop opens sim ([], [''--'' @ n]) = Some (Exits 1)"
proof -
  have ends: "option_loop opens sim st = Some (Exits 1)" if "getopt_long shortopts longopts st = Some ((bad_option, None), st')" for st st'
    using that by (simp add: option_loop_next read_option_def bad_option_def)
  show "named n = None \<Longrightarrow> CHR ''='' \<notin> set n \<Longrightarrow> n \<noteq> [] \<Longrightarrow> option_loop opens sim ([], (''--'' @ n) # rest) = Some (Exits 1)"
    using long_word [of n rest] by (intro ends) (simp add: long_option_def takeWhile_name find_long_named(2))
  show "named n = None \<or> named n = Some (c, False) \<Longrightarrow> CHR ''='' \<notin> set n \<Longrightarrow>
     option_loop opens sim ([], (''--'' @ n @ CHR ''='' # v) # rest) = Some (Exits 1)"
    using long_word [of "n @ CHR ''='' # v" rest] find_long_named(1) [of n c False] find_long_named(2) [of n]
    by (intro ends) (auto simp: long_option_def takeWhile_name)
  show "named n = Some (c, True) \<Longrightarrow> CHR ''='' \<notin> set n \<Longrightarrow> n \<noteq> [] \<Longrightarrow> option_loop opens sim ([], [''--'' @ n]) = Some (Exits 1)"
    using long_word [of n "[]"] find_long_named(1) [of n c True] by (intro ends) (auto simp: long_option_def takeWhile_name)
qed

lemma wrong_word_ends: "wrong_word w rest \<Longrightarrow> option_loop opens sim ([], w # rest) = Some (Exits 1)"
proof (induction rule: wrong_word.induct)
  case (letter_without_argument fs c)
  then have "c \<noteq> CHR ''-''" by (auto simp: arg_letter_def)
  with letter_without_argument show ?case using wrong_letter_ends [of fs c "[]" "[]"] by simp
qed (rule wrong_letter_ends wrong_name_ends; blast)+

lemma help_word_ends: "help_word w \<Longrightarrow> option_loop opens sim ([], w # rest) = Some (Exits 0)"
proof (induction rule: help_word.induct)
  case (help_letter fs cs)
  obtain sim' where "option_loop opens sim ([], (CHR ''-'' # fs @ CHR ''h'' # cs) # rest) = option_loop opens sim' (CHR ''h'' # cs, rest)"
    using letters_word [OF help_letter, of "CHR ''h''" opens sim cs rest] by fastforce
  moreover have "getopt_long shortopts longopts (CHR ''h'' # cs, rest) = Some ((CHR ''h'', None), cs, rest)"
    by (simp add: getopt_long_def find_short_eq flag_letter_def)
  ultimately show ?case by (simp add: option_loop_next read_option_def)
next
  case (help_name n)
  from find_long_named(1) [OF help_name(1)] long_word [OF help_name(3), of rest] help_name(2)
  have "getopt_long shortopts longopts ([], (''--'' @ n) # rest) = Some ((CHR ''h'', None), [], rest)"
    by (auto simp: long_option_def takeWhile_name)
  then show ?case by (simp only: option_loop_next) (simp add: read_option_def)
qed

lemma s_letter_undefined:
  assumes "list_all trace_letter fs"
  shows "option_loop opens sim ([], (CHR ''-'' # fs @ CHR ''s'' # cs) # rest) = None"
proof -
  obtain sim' where "option_loop opens sim ([], (CHR ''-'' # fs @ CHR ''s'' # cs) # rest) = option_loop opens sim' (CHR ''s'' # cs, rest)"
    using letters_word [OF assms, of "CHR ''s''" opens sim cs rest] by fastforce
  moreover have "getopt_long shortopts longopts (CHR ''s'' # cs, rest) = Some ((CHR ''s'', None), cs, rest)"
    by (simp add: getopt_long_def find_short_eq flag_letter_def)
  ultimately show ?thesis by (simp add: option_loop_next read_option_def)
qed

lemma command_line_runs:
  assumes "spells ws os" "list_all (good_option opens) os" "length (filter (\<lambda>x. fst x = CHR ''d'') os) \<le> 64"
  shows "\<exists>sim. command_line opens ws = Some (Runs sim)"
proof -
  obtain sim where "\<And>rest. command_line opens (ws @ rest) = option_loop opens sim ([], rest)"
    using command_line_obeyed [OF assms] by blast
  from this [of "[]"] show ?thesis by (simp add: option_loop_end getopt_long_def)
qed

section \<open>Properties\<close>

text \<open>
  (C12) A command line sets what it says, however it is written: with letters or long names, letters
  together in a word, arguments in the same word or in the next, abbreviated names, operands in between
  and anything behind \<^verbatim>\<open>--\<close>, in any order and with repetitions. Memory accesses, registers and positions are
  traced exactly when their option is given, the state is printed exactly for the modes that
  \<^verbatim>\<open>--trace-state\<close> names (a name that is no mode is ignored without a message), the messages of a
  file are shown exactly when a \<^verbatim>\<open>--debug\<close> names it, and of several ports or trace files the last one counts.
  The ports are cut to 16 bits. This holds for a command line whose options can all be obeyed: none asks for help, every
  trace file that is named can be opened for writing, the number that \<open>atoi\<close> reads in every port is an \<open>int\<close> (0 for a text without digits), \<^verbatim>\<open>-s\<close> is not
  used as a letter, every option that needs an argument has one, and there are at most 64 options \<^verbatim>\<open>--debug\<close>.
\<close>

theorem command_line_sets_options:
  assumes "spells ws os" "list_all (good_option opens) os" "length (filter (\<lambda>x. fst x = CHR ''d'') os) \<le> 64"
    "rest = [] \<or> hd rest = ''--''"
  shows "\<exists>sim. command_line opens (ws @ rest) = Some (Runs sim) \<and>
    traces (tracing sim) MEMORY = (CHR ''m'' \<in> fst ` set os) \<and>
    traces (tracing sim) REGISTERS = (CHR ''r'' \<in> fst ` set os) \<and>
    traces (tracing sim) POSITION = (CHR ''p'' \<in> fst ` set os) \<and>
    (\<forall>i < 32. traces (tracing sim) STATE \<and> i \<in> set (selected_modes (tracing sim)) \<longleftrightarrow>
      (\<exists>n. (CHR ''s'', Some n) \<in> set os \<and> arm_mode_names ! i = Some n)) \<and>
    (\<forall>n. is_debugged (debugging sim) (Name (bytes n)) = Some (of_bool ((CHR ''d'', Some n) \<in> set os))) \<and>
    gdb_port sim = port_of CHR ''g'' os \<and> irq_port sim = port_of CHR ''i'' os \<and> trace_file sim = last_arg CHR ''t'' os"
proof -
  obtain sim xs where s: "obeyed os sim xs" "\<And>rest. command_line opens (ws @ rest) = option_loop opens sim ([], rest)"
    using command_line_obeyed [OF assms(1-3)] by blast
  have "option_loop opens sim ([], rest) = Some (Runs sim)"
    by (rule option_loop_end) (use assms(4) in \<open>cases rest; simp add: getopt_long_def\<close>)
  with s settings_flags [of os sim xs] settings_state [of os sim xs] settings_debug [of os sim xs] show ?thesis
    by (intro exI [of _ sim]) (simp add: obeyed_def)
qed

text \<open>
  (C13) Behind words that spell options which can be obeyed (as for C12), a wrong word ends the program, whatever
  the words before it have set: with status 1
  for a letter, alone or behind others in its word, or a name that is unknown or ambiguous, an argument for a named option that has none and
  an argument that is missing at the end, and with status 0 for a request for help, by the letter, alone or behind others, or by
  the name or an abbreviation of it. The letter \<open>s\<close> takes no
  argument, although \<^verbatim>\<open>--trace-state\<close> does, so \<open>-s\<close>, alone or behind other letters, passes a null pointer to \<open>strcmp\<close>: the behaviour is
  undefined.
\<close>

theorem command_line_errors:
  assumes "spells ws os" "list_all (good_option opens) os" "length (filter (\<lambda>x. fst x = CHR ''d'') os) \<le> 64"
  shows "(wrong_word w rest \<longrightarrow> command_line opens (ws @ w # rest) = Some (Exits 1)) \<and>
    (help_word w \<longrightarrow> command_line opens (ws @ w # rest) = Some (Exits 0)) \<and>
    (list_all trace_letter fs \<longrightarrow> command_line opens (ws @ (CHR ''-'' # fs @ CHR ''s'' # cs) # rest) = None)"
  by (rule command_line_obeyed [OF assms]) (simp add: wrong_word_ends help_word_ends s_letter_undefined)

text \<open>\<^verbatim>\<open>-mp --gdb=1234 file --trace-s SVC -dtrace.c -- -x\<close>, and the same with a word \<^verbatim>\<open>--trace\<close>.\<close>

lemma example_names:
  "named ''gdb'' = Some (CHR ''g'', True)" "named ''trace-s'' = Some (CHR ''s'', True)" "named ''trace'' = None"
  by code_simp+

definition example_words :: "string list" where
  "example_words = [''-mp'', ''--gdb=1234'', ''file'', ''--trace-s'', ''SVC'', ''-dtrace.c'']"

definition example_options :: "(char \<times> string option) list" where
  "example_options = [(CHR ''m'', None), (CHR ''p'', None), (CHR ''g'', Some ''1234''), (CHR ''s'', Some ''SVC''),
     (CHR ''d'', Some ''trace.c'')]"

lemma example_spelled: "spells example_words example_options"
proof -
  have "spells [''-dtrace.c''] [(CHR ''d'', Some ''trace.c'')]"
    using attached [of "[]" "CHR ''d''" "''trace.c''", OF _ _ _ spells.nothing] by (simp add: arg_letter_def)
  from name_separate [OF example_names(2) _ _ this, of "''SVC''"]
  have "spells [''--trace-s'', ''SVC'', ''-dtrace.c''] [(CHR ''s'', Some ''SVC''), (CHR ''d'', Some ''trace.c'')]" by simp
  from name_equals [OF example_names(1) _ operand [OF _ this, of "''file''"], of "''1234''"]
  have "spells [''--gdb=1234'', ''file'', ''--trace-s'', ''SVC'', ''-dtrace.c'']
      [(CHR ''g'', Some ''1234''), (CHR ''s'', Some ''SVC''), (CHR ''d'', Some ''trace.c'')]" by (simp add: is_operand_def)
  from flags [of "''mp''", OF _ _ this] show ?thesis by (simp add: flag_letter_def example_words_def example_options_def)
qed

lemma example_good: "list_all (good_option opens) example_options" "atoi (bytes ''1234'' @ [0]) = Some 1234"
proof -
  show 1: "atoi (bytes ''1234'' @ [0]) = Some 1234" by code_simp
  show "list_all (good_option opens) example_options"
    using 1 by (simp add: example_options_def good_option_def plain_option_def)
qed

theorem command_line_sets_options_witness:
  "\<exists>sim. command_line (\<lambda>f. True) (example_words @ [''--'', ''-x'']) = Some (Runs sim) \<and> traces (tracing sim) MEMORY \<and>
     \<not> traces (tracing sim) REGISTERS \<and> 19 \<in> set (selected_modes (tracing sim)) \<and>
     is_debugged (debugging sim) (Name (bytes ''trace.c'')) = Some 1 \<and> gdb_port sim = 1234 \<and> irq_port sim = 0"
proof -
  have mode: "arm_mode_names ! 19 = Some ''SVC''" by code_simp
  have few: "length (filter (\<lambda>x. fst x = CHR ''d'') example_options) \<le> 64" by (simp add: example_options_def)
  have ports: "port_of CHR ''g'' example_options = 1234" "port_of CHR ''i'' example_options = 0"
    using example_good(2) by (simp_all add: port_of_def last_arg_def example_options_def)
  obtain sim where s: "command_line (\<lambda>f. True) (example_words @ [''--'', ''-x'']) = Some (Runs sim)"
    "traces (tracing sim) MEMORY = (CHR ''m'' \<in> fst ` set example_options)"
    "traces (tracing sim) REGISTERS = (CHR ''r'' \<in> fst ` set example_options)"
    "\<forall>i < 32. traces (tracing sim) STATE \<and> i \<in> set (selected_modes (tracing sim)) \<longleftrightarrow>
      (\<exists>n. (CHR ''s'', Some n) \<in> set example_options \<and> arm_mode_names ! i = Some n)"
    "is_debugged (debugging sim) (Name (bytes ''trace.c'')) = Some (of_bool ((CHR ''d'', Some ''trace.c'') \<in> set example_options))"
    "gdb_port sim = 1234" "irq_port sim = 0"
    using command_line_sets_options [OF example_spelled example_good(1) few, of "[''--'', ''-x'']" "\<lambda>f. True"] ports
    by (auto simp del: read_options.simps)
  have "19 \<in> set (selected_modes (tracing sim))" using s(4) [rule_format, of 19] mode by (simp add: example_options_def)
  with s show ?thesis by (intro exI [of _ sim]) (simp add: example_options_def)
qed

theorem command_line_errors_witness:
  "command_line (\<lambda>f. True) (example_words @ [''--trace'', ''-h'']) = Some (Exits 1) \<and>
   command_line (\<lambda>f. True) (example_words @ [''-mz'']) = Some (Exits 1) \<and>
   command_line (\<lambda>f. True) (example_words @ [''-mg'']) = Some (Exits 1) \<and>
   command_line (\<lambda>f. True) (example_words @ [''-ms'', ''SVC'']) = None \<and>
   command_line (\<lambda>f. True) (example_words @ [''--he'', ''-q'']) = Some (Exits 0) \<and>
   command_line (\<lambda>f. True) (example_words @ [''-mhq'', ''-q'']) = Some (Exits 0)"
proof -
  have few: "length (filter (\<lambda>x. fst x = CHR ''d'') example_options) \<le> 64" by (simp add: example_options_def)
  note errors = command_line_errors [OF example_spelled example_good(1) few, where opens = "\<lambda>f. True"]
  have m: "list_all trace_letter ''m''" by (simp add: trace_letter_def)
  have "wrong_word ''--trace'' [''-h'']" using unknown_name [OF example_names(3), of "[''-h'']"] by simp
  moreover have "wrong_word ''-mz'' []" using unknown_letter [OF m, of "CHR ''z''" "[]" "[]"] by (simp add: flag_letter_def arg_letter_def)
  moreover have "wrong_word ''-mg'' []" using letter_without_argument [OF m, of "CHR ''g''"] by (simp add: arg_letter_def)
  moreover have "help_word ''--he''" using help_name [of "''he''"] by (simp add: named_def documented_def)
  moreover have "help_word ''-mhq''" using help_letter [OF m, of "''q''"] by simp
  moreover note m
  ultimately show ?thesis
    using errors [where w = "''--trace''" and rest = "[''-h'']"] errors [where w = "''-mz''" and rest = "[]"]
      errors [where w = "''-mg''" and rest = "[]"] errors [where w = "''--he''" and rest = "[''-q'']"]
      errors [where w = "''-mhq''" and rest = "[''-q'']"] errors [where fs = "''m''" and cs = "[]" and rest = "[''SVC'']"] by simp
qed

end
