(* ===== verification/Sim_Servers.thy ===== *)
theory Sim_Servers
  imports Csapp_System Sim_Getopt
begin

text \<open>
  The two programs at their sockets: \<open>create_server\<close>, the two listening threads of
  \<^verbatim>\<open>arm_simulator.c\<close> and the \<open>main\<close> of \<^verbatim>\<open>send_irq.c\<close>, over the wrappers of
  \<^verbatim>\<open>csapp.c\<close>. The messages on the standard error output are those of the errors that end a program;
  the others and the usage texts are left out.
\<close>

section \<open>Sequences of wrapped calls\<close>

definition then_call :: "'a outcome \<times> 's \<Rightarrow> ('a \<Rightarrow> ('s, 'b outcome) call) \<Rightarrow> 'b outcome \<times> 's" where
  "then_call m f = (case m of (Exited n text, s) \<Rightarrow> (Exited n text, s) | (Returned x, s) \<Rightarrow> f x s)"

definition then_run ::
  "('a outcome \<times> 's) option \<Rightarrow> ('a \<Rightarrow> 's \<Rightarrow> ('b outcome \<times> 's) option) \<Rightarrow> ('b outcome \<times> 's) option" where
  "then_run m f = do {
     (r, s) \<leftarrow> m;
     case r of Exited n text \<Rightarrow> Some (Exited n text, s) | Returned x \<Rightarrow> f x s
   }"

section \<open>The servers of the simulator\<close>

record server_data =
  server_socket :: int
  server_port :: u16

definition create_server :: "('s, 'm) net_scheme \<Rightarrow> u16 \<Rightarrow> ('s, server_data outcome) call" where
  "create_server N port s =
     then_call (Socket N (PF_INET N) (SOCK_STREAM N) 0 s) (\<lambda>sock s.
     then_call (Setsockopt N sock (SOL_SOCKET N) (SO_REUSEADDR N) 1 s) (\<lambda>_ s.
     let addr = bzero_addr\<lparr>sin_port := htons N port, sin_family := word_of_int (AF_INET N)\<rparr> in
     then_call (Bind N sock addr s) (\<lambda>_ s.
     let (name, s) = sys_getsockname N sock s;
         addr = (case name of None \<Rightarrow> addr | Some name \<Rightarrow> name);
         result = \<lparr>server_socket = sock, server_port = ntohs N (sin_port addr)\<rparr> in
     then_call (Listen N sock 1 s) (\<lambda>_ s. (Returned result, s)))))"

text \<open>
  The thread of the debugger. \<open>stream\<close> is the buffered stream over a descriptor that \<open>fdopen\<close> makes,
  the arguments behind it are those of \<open>gdb_scanner\<close>. The result is the processor at the end.
\<close>

definition gdb_listener ::
  "('s, 'm) net_scheme \<Rightarrow> (int \<Rightarrow> 's reader) \<Rightarrow> bool \<Rightarrow> bool \<Rightarrow> (nat \<Rightarrow> u8 list) \<Rightarrow> (nat \<Rightarrow> gdb_junk) \<Rightarrow> nat \<Rightarrow> nat \<Rightarrow>
   arm_core \<Rightarrow> u8 list \<Rightarrow> u32 list \<Rightarrow> (nat \<Rightarrow> bool) \<Rightarrow> u8 list \<Rightarrow> u16 \<Rightarrow> 's \<Rightarrow> (arm_core outcome \<times> 's) option" where
  "gdb_listener N stream got opened alloc jk fuel jumps a pkt bps fails buf port s =
     then_run (Some (create_server N port s)) (\<lambda>server s.
     then_run (Some (Accept N (server_socket server) s)) (\<lambda>connection s. do {
       r \<leftarrow> gdb_scanner got opened (stream connection) alloc jk fuel jumps a pkt bps fails buf s;
       let finish = (\<lambda>a s.
         let (_, s) = sys_shutdown N connection s;
             (_, s) = sys_close N (server_socket server) s
         in Some (Returned a, s));
       case r of
         None \<Rightarrow> finish a s
       | Some (Exit code msg) \<Rightarrow> Some (Exited code (msg @ newline), s)
       | Some (Continue (d, s)) \<Rightarrow> finish (arm (gdb d)) s
     }))"

text \<open>
  The thread of the exceptions: \<open>irq_reads\<close> is the loop over the bytes of a connection, \<open>irq_turns\<close> the
  endless loop over the connections, cut after \<open>n\<close> of them. \<open>fuel\<close> bounds the reads of a connection;
  \<open>us\<close> gives the uninitialised local of the k-th call of \<open>arm_exception\<close>.
\<close>

fun irq_reads ::
  "('s, 'm) net_scheme \<Rightarrow> (nat \<Rightarrow> u32) \<Rightarrow> nat \<Rightarrow> int \<Rightarrow> nat \<Rightarrow> arm_core \<Rightarrow> 's \<Rightarrow> ((nat \<times> arm_core) outcome \<times> 's) option" where
  "irq_reads N us 0 connection k p s = None"
| "irq_reads N us (Suc fuel) connection k p s =
     then_run (Some (Read N (sys_read N) connection 1 s)) (\<lambda>(rc, buf) s.
       if rc > 0 then do {
         irq \<leftarrow> aget buf 0;
         (r, p) \<leftarrow> arm_exception (us k) p irq;
         irq_reads N us fuel connection (k + 1) p s
       } else Some (Returned (k, p), s))"

fun irq_turns ::
  "('s, 'm) net_scheme \<Rightarrow> (nat \<Rightarrow> u32) \<Rightarrow> nat \<Rightarrow> int \<Rightarrow> nat \<Rightarrow> nat \<Rightarrow> arm_core \<Rightarrow> 's \<Rightarrow>
   ((nat \<times> arm_core) outcome \<times> 's) option" where
  "irq_turns N us fuel sock 0 k p s = Some (Returned (k, p), s)"
| "irq_turns N us fuel sock (Suc n) k p s =
     then_run (Some (Accept N sock s)) (\<lambda>connection s.
     then_run (irq_reads N us fuel connection k p s) (\<lambda>(k, p) s.
       let (_, s) = sys_shutdown N connection s in irq_turns N us fuel sock n k p s))"

definition irq_thread ::
  "('s, 'm) net_scheme \<Rightarrow> (nat \<Rightarrow> u32) \<Rightarrow> nat \<Rightarrow> u16 \<Rightarrow> nat \<Rightarrow> arm_core \<Rightarrow> 's \<Rightarrow> ((nat \<times> arm_core) outcome \<times> 's) option" where
  "irq_thread N us fuel port n p s = then_run (Some (create_server N port s)) (\<lambda>server s.
     irq_turns N us fuel (server_socket server) n 0 p s)"

text \<open>
  \<open>main\<close> on its arguments \<open>args\<close>, without the name of the program. \<open>threads\<close> is what the two threads do with the options and
  the processor (\<open>None\<close> for a null pointer) until the thread of the debugger has ended or one of them has ended
  the program; the return value of \<open>main\<close> is the exit status. \<open>gdb_init\<close> and \<open>arm_init\<close> only fill constant tables.
\<close>

definition simulator_main ::
  "(string \<Rightarrow> bool) \<Rightarrow> string list \<Rightarrow> bool \<Rightarrow> u8 list option \<Rightarrow> bool \<Rightarrow> bool \<Rightarrow> u32 \<Rightarrow>
   (simulator_options \<Rightarrow> arm_core option \<Rightarrow> 's \<Rightarrow> (arm_core option outcome \<times> 's) option) \<Rightarrow> 's \<Rightarrow> (nat outcome \<times> 's) option" where
  "simulator_main writable args got_mem block got_regs got_arm u threads s = do {
     r \<leftarrow> command_line writable args;
     case r of
       Exits n \<Rightarrow> Some (Exited n [], s)
     | Runs sim \<Rightarrow> do {
         a \<leftarrow> simulator_start got_mem block got_regs got_arm u;
         then_run (threads sim a s) (\<lambda>_ s. Some (Returned 0, s))
       }
   }"

text \<open>The threads when no exception is sent: the debugger alone, on the port that the options give.\<close>

definition debugger_only ::
  "('s, 'm) net_scheme \<Rightarrow> (int \<Rightarrow> 's reader) \<Rightarrow> bool \<Rightarrow> bool \<Rightarrow> (nat \<Rightarrow> u8 list) \<Rightarrow> (nat \<Rightarrow> gdb_junk) \<Rightarrow> nat \<Rightarrow> nat \<Rightarrow>
   u8 list \<Rightarrow> u32 list \<Rightarrow> (nat \<Rightarrow> bool) \<Rightarrow> u8 list \<Rightarrow> simulator_options \<Rightarrow> arm_core option \<Rightarrow> 's \<Rightarrow> (arm_core option outcome \<times> 's) option" where
  "debugger_only N stream got opened alloc jk fuel jumps pkt bps fails buf sim a s = do {
     p \<leftarrow> a;
     then_run (gdb_listener N stream got opened alloc jk fuel jumps p pkt bps fails buf (gdb_port sim) s)
       (\<lambda>p s. Some (Returned (Some p), s))
   }"

section \<open>The program that sends an exception\<close>

text \<open>\<open>main\<close>; its return value is the exit status, like that of \<open>exit\<close>.\<close>

definition send_irq_main :: "('s, 'm) net_scheme \<Rightarrow> string list \<Rightarrow> 's \<Rightarrow> (nat outcome \<times> 's) option" where
  "send_irq_main N argv s = do {
     choice \<leftarrow> send_irq argv;
     case choice of
       Exits n \<Rightarrow> Some (Exited n (if n = 2 then ''Unknown irq : '' @ argv ! 3 @ newline else []), s)
     | Runs irq \<Rightarrow>
         then_run (Some (Socket N (PF_INET N) (SOCK_STREAM N) 0 s)) (\<lambda>sock s.
         then_run (Some (Setsockopt N sock (SOL_SOCKET N) (SO_REUSEADDR N) 1 s)) (\<lambda>_ s. do {
           port \<leftarrow> atoi (bytes (argv ! 2) @ [0]);
           let addr = bzero_addr\<lparr>sin_port := htons N (word_of_int port), sin_family := word_of_int (AF_INET N)\<rparr>;
           then_run (Some (Gethostbyname N (argv ! 1) s)) (\<lambda>host s. do {
             ip \<leftarrow> host_address host (sin_addr addr);
             then_run (Some (Connect N sock (addr\<lparr>sin_addr := ip\<rparr>) s)) (\<lambda>_ s.
             then_run (Some (Write N (sys_write N) sock [irq] s)) (\<lambda>_ s.
               let (_, s) = sys_shutdown N sock s;
                   (_, s) = sys_close N sock s
               in Some (Returned 0, s)))
           })
         }))
   }"

section \<open>Facts about sequences\<close>

lemma then_call_simps [simp]:
  "then_call (Returned x, s) f = f x s" "then_call (Exited n t, s) f = (Exited n t, s)"
  by (simp_all add: then_call_def)

lemma then_run_simps [simp]:
  "then_run (Some (Returned x, s)) f = f x s" "then_run (Some (Exited n t, s)) f = Some (Exited n t, s)"
  "then_run None f = None"
  by (simp_all add: then_run_def)

lemma then_run_ReturnedE:
  assumes "then_run m f = Some (Returned y, s')"
  obtains x s1 where "m = Some (Returned x, s1)" "f x s1 = Some (Returned y, s')"
  using assms by (cases m; cases "fst (the m)") (auto simp: then_run_def)

lemma then_run_ExitedE:
  assumes "then_run m f = Some (Exited n t, s')"
  obtains "m = Some (Exited n t, s')" | x s1 where "m = Some (Returned x, s1)" "f x s1 = Some (Exited n t, s')"
  using assms by (cases m; cases "fst (the m)") (auto simp: then_run_def)

lemma checked_Exited: "checked E msg bad f s = (Exited n t, s') \<Longrightarrow> n = 0"
  by (auto simp: checked_def unix_error_def split: prod.splits if_splits)

lemma ensured_Exited: "ensured E msg bad f s = (Exited n t, s') \<Longrightarrow> n = 0"
  by (auto simp: ensured_def unix_error_def split: prod.splits if_splits)

lemma checked_Returned:
  "checked E msg bad f s = (Returned rc, s') \<longleftrightarrow> f s = (rc, s') \<and> \<not> bad rc"
  by (auto simp: checked_def split: prod.splits if_splits simp: unix_error_def)

lemma ensured_Returned:
  "ensured E msg bad f s = (Returned u, s') \<longleftrightarrow> (\<exists>rc. f s = (rc, s') \<and> \<not> bad rc)"
  by (auto simp: ensured_def split: prod.splits if_splits simp: unix_error_def)

lemma checked_pointer_Returned:
  "checked_pointer (dns_error E msg) f s = (Returned p, s') \<longleftrightarrow> f s = (Some p, s')"
  by (auto simp: checked_pointer_def dns_error_def split: prod.splits option.splits)

lemmas wrapper_defs = Socket_def Setsockopt_def Bind_def Listen_def Accept_def Connect_def Gethostbyname_def
  Read_def Write_def

lemmas wrapper_Returned = checked_Returned ensured_Returned checked_pointer_Returned


section \<open>The exceptions that arrive\<close>

text \<open>
  What the kernel does when the senders transmit the bytes \<open>bs\<close> over a connection, one byte for each
  read, and when the connections \<open>cs\<close> arrive at a socket one after the other.
\<close>

fun delivers :: "('s, 'm) net_scheme \<Rightarrow> int \<Rightarrow> 's \<Rightarrow> u8 list \<Rightarrow> 's \<Rightarrow> bool" where
  "delivers N connection s [] s' \<longleftrightarrow> sys_read N connection 1 s = ((0, []), s')"
| "delivers N connection s (b # bs) s' \<longleftrightarrow>
     (\<exists>s1. sys_read N connection 1 s = ((1, [b]), s1) \<and> delivers N connection s1 bs s')"

fun serves :: "('s, 'm) net_scheme \<Rightarrow> int \<Rightarrow> 's \<Rightarrow> u8 list list \<Rightarrow> bool" where
  "serves N sock s [] \<longleftrightarrow> True"
| "serves N sock s (c # cs) \<longleftrightarrow> (\<exists>connection s1 s2. sys_accept N sock s = (connection, s1) \<and> 0 \<le> connection \<and>
     delivers N connection s1 c s2 \<and> serves N sock (snd (sys_shutdown N connection s2)) cs)"

lemma Read_eq: "sys_read N fd n s = ((rc, buf), s') \<Longrightarrow> 0 \<le> rc \<Longrightarrow> Read N (sys_read N) fd n s = (Returned (rc, buf), s')"
  by (simp add: Read_def checked_def)

lemma Accept_eq: "sys_accept N fd s = (rc, s') \<Longrightarrow> 0 \<le> rc \<Longrightarrow> Accept N fd s = (Returned rc, s')"
  by (simp add: Accept_def checked_def)

lemma irq_reads_delivered:
  "delivers N connection s c s' \<Longrightarrow> length c < fuel \<Longrightarrow>
   irq_reads N us fuel connection k p s = map_option (\<lambda>x. (Returned x, s')) (irq_connection us k p c)"
proof (induction c arbitrary: s k p fuel)
  case Nil
  then show ?case by (cases fuel) (simp_all add: Read_eq)
next
  case (Cons b c)
  from Cons.prems obtain s1 where s1: "sys_read N connection 1 s = ((1, [b]), s1)" "delivers N connection s1 c s'" by auto
  from Cons.prems obtain f where f: "fuel = Suc f" "length c < f" by (cases fuel) auto
  have "Read N (sys_read N) connection (Suc 0) s = (Returned (1, [b]), s1)" using Read_eq [OF s1(1)] by simp
  then show ?case
    by (simp add: f(1) Cons.IH [OF s1(2) f(2)] Option.bind_map_option map_option_bind
        case_prod_unfold comp_def cong: Option.bind_cong)
qed

text \<open>
  (C10) The thread of the exceptions, at its socket: when the connections \<open>cs\<close> arrive, it does to the
  processor exactly what the sequential listener does with their bytes, and it accepts all of them.
\<close>

theorem irq_thread_refines_listener:
  "serves N sock s cs \<Longrightarrow> (\<forall>c \<in> set cs. length c < fuel) \<Longrightarrow>
   map_option fst (irq_turns N us fuel sock (length cs) k p s) = map_option Returned (irq_listener us k p cs)"
proof (induction cs arbitrary: s k p)
  case (Cons c cs)
  from Cons.prems(1) obtain connection s1 s2 where
    acc: "sys_accept N sock s = (connection, s1)" "0 \<le> connection" and d: "delivers N connection s1 c s2"
    and sv: "serves N sock (snd (sys_shutdown N connection s2)) cs" by auto
  have reads: "irq_reads N us fuel connection k p s1 = map_option (\<lambda>x. (Returned x, s2)) (irq_connection us k p c)"
    using irq_reads_delivered [OF d] Cons.prems(2) by simp
  show ?case
  proof (cases "irq_connection us k p c")
    case None
    then show ?thesis by (simp add: Accept_eq [OF acc] reads)
  next
    case (Some r)
    obtain k1 p1 where r: "r = (k1, p1)" by (cases r)
    have "map_option fst (irq_turns N us fuel sock (length cs) k1 p1 (snd (sys_shutdown N connection s2))) =
        map_option Returned (irq_listener us k1 p1 cs)"
      using Cons.IH [OF sv] Cons.prems(2) by simp
    then show ?thesis
      by (simp add: Accept_eq [OF acc] reads Some r case_prod_unfold)
  qed
qed simp

section \<open>Descriptors\<close>

lemma irq_reads_keeps:
  assumes "fd_laws N fds"
  shows "irq_reads N us fuel connection k p s = Some (r, s') \<Longrightarrow> fds s' = fds s \<and> (\<forall>n t. r = Exited n t \<longrightarrow> n = 0)"
proof (induction fuel arbitrary: k p s)
  case (Suc fuel)
  obtain rc buf s1 where rd: "sys_read N connection 1 s = ((rc, buf), s1)" by (metis prod.exhaust)
  note keep = fd_laws_keep(9) [OF assms rd]
  show ?case
  proof (cases "rc < 0")
    case True
    with Suc.prems rd keep show ?thesis by (auto simp: Read_def checked_def unix_error_def)
  next
    case False
    then have "Read N (sys_read N) connection 1 s = (Returned (rc, buf), s1)" using rd by (simp add: Read_eq)
    with Suc keep show ?thesis
      by (auto simp: bind_eq_Some_conv split: if_splits)
  qed
qed simp

text \<open>The loop opens a descriptor with every turn and closes none.\<close>

lemma irq_turns_descriptors:
  assumes "fd_laws N fds" "\<forall>s fd. limit \<le> card (fds s) \<longrightarrow> fst (sys_accept N fd s) < 0"
  shows "irq_turns N us fuel sock n k p s = Some (r, s') \<Longrightarrow> card (fds s) \<le> limit \<Longrightarrow>
    (case r of Returned _ \<Rightarrow> fds s \<subseteq> fds s' \<and> card (fds s') = card (fds s) + n \<and> card (fds s) + n \<le> limit
     | Exited status _ \<Rightarrow> status = 0)"
proof (induction n arbitrary: k p s)
  case (Suc n)
  obtain c s1 where acc: "sys_accept N sock s = (c, s1)" by (metis prod.exhaust)
  show ?case
  proof (cases "c < 0")
    case True
    with Suc.prems(1) acc show ?thesis by (auto simp: Accept_def checked_def unix_error_def)
  next
    case False
    have "card (fds s) < limit" using assms(2) acc False by (metis fst_conv not_less)
    moreover have new: "c \<notin> fds s" "fds s1 = insert c (fds s)" using fd_laws_open(4) [OF assms(1) acc False] by simp_all
    ultimately have card1: "card (fds s1) = card (fds s) + 1" "card (fds s1) \<le> limit"
      using fd_laws_finite [OF assms(1)] by simp_all
    from Suc.prems(1) False obtain r2 s2 where reads: "irq_reads N us fuel c k p s1 = Some (r2, s2)"
      by (auto simp: Accept_eq [OF acc] then_run_def bind_eq_Some_conv)
    note kept = irq_reads_keeps [OF assms(1) reads]
    show ?thesis
    proof (cases r2)
      case (Exited st t)
      with Suc.prems(1) False reads kept show ?thesis by (auto simp: Accept_eq [OF acc])
    next
      case (Returned x)
      obtain k2 p2 where x: "x = (k2, p2)" by (cases x)
      obtain rc s3 where sh: "sys_shutdown N c s2 = (rc, s3)" by (metis prod.exhaust)
      have fds3: "fds s3 = fds s1" using fd_laws_keep(7) [OF assms(1) sh] kept by simp
      have "irq_turns N us fuel sock n k2 p2 s3 = Some (r, s')"
        using Suc.prems(1) False by (simp add: Accept_eq [OF acc] reads Returned x sh)
      from Suc.IH [OF this] card1 fds3 new show ?thesis by (auto split: outcome.splits)
    qed
  qed
qed auto


text \<open>A server is one new descriptor, whose port is the one asked for when the kernel does not tell another.\<close>

lemma create_server_Exited: "create_server N port s = (Exited st t, s') \<Longrightarrow> st = 0"
  unfolding create_server_def wrapper_defs
  by (auto simp: then_call_def Let_def split: prod.split_asm outcome.split_asm
      dest!: checked_Exited ensured_Exited)

lemma create_server_descriptors:
  assumes "fd_laws N fds" "create_server N port s = (Returned v, s')"
  shows "server_socket v \<notin> fds s \<and> fds s' = insert (server_socket v) (fds s)"
proof -
  let ?addr = "bzero_addr\<lparr>sin_port := htons N port, sin_family := word_of_int (AF_INET N)\<rparr>"
  obtain fd s1 where 1: "sys_socket N (PF_INET N) (SOCK_STREAM N) 0 s = (fd, s1)" by (rule prod.exhaust)
  obtain r2 s2 where 2: "sys_setsockopt N fd (SOL_SOCKET N) (SO_REUSEADDR N) 1 s1 = (r2, s2)" by (rule prod.exhaust)
  obtain r3 s3 where 3: "sys_bind N fd ?addr s2 = (r3, s3)" by (rule prod.exhaust)
  obtain name s4 where 4: "sys_getsockname N fd s3 = (name, s4)" by (rule prod.exhaust)
  obtain r5 s5 where 5: "sys_listen N fd 1 s4 = (r5, s5)" by (rule prod.exhaust)
  have "\<not> fd < 0" "server_socket v = fd" "s' = s5"
    using assms(2) by (auto simp: create_server_def wrapper_defs checked_def ensured_def unix_error_def 1 2 3 4 5
        split: if_splits)
  with fd_laws_open(2) [OF assms(1) 1] fd_laws_keep(1) [OF assms(1) 2] fd_laws_keep(2) [OF assms(1) 3]
    fd_laws_keep(3) [OF assms(1) 4] fd_laws_keep(4) [OF assms(1) 5]
  show ?thesis by simp
qed

text \<open>
  (C21) The thread of the exceptions never closes a connection, it only shuts it down: with the listening
  socket and \<open>n\<close> connections the program has \<open>n + 1\<close> more open descriptors than before. With the limit of the kernel on
  open descriptors it therefore serves only as many connections as fit, and the only other end is that
  the whole simulator exits, with the status 0.
\<close>

theorem irq_thread_descriptors:
  assumes "fd_laws N fds" "\<forall>s fd. limit \<le> card (fds s) \<longrightarrow> fst (sys_accept N fd s) < 0" "card (fds s) < limit"
    "irq_thread N us fuel port n p s = Some (r, s')"
  shows "case r of Returned _ \<Rightarrow> fds s \<subseteq> fds s' \<and> card (fds s') = card (fds s) + 1 + n \<and> card (fds s) + 1 + n \<le> limit
    | Exited status _ \<Rightarrow> status = 0"
proof -
  obtain rs s1 where server: "create_server N port s = (rs, s1)" by (rule prod.exhaust)
  show ?thesis
  proof (cases rs)
    case (Exited st t)
    with create_server_Exited server assms(4) show ?thesis by (auto simp: irq_thread_def)
  next
    case (Returned v)
    then have turns: "irq_turns N us fuel (server_socket v) n 0 p s1 = Some (r, s')"
      using assms(4) server by (simp add: irq_thread_def)
    have new: "server_socket v \<notin> fds s" "fds s1 = insert (server_socket v) (fds s)"
      using create_server_descriptors [OF assms(1)] server Returned by simp_all
    then have "card (fds s1) = card (fds s) + 1" using fd_laws_finite [OF assms(1)] by simp
    with irq_turns_descriptors [OF assms(1,2) turns] assms(3) new(2) show ?thesis by (cases r) auto
  qed
qed

section \<open>Three senders and room for two\<close>

definition three_senders :: process where
  "three_senders = process.make [2, 1, 0] [[4], [5, 6], [4]] (\<lambda>fd. []) []"

lemma quiet_exceptions:
  "arm_exception u p 4 = Some (4, p)" "arm_exception u p 5 = Some (5, p)" "arm_exception u p 6 = Some (6, p)"
  by (simp_all add: arm_exception_other exception_defs)

lemmas process_eval = three_senders_def process.defs process_net_def allocate_fd_def new_fd_def Accept_def Read_def
  checked_def unix_error_def quiet_exceptions numeral_eq_Suc

lemma process_limit: "6 \<le> card (open_fds p) \<Longrightarrow> fst (sys_accept process_net fd p) < 0"
  using card_length [of "fd_table p"]
  by (auto simp: process_net_def open_fds_def allocate_fd_def split: list.split)

theorem irq_thread_descriptors_witness:
  "\<exists>s' s'' t. irq_thread process_net (\<lambda>k. 0) 3 4000 2 sample_core three_senders = Some (Returned (3, sample_core), s') \<and>
     card (open_fds s') = 6 \<and>
     irq_thread process_net (\<lambda>k. 0) 3 4000 3 sample_core three_senders = Some (Exited 0 t, s'')"
proof -
  have server: "create_server process_net 4000 three_senders =
      (Returned \<lparr>server_socket = 3, server_port = 4000\<rparr>, three_senders\<lparr>fd_table := [3, 2, 1, 0]\<rparr>)"
    unfolding create_server_def wrapper_defs
    by (simp add: checked_def ensured_def process_net_def allocate_fd_def new_fd_def three_senders_def process.defs
        htons_def ntohs_def bzero_addr_def)
  have "\<exists>s'. irq_thread process_net (\<lambda>k. 0) 3 4000 2 sample_core three_senders = Some (Returned (3, sample_core), s')"
    by (simp add: irq_thread_def server) (simp add: process_eval)
  then obtain s' where s': "irq_thread process_net (\<lambda>k. 0) 3 4000 2 sample_core three_senders =
      Some (Returned (3, sample_core), s')" by blast
  have "\<exists>t s''. irq_thread process_net (\<lambda>k. 0) 3 4000 3 sample_core three_senders = Some (Exited 0 t, s'')"
    by (simp add: irq_thread_def server) (simp add: process_eval)
  moreover have "card (open_fds three_senders) = 3" by (simp add: open_fds_def three_senders_def process.defs)
  then have "card (open_fds s') = 6"
    using irq_thread_descriptors [OF process_laws _ _ s', of 6] process_limit by simp
  ultimately show ?thesis using s' by blast
qed

theorem irq_thread_refines_listener_witness:
  "map_option fst (irq_turns process_net (\<lambda>k. 0) 3 3 2 0 sample_core three_senders) =
     map_option Returned (irq_listener (\<lambda>k. 0) 0 sample_core [[4], [5, 6]])"
proof -
  have "serves process_net 3 three_senders [[4], [5, 6]]"
    by (simp add: process_eval)
  from irq_thread_refines_listener [OF this, of 3 "\<lambda>k. 0" 0 sample_core] show ?thesis by (simp add: numeral_2_eq_2)
qed


section \<open>An exception that is sent\<close>

text \<open>
  What the kernel promises about the bytes \<open>written\<close> to connections: \<open>write\<close> transmits a prefix of its
  buffer, as long as its result says; the other calls of the program transmit nothing.
\<close>

definition sends_laws :: "('s, 'm) net_scheme \<Rightarrow> ('s \<Rightarrow> u8 list) \<Rightarrow> bool" where
  "sends_laws N written \<longleftrightarrow>
     (\<forall>s fd bs. written (snd (sys_write N fd bs s)) = written s @ take (nat (fst (sys_write N fd bs s))) bs) \<and>
     (\<forall>s d t p. written (snd (sys_socket N d t p s)) = written s) \<and>
     (\<forall>s fd l n v. written (snd (sys_setsockopt N fd l n v s)) = written s) \<and>
     (\<forall>s h. written (snd (sys_gethostbyname N h s)) = written s) \<and>
     (\<forall>s fd a. written (snd (sys_connect N fd a s)) = written s) \<and>
     (\<forall>s fd. written (snd (sys_shutdown N fd s)) = written s) \<and>
     (\<forall>s fd. written (snd (sys_close N fd s)) = written s)"

lemma sends_lawsD:
  assumes "sends_laws N written"
  shows "sys_write N fd bs s = (rc, s') \<Longrightarrow> written s' = written s @ take (nat rc) bs"
    "sys_socket N d t p s = (r1, s') \<Longrightarrow> written s' = written s"
    "sys_setsockopt N fd l n v s = (r2, s') \<Longrightarrow> written s' = written s"
    "sys_gethostbyname N h s = (r3, s') \<Longrightarrow> written s' = written s"
    "sys_connect N fd a s = (r4, s') \<Longrightarrow> written s' = written s"
    "sys_shutdown N fd s = (r5, s') \<Longrightarrow> written s' = written s"
    "sys_close N fd s = (r6, s') \<Longrightarrow> written s' = written s"
  using assms unfolding sends_laws_def by (metis fst_conv snd_conv)+

text \<open>The calls of a run of the program that returns.\<close>

lemma send_irq_mainE:
  assumes "send_irq_main N argv s = Some (Returned st, s')"
  obtains irq sock s1 rc2 s2 host s3 addr rc4 s4 rc5 s5 rc6 s6 rc7 where
    "send_irq argv = Some (Runs irq)" "st = 0"
    "sys_socket N (PF_INET N) (SOCK_STREAM N) 0 s = (sock, s1)" "0 \<le> sock"
    "sys_setsockopt N sock (SOL_SOCKET N) (SO_REUSEADDR N) 1 s1 = (rc2, s2)"
    "sys_gethostbyname N (argv ! 1) s2 = (Some host, s3)"
    "sys_connect N sock addr s3 = (rc4, s4)" "0 \<le> rc4" "sys_write N sock [irq] s4 = (rc5, s5)" "0 \<le> rc5"
    "sys_shutdown N sock s5 = (rc6, s6)" "sys_close N sock s6 = (rc7, s')"
proof -
  from assms obtain irq where irq: "send_irq argv = Some (Runs irq)"
    by (cases "send_irq argv"; cases "the (send_irq argv)") (auto simp: send_irq_main_def)
  from assms irq show thesis
    unfolding send_irq_main_def irq wrapper_defs
    by (auto simp: bind_eq_Some_conv wrapper_Returned not_less simp del: One_nat_def split: prod.split_asm
        elim!: then_run_ReturnedE) (rule that [OF irq]; assumption)
qed

lemma checked_pointer_Exited: "checked_pointer (dns_error E msg) f s = (Exited n t, s') \<Longrightarrow> n = 0"
  by (auto simp: checked_pointer_def dns_error_def split: prod.splits option.splits)

lemma send_irq_main_Exited:
  assumes "send_irq_main N argv s = Some (Exited st t, s')"
  shows "case send_irq argv of Some (Exits n) \<Rightarrow> st = n \<and> s' = s | Some (Runs irq) \<Rightarrow> st = 0 | None \<Rightarrow> False"
proof (cases "send_irq argv")
  case (Some choice)
  show ?thesis
  proof (cases choice)
    case (Runs irq)
    with assms Some show ?thesis
      unfolding send_irq_main_def wrapper_defs
      by (auto simp: bind_eq_Some_conv split: prod.split_asm elim!: then_run_ExitedE dest!: checked_Exited ensured_Exited checked_pointer_Exited)
  qed (use assms Some in \<open>auto simp: send_irq_main_def\<close>)
qed (use assms in \<open>simp add: send_irq_main_def\<close>)

text \<open>
  (C22) A run of \<^verbatim>\<open>send_irq\<close> that returns has sent the one byte of the exception that its arguments
  name (or nothing, when the kernel takes no byte, which is not noticed), and has left no descriptor
  open. Every other run exits: for wrong arguments with the status of the argument check and before any
  system call, otherwise, for instance when the simulator does not listen, with the status 0.
\<close>

theorem send_irq_main_sends:
  assumes "fd_laws N fds" "sends_laws N written" "send_irq_main N argv s = Some (r, s')"
  shows "case r of
      Returned status \<Rightarrow> status = 0 \<and> fds s' = fds s \<and> (\<exists>irq. send_irq argv = Some (Runs irq) \<and>
        (written s' = written s @ [irq] \<or> written s' = written s))
    | Exited status _ \<Rightarrow> (case send_irq argv of Some (Exits n) \<Rightarrow> status = n \<and> s' = s | Some (Runs irq) \<Rightarrow> status = 0 | None \<Rightarrow> False)"
proof (cases r)
  case (Exited n t)
  with send_irq_main_Exited assms(3) show ?thesis by simp
next
  case (Returned st)
  with assms(3) have "send_irq_main N argv s = Some (Returned st, s')" by simp
  then show ?thesis
  proof (cases rule: send_irq_mainE)
    case (1 irq sock s1 rc2 s2 host s3 addr rc4 s4 rc5 s5 rc6 s6 rc7)
    note keep = fd_laws_keep [OF assms(1)]
    note wr = sends_lawsD [OF assms(2)]
    have "fds s' = fds s1 - {sock}"
      using keep(8) [OF 1(12)] keep(7) [OF 1(11)] keep(10) [OF 1(9)] keep(5) [OF 1(7)] keep(6) [OF 1(6)] keep(1) [OF 1(5)]
      by simp
    moreover have "sock \<notin> fds s \<and> fds s1 = insert sock (fds s)"
      using fd_laws_open(2) [OF assms(1) 1(3)] 1(4) by simp
    moreover have "written s' = written s @ take (nat rc5) [irq]"
      using wr(7) [OF 1(12)] wr(6) [OF 1(11)] wr(1) [OF 1(9)] wr(5) [OF 1(7)] wr(4) [OF 1(6)] wr(3) [OF 1(5)] wr(2) [OF 1(3)]
      by simp
    ultimately show ?thesis using 1(1,2) Returned by (cases "nat rc5") auto
  qed
qed

lemma process_sends: "sends_laws process_net wire"
  unfolding sends_laws_def
  by (intro conjI allI) (auto simp: process_net_def allocate_fd_def)

theorem send_irq_main_sends_witness:
  "\<exists>s'. send_irq_main process_net [''send_irq'', ''localhost'', ''1234'', ''reset''] three_senders = Some (Returned 0, s') \<and>
     open_fds s' = open_fds three_senders \<and> wire s' = [1]"
proof -
  let ?argv = "[''send_irq'', ''localhost'', ''1234'', ''reset'']"
  have choice: "send_irq ?argv = Some (Runs 1)" by (simp add: send_irq_def RESET_def irq_number_eval)
  have port: "atoi (bytes ''1234'' @ [0]) = Some 1234" by code_simp
  have "\<exists>s'. send_irq_main process_net ?argv three_senders = Some (Returned 0, s') \<and> wire s' = [1]"
    unfolding send_irq_main_def choice wrapper_defs
    by (simp add: process_eval ensured_def checked_pointer_def host_address_def bzero_addr_def port)
  then obtain s' where s': "send_irq_main process_net ?argv three_senders = Some (Returned 0, s')" "wire s' = [1]" by blast
  from send_irq_main_sends [OF process_laws process_sends s'(1)] s' show ?thesis by auto
qed


section \<open>How the simulator ends\<close>

text \<open>The thread of the debugger ends the program with 0, when a write fails, or with 2, when the scanner has a fatal error.\<close>

definition exits_0_2 :: "'a or_exit option \<Rightarrow> bool" where
  "exits_0_2 m \<longleftrightarrow> (\<forall>code msg. m = Some (Exit code msg) \<longrightarrow> code = 0 \<or> code = 2)"

named_theorems exit_rules \<open>rules that follow a computation to the exits of the program\<close>

lemma exits_end [exit_rules]: "exits_0_2 (Some (Continue x))" "exits_0_2 None" "exits_0_2 (Some (Exit 2 msg))"
  by (simp_all add: exits_0_2_def)

lemma exits_bind [exit_rules]: "(\<And>x. exits_0_2 (f x)) \<Longrightarrow> exits_0_2 (Option.bind m f)"
  by (cases m) (simp_all add: exits_0_2_def)

lemma exits_if [exit_rules]: "exits_0_2 m \<Longrightarrow> exits_0_2 m' \<Longrightarrow> exits_0_2 (if b then m else m')"
  by simp

lemma exits_prod [exit_rules]: "(\<And>x y. exits_0_2 (f x y)) \<Longrightarrow> exits_0_2 (case p of (x, y) \<Rightarrow> f x y)"
  by (cases p) simp

lemma exits_then [exit_rules]: "exits_0_2 m \<Longrightarrow> (\<And>x. exits_0_2 (f x)) \<Longrightarrow> exits_0_2 (and_then m f)"
  by (cases m; cases "the m") (auto simp: exits_0_2_def)

lemma exits_send [exit_rules]: "exits_0_2 (Some (rio_send g bs))"
  by (auto simp: exits_0_2_def rio_send_def)

lemma exits_packets [exit_rules]:
  "exits_0_2 (gdb_transmit_packet g)" "exits_0_2 (gdb_send_buffer g)" "exits_0_2 (gdb_send_data g t)"
  "exits_0_2 (gdb_send_stop_reason g)"
  unfolding gdb_send_stop_reason_def gdb_send_data_def gdb_send_buffer_def gdb_transmit_packet_def Let_def
  by (intro exit_rules)+

lemma handlers_exit:
  assumes "gdb_init ! unat (i :: u8) = Some handler"
  shows "exits_0_2 (handler u fuel g data)"
proof -
  have "unat i < length gdb_init" using unsigned_less [of i] by (simp add: gdb_init_def)
  then have "Some handler \<in> set gdb_init" using assms by (metis nth_mem)
  with handlers have "handler \<in> {cont, cont_with_signal, kill_request, query, read_general_registers,
    read_memory, read_single_register, reason, set_thread, step, step_with_signal, write_general_registers,
    write_memory_binary, write_single_register, remove_breakpoint, set_breakpoint}" by auto
  then show ?thesis
    by (elim insertE emptyE; simp only:)
      (unfold cont_def cont_with_signal_def kill_request_def query_def read_general_registers_def read_memory_def
        read_single_register_def reason_def set_thread_def step_def step_with_signal_def write_general_registers_def
        write_memory_binary_def write_single_register_def remove_breakpoint_def set_breakpoint_def, (intro exit_rules)+)
qed

lemma analysis_exit [exit_rules]: "exits_0_2 (gdb_packet_analysis u fuel g pkt n)"
  unfolding gdb_packet_analysis_def Let_def gdb_send_ack_def gdb_require_retransmission_def
  by (intro exit_rules) (auto split: option.split intro: handlers_exit exit_rules)

lemma scanner_actions_exit [exit_rules]: "exits_0_2 (handle_error d)" "exits_0_2 (yy_action jk fuel r tx tail d)"
proof -
  have e: "exits_0_2 (handle_error d)" for d
    unfolding handle_error_def gdb_require_retransmission_def by (intro exit_rules)
  show "exits_0_2 (handle_error d)" by (rule e)
  show "exits_0_2 (yy_action jk fuel r tx tail d)"
    unfolding yy_action_def add_character_to_error_def by (intro exit_rules e)
qed

lemma exits_match:
  "exits_0_2 m \<Longrightarrow> (\<And>x. exits_0_2 (f x)) \<Longrightarrow>
   exits_0_2 (Option.bind m (\<lambda>r. case r of Exit code msg \<Rightarrow> Some (Exit code msg) | Continue x \<Rightarrow> f x))"
  by (cases m; cases "the m") (auto simp: exits_0_2_def)

lemma input_exit: "exits_0_2 (yy_input rd fuel w n)"
proof (induction fuel arbitrary: w)
  case (Suc fuel)
  then show ?case by (cases "rd w n") (auto split: read_result.split intro!: exits_if exits_end)
qed (simp add: exits_end)

lemma next_buffer_exit: "exits_0_2 (yy_get_next_buffer rd alloc fuel g w)"
proof -
  have f: "exits_0_2 (fill_buffer rd alloc fuel move g w)" for move g w
    unfolding fill_buffer_def Let_def by (rule exits_bind, rule exits_match [OF input_exit], intro exits_prod exits_bind exits_end)
  show ?thesis unfolding yy_get_next_buffer_def Let_def
    by (rule exits_if [OF exits_end(3)], rule exits_bind, rule exits_match, rule exits_if [OF exits_end(1) f],
        intro exits_prod exits_bind exits_end)
qed

lemma exits_eob: "exits_0_2 a \<Longrightarrow> exits_0_2 b \<Longrightarrow> exits_0_2 c \<Longrightarrow>
    exits_0_2 (case e of CONTINUE_SCAN \<Rightarrow> a | END_OF_FILE \<Rightarrow> b | LAST_MATCH \<Rightarrow> c)"
  by (cases e) simp_all

lemma refill_exit: "exits_0_2 (yy_refill rd alloc fuel amount g d w)"
  unfolding yy_refill_def Let_def
  by (rule exits_match [OF next_buffer_exit], intro exits_eob exit_rules)

lemma step_exit: "exits_0_2 (yy_step rd alloc jk fuel label g d w)"
proof -
  have "exits_0_2 (yy_end_of_buffer rd alloc fuel cp g d w)" for cp g d w
    unfolding yy_end_of_buffer_def yy_real_NUL_def Let_def by (intro exit_rules refill_exit)
  then show ?thesis unfolding yy_step_def yy_find_action_def Let_def
    by (cases label) (auto intro!: exit_rules)
qed

lemma yylex_exit: "exits_0_2 (yylex rd alloc jk fuel jumps d w)"
proof -
  have "exits_0_2 (yylex_loop rd alloc jk fuel jumps label g d w)" for label g d w
  proof (induction jumps arbitrary: label g d w)
    case (Suc jumps)
    then show ?case using step_exit [of rd alloc jk fuel label g d w]
      by (cases "yy_step rd alloc jk fuel label g d w"; cases "the (yy_step rd alloc jk fuel label g d w)")
        (auto simp: exits_0_2_def split: yy_next_label.splits)
  qed (simp add: exits_0_2_def)
  then show ?thesis unfolding yylex_def by (intro exit_rules)
qed

lemma gdb_listener_Exited:
  assumes "gdb_listener N stream got opened alloc jk fuel jumps a pkt bps fails buf port s = Some (Exited n t, s')"
  shows "n = 0 \<or> n = 2"
  using assms unfolding gdb_listener_def
proof (cases rule: then_run_ExitedE)
  case 1
  then show ?thesis using create_server_Exited by fastforce
next
  case (2 server s1)
  from 2(2) show ?thesis
  proof (cases rule: then_run_ExitedE)
    case 1
    then show ?thesis by (auto simp: Accept_def dest: checked_Exited)
  next
    case (2 c s2)
    from 2(2) obtain r where
      r: "gdb_scanner got opened (stream c) alloc jk fuel jumps a pkt bps fails buf s2 = Some r"
      by (auto simp: bind_eq_Some_conv)
    show ?thesis
    proof (cases r)
      case None
      with 2(2) r show ?thesis by (simp add: Let_def split: prod.split_asm)
    next
      case (Some m)
      with r have "\<exists>d. yylex (stream c) alloc jk fuel jumps d s2 = Some m"
        by (auto simp: gdb_scanner_def bind_eq_Some_conv split: if_splits)
      then have "m = Exit code msg \<Longrightarrow> code = 0 \<or> code = 2" for code msg
        using yylex_exit [of "stream c" alloc jk fuel jumps _ s2] by (fastforce simp: exits_0_2_def)
      with Some 2(2) r show ?thesis by (cases m) (auto simp: Let_def split: prod.split_asm)
    qed
  qed
qed

text \<open>
  A simulator that has been started with a processor returns 0 when the debugger has left. It can also
  end with the status 0 after a system call, among them a write to the debugger, has failed, and only a fatal error of the scanner has a status
  of its own.
\<close>

lemma simulator_main_ends:
  assumes "spells args os" "list_all (good_option writable) os" "length (filter (\<lambda>x. fst x = CHR ''d'') os) \<le> 64"
    "simulator_main writable args got_mem block got_regs got_arm u
       (debugger_only N stream got opened alloc jk fuel jumps pkt bps fails buf) s = Some (r, s')"
  shows "(\<exists>a. simulator_start got_mem block got_regs got_arm u = Some (Some a)) \<and>
    (case r of Returned status \<Rightarrow> status = 0 | Exited status _ \<Rightarrow> status = 0 \<or> status = 2)"
proof -
  obtain sim where sim: "command_line writable args = Some (Runs sim)"
    using command_line_runs [OF assms(1-3)] by blast
  from assms(4) obtain a where a: "simulator_start got_mem block got_regs got_arm u = Some (Some a)"
    "then_run (then_run (gdb_listener N stream got opened alloc jk fuel jumps a pkt bps fails buf (gdb_port sim) s)
       (\<lambda>p s. Some (Returned (Some p), s))) (\<lambda>_ s. Some (Returned 0, s)) = Some (r, s')"
    by (auto simp: simulator_main_def sim debugger_only_def then_run_def bind_eq_Some_conv)
  obtain x s1 where l: "gdb_listener N stream got opened alloc jk fuel jumps a pkt bps fails buf (gdb_port sim) s = Some (x, s1)"
    using a(2) by (cases "gdb_listener N stream got opened alloc jk fuel jumps a pkt bps fails buf (gdb_port sim) s") auto
  with a gdb_listener_Exited [of N stream got opened alloc jk fuel jumps a pkt bps fails buf "gdb_port sim" s]
  show ?thesis by (cases x) auto
qed

end
