(* ===== verification/Sim_Messages.thy ===== *)
theory Sim_Messages
  imports Sim_Debug Sim_Trace
begin

text \<open>
  The macros of \<^verbatim>\<open>debug.h\<close>, as they are with \<^verbatim>\<open>-D DEBUG\<close>: the messages of a source file that
  is debugged go to the standard error output. The text of a message is the one its format gives. The
  variant with \<^verbatim>\<open>CACHE_DEBUG_FLAG\<close>, which the build files leave as a comment, asks the table once for each source
  file.
\<close>

section \<open>Messages\<close>

definition debug_raw :: "debug_table \<Rightarrow> string \<Rightarrow> string \<Rightarrow> string option" where
  "debug_raw d src_file text = do {
     shown \<leftarrow> is_debugged d (Name (bytes src_file));
     Some (if shown \<noteq> 0 then text else [])
   }"

definition debug :: "debug_table \<Rightarrow> string \<Rightarrow> int \<Rightarrow> string \<Rightarrow> string option" where
  "debug d src_file line text = do {
     shown \<leftarrow> is_debugged d (Name (bytes src_file));
     Some (if shown \<noteq> 0 then ''[DEBUG] '' @ src_file @ '','' @ print_d line @ '': '' @ text else [])
   }"

definition debug_raw_binary_of :: "debug_table \<Rightarrow> string \<Rightarrow> u8 list \<Rightarrow> nat \<Rightarrow> u8 list option" where
  "debug_raw_binary_of d src_file data n = do {
     shown \<leftarrow> is_debugged d (Name (bytes src_file));
     if shown \<noteq> 0 then debug_raw_binary data n else Some []
   }"

definition warning :: "string \<Rightarrow> int \<Rightarrow> string \<Rightarrow> string" where
  "warning src_file line text = ''[WARNING] '' @ src_file @ '', '' @ print_d line @ '': '' @ text"

section \<open>The cached flag\<close>

record debug_cache =
  is_debugged_first :: int
  is_debugged_result :: int

definition cache_start :: debug_cache where
  "cache_start = \<lparr>is_debugged_first = 1, is_debugged_result = 0\<rparr>"

definition is_debugged_cached :: "debug_table \<Rightarrow> debug_cache \<Rightarrow> file_name \<Rightarrow> (int \<times> debug_cache) option" where
  "is_debugged_cached d c name = do {
     (first, c) \<leftarrow> (if is_debugged_first c \<noteq> 0 then do {
         r \<leftarrow> is_debugged d name;
         Some (r \<noteq> 0, c\<lparr>is_debugged_first := 0, is_debugged_result := r\<rparr>)
       } else Some (False, c));
     Some (if first \<or> is_debugged_result c \<noteq> 0 then 1 else 0, c)
   }"

text \<open>The answers to a sequence of questions, each asked when the table is the one given.\<close>

fun cached_answers :: "debug_cache \<Rightarrow> file_name \<Rightarrow> debug_table list \<Rightarrow> int list option" where
  "cached_answers c name [] = Some []"
| "cached_answers c name (d # ds) = do {
     (r, c) \<leftarrow> is_debugged_cached d c name;
     rs \<leftarrow> cached_answers c name ds;
     Some (r # rs)
   }"

lemma cached_later: "is_debugged_first c = 0 \<Longrightarrow>
  cached_answers c name ds = Some (replicate (length ds) (if is_debugged_result c \<noteq> 0 then 1 else 0))"
  by (induction ds) (simp_all add: is_debugged_cached_def)

text \<open>
  The cache answers every question as the table answered the first one. With a table that does not
  change this is what the macro without the cache answers; when a message of the file comes before the
  option that names the file has been read, the file stays silent, as the comment warns.
\<close>

lemma cached_answers_first:
  assumes "debug_holds d xs"
  shows "cached_answers cache_start name (d # ds) = Some (replicate (Suc (length ds)) (of_bool (name \<in> set xs)))"
  by (simp add: is_debugged_cached_def cache_start_def is_debugged_holds [OF assms] cached_later)

lemma debug_shown:
  assumes "debug_holds d xs"
  shows "debug d src_file line text = Some (if Name (bytes src_file) \<in> set xs
    then ''[DEBUG] '' @ src_file @ '','' @ print_d line @ '': '' @ text else [])"
  by (simp add: debug_def is_debugged_holds [OF assms])

end
