(* ===== verification/Sim_Tests.thy ===== *)
theory Sim_Tests
  imports Sim_Memory Arm_Registers C_Strings
begin

text \<open>
  The two test programs, \<^verbatim>\<open>memory_test.c\<close> and \<^verbatim>\<open>registers_test.c\<close>: what they
  print on the standard output. The byte order of the machine they run on is a parameter, and so are the
  content of allocated memory, of uninitialised variables, and the random numbers. The message for a
  failed allocation goes to the standard error output and is left out.
\<close>

section \<open>The host\<close>

text \<open>The bytes of an object of \<open>n\<close> bytes in the memory of the host, which may be big endian.\<close>

definition host_bytes :: "bool \<Rightarrow> nat \<Rightarrow> 'a::len word \<Rightarrow> u8 list" where
  "host_bytes big n x = (let bs = map (\<lambda>k. ucast (drop_bit (8 * k) x)) [0..<n] in if big then rev bs else bs)"

definition is_big_endian :: "bool \<Rightarrow> int option" where
  "is_big_endian big = do { b \<leftarrow> aget (host_bytes big 4 (1 :: u32)) 0; Some (if b = 0 then 1 else 0) }"

section \<open>Comparisons\<close>

text \<open>
  The loops over \<open>i\<close>, with \<open>left\<close> turns to come: \<open>compare\<close> on the bytes behind two pointers and
  \<open>compare_with_sim\<close> on the bytes of the simulated memory, whose \<open>value\<close> keeps what it had when a read fails.
\<close>

fun compare_loop :: "u8 list \<Rightarrow> u8 list \<Rightarrow> nat \<Rightarrow> nat \<Rightarrow> int \<Rightarrow> int \<Rightarrow> int option" where
  "compare_loop a b i 0 j j_step = Some 1"
| "compare_loop a b i (Suc left) j j_step = do {
     x \<leftarrow> aget a i;
     c_assert (0 \<le> j);
     y \<leftarrow> aget b (nat j);
     if x \<noteq> y then Some 0 else compare_loop a b (i + 1) left (j + j_step) j_step
   }"

definition compare :: "u8 list \<Rightarrow> u8 list \<Rightarrow> nat \<Rightarrow> bool \<Rightarrow> int option" where
  "compare a b n reverse =
     (if reverse then compare_loop a b 0 n (int n - 1) (-1) else compare_loop a b 0 n 0 1)"

fun sim_loop :: "u8 list \<Rightarrow> memory_data \<Rightarrow> nat \<Rightarrow> nat \<Rightarrow> int \<Rightarrow> int \<Rightarrow> u8 \<Rightarrow> int option" where
  "sim_loop a m i 0 j j_step v = Some 1"
| "sim_loop a m i (Suc left) j j_step v = do {
     (r, v) \<leftarrow> memory_read_byte m (word_of_int j) v;
     x \<leftarrow> aget a i;
     if x \<noteq> v then Some 0 else sim_loop a m (i + 1) left (j + j_step) j_step v
   }"

definition compare_with_sim :: "u8 \<Rightarrow> u8 list \<Rightarrow> memory_data \<Rightarrow> nat \<Rightarrow> bool \<Rightarrow> int option" where
  "compare_with_sim value a m n reverse =
     (if reverse then sim_loop a m 0 n (int n - 1) (-1) value else sim_loop a m 0 n 0 1 value)"

definition print_test :: "int \<Rightarrow> string" where
  "print_test result = (if result \<noteq> 0 then ''Test succeded'' @ newline else ''TEST FAILED !!'' @ newline)"

section \<open>The test of the memory\<close>

fun write_position :: "memory_data \<Rightarrow> nat \<Rightarrow> u8 list \<Rightarrow> memory_data option" where
  "write_position m i [] = Some m"
| "write_position m i (b # bs) = do { (r, m) \<leftarrow> memory_write_byte m (of_nat i) b; write_position m (i + 1) bs }"

text \<open>
  \<open>main\<close>: its exit status and what it prints. \<open>wr\<close>, \<open>hr\<close> and \<open>v\<close> are the uninitialised variables
  \<open>word_read\<close>, \<open>half_read\<close> and \<open>value\<close>.
\<close>

definition memory_test_main ::
  "bool \<Rightarrow> bool \<Rightarrow> u8 list option \<Rightarrow> u32 \<Rightarrow> u16 \<Rightarrow> u8 \<Rightarrow> (nat \<times> string) option" where
  "memory_test_main big got block wr hr v = (case memory_create got block 4 of
     None \<Rightarrow> Some (1, [])
   | Some m \<Rightarrow> do {
       let word_value = (0x11223344 :: u32);
       let half_value = (0x5566 :: u16);
       c_assert (memory_get_size m = 4);
       my \<leftarrow> is_big_endian big;
       name \<leftarrow> aget [''little'', ''big''] (nat my);
       let me = (word_of_int my :: u8);
       let other = (word_of_int (1 - my) :: u8);
       m \<leftarrow> write_position m 0 (host_bytes big 4 word_value);
       (r, wr) \<leftarrow> memory_read_word m 0 wr me;
       t1 \<leftarrow> compare (host_bytes big 4 word_value) (host_bytes big 4 wr) 4 False;
       (r, hr) \<leftarrow> memory_read_half m 0 hr me;
       t2 \<leftarrow> compare (host_bytes big 4 word_value) (host_bytes big 2 hr) 2 False;
       (r, wr) \<leftarrow> memory_read_word m 0 wr other;
       t3 \<leftarrow> compare (host_bytes big 4 word_value) (host_bytes big 4 wr) 4 True;
       (r, hr) \<leftarrow> memory_read_half m 0 hr other;
       t4 \<leftarrow> compare (host_bytes big 4 word_value) (host_bytes big 2 hr) 2 True;
       (r, m) \<leftarrow> memory_write_word m 0 word_value me;
       t5 \<leftarrow> compare_with_sim v (host_bytes big 4 word_value) m 4 False;
       (r, m) \<leftarrow> memory_write_half m 0 half_value me;
       t6 \<leftarrow> compare_with_sim v (host_bytes big 2 half_value) m 2 False;
       (r, m) \<leftarrow> memory_write_word m 0 word_value other;
       t7 \<leftarrow> compare_with_sim v (host_bytes big 4 word_value) m 4 True;
       (r, m) \<leftarrow> memory_write_half m 0 half_value other;
       t8 \<leftarrow> compare_with_sim v (host_bytes big 2 half_value) m 2 True;
       Some (0, ''I'' @ [CHR 0x27] @ ''m a '' @ name @ '' endian host'' @ newline @
         ''Writing 4 bytes at address 0, then reading the word and half, '' @
         ''the result should depend on endianess of the access to the simulated memory :'' @ newline @
         ''- word read with the same endianess as me, '' @ print_test t1 @
         ''- half read with the same endianess as me, '' @ print_test t2 @
         ''- word read with a different endianess than me, '' @ print_test t3 @
         ''- half read with a different endianess than me, '' @ print_test t4 @
         ''Writing word and half at address 0, then reading the bytes, '' @
         ''the result should depend on simulated memory endianess :'' @ newline @
         ''- word write with the same endianess as me, '' @ print_test t5 @
         ''- half write with the same endianess as me, '' @ print_test t6 @
         ''- word write with a different endianess than me, '' @ print_test t7 @
         ''- half write with a different endianess than me, '' @ print_test t8)
     })"

section \<open>The test of the registers\<close>

text \<open>The loops that write the values from register \<open>i\<close> on, and that read them back.\<close>

fun write_values :: "registers \<Rightarrow> u8 \<Rightarrow> nat \<Rightarrow> u32 list \<Rightarrow> registers option" where
  "write_values r mode i [] = Some r"
| "write_values r mode i (v # vs) = do { r \<leftarrow> registers_write r (of_nat i) mode v; write_values r mode (i + 1) vs }"

fun test_values :: "registers \<Rightarrow> u8 \<Rightarrow> nat \<Rightarrow> u32 list \<Rightarrow> string option" where
  "test_values r mode i [] = Some []"
| "test_values r mode i (v # vs) = do {
     word_read \<leftarrow> registers_read r (of_nat i) mode;
     out \<leftarrow> test_values r mode (i + 1) vs;
     Some (''- register '' @ print_d (int i) @ '' : '' @ print_test (if word_read = v then 1 else 0) @ out)
   }"

text \<open>\<open>main\<close> with the random numbers \<open>vs\<close>, 15 of them.\<close>

definition registers_test_main :: "bool \<Rightarrow> u32 list \<Rightarrow> (nat \<times> string) option" where
  "registers_test_main got vs = (case registers_create got of
     None \<Rightarrow> Some (1, [])
   | Some r \<Rightarrow> do {
       r \<leftarrow> registers_write_cpsr (Some r) 0x1d3;
       let mode = registers_get_mode r;
       r \<leftarrow> registers_write r 15 mode 0;
       r \<leftarrow> write_values r mode 0 vs;
       out \<leftarrow> test_values r mode 0 vs;
       priv \<leftarrow> registers_in_a_privileged_mode r;
       Some (0, ''Reseting registers...'' @ newline @ ''Testing read and write to general registers:'' @ newline @ out @
         ''Current mode : '' @ print_test (if registers_get_mode r = SVC then 1 else 0) @
         ''Mode is priviledged : '' @ print_test priv @
         ''Mode has spsr : '' @ print_test (registers_current_mode_has_spsr r))
     })"


section \<open>The tests pass\<close>

lemma is_big_endian_eq: "is_big_endian big = Some (if big then 1 else 0)"
  by (simp add: is_big_endian_def host_bytes_def numeral_eq_Suc)

lemma host_word: "host_bytes big 4 (v :: u32) =
  (if big then rev else (\<lambda>x. x)) [ucast v, ucast (drop_bit 8 v), ucast (drop_bit 16 v), ucast (drop_bit 24 v)]"
  by (simp add: host_bytes_def numeral_eq_Suc)

lemma host_half: "host_bytes big 2 (v :: 'a::len word) =
  (if big then rev else (\<lambda>x. x)) [ucast v, ucast (drop_bit 8 v)]"
  by (simp add: host_bytes_def numeral_eq_Suc)

text \<open>The operations on a memory of four bytes, at the addresses the test uses.\<close>

definition quad :: "u8 \<Rightarrow> u8 \<Rightarrow> u8 \<Rightarrow> u8 \<Rightarrow> memory_data" where
  "quad b0 b1 b2 b3 = \<lparr>mem_value = Some [b0, b1, b2, b3], taille = 4\<rparr>"

lemma quad_read:
  "memory_read_byte (quad b0 b1 b2 b3) 0 v = Some (0, b0)"
  "memory_read_byte (quad b0 b1 b2 b3) 1 v = Some (0, b1)"
  "memory_read_byte (quad b0 b1 b2 b3) 2 v = Some (0, b2)"
  "memory_read_byte (quad b0 b1 b2 b3) 3 v = Some (0, b3)"
  by (simp_all add: quad_def memory_read_byte_def memory_get_size_def mem_at_def)

lemma quad_read_values:
  "memory_read_half (quad b0 b1 b2 b3) 0 h be =
     Some (0, if be = 0 then half_of b1 b0 else half_of b0 b1)"
  "memory_read_word (quad b0 b1 b2 b3) 0 w be =
     Some (0, if be = 0 then word_of b3 b2 b1 b0 else word_of b0 b1 b2 b3)"
proof -
  have wf: "mem_wf (quad b0 b1 b2 b3)" "in_mem (quad b0 b1 b2 b3) 0 2" "in_mem (quad b0 b1 b2 b3) 0 4"
    by (simp_all add: quad_def mem_wf_def in_mem_def)
  show "memory_read_half (quad b0 b1 b2 b3) 0 h be =
      Some (0, if be = 0 then half_of b1 b0 else half_of b0 b1)"
    using read_half_in [OF wf(1,2), of h be] by (simp add: quad_def byte_at_def)
  show "memory_read_word (quad b0 b1 b2 b3) 0 w be =
      Some (0, if be = 0 then word_of b3 b2 b1 b0 else word_of b0 b1 b2 b3)"
    using read_word_in [OF wf(1,3), of w be] by (simp add: quad_def byte_at_def)
qed

lemma quad_write:
  "memory_write_byte (quad b0 b1 b2 b3) 0 b = Some (0, quad b b1 b2 b3)"
  "memory_write_byte (quad b0 b1 b2 b3) 1 b = Some (0, quad b0 b b2 b3)"
  "memory_write_byte (quad b0 b1 b2 b3) 2 b = Some (0, quad b0 b1 b b3)"
  "memory_write_byte (quad b0 b1 b2 b3) 3 b = Some (0, quad b0 b1 b2 b)"
  "memory_write_half (quad b0 b1 b2 b3) 0 h be = Some (0,
     if be = 0 then quad (ucast h) (ucast (drop_bit 8 h)) b2 b3
     else quad (ucast (drop_bit 8 h)) (ucast h) b2 b3)"
  "memory_write_word (quad b0 b1 b2 b3) 0 w be = Some (0,
     if be = 0 then quad (ucast w) (ucast (drop_bit 8 w)) (ucast (drop_bit 16 w)) (ucast (drop_bit 24 w))
     else quad (ucast (drop_bit 24 w)) (ucast (drop_bit 16 w)) (ucast (drop_bit 8 w)) (ucast w))"
  by (simp_all add: quad_def memory_write_byte_def memory_get_size_def mem_put_def memory_write_half_def
      memory_write_word_def)

lemma quad_bytes:
  "(ucast (half_of b1 b0) :: u8) = b0" "(ucast (drop_bit 8 (half_of b1 b0)) :: u8) = b1"
  "(ucast (word_of b3 b2 b1 b0) :: u8) = b0" "(ucast (drop_bit 8 (word_of b3 b2 b1 b0)) :: u8) = b1"
  "(ucast (drop_bit 16 (word_of b3 b2 b1 b0)) :: u8) = b2"
  "(ucast (drop_bit 24 (word_of b3 b2 b1 b0)) :: u8) = b3"
  by (auto intro!: bit_eqI simp: bit_simps half_of_def word_of_def)

definition passed :: string where "passed = ''Test succeded'' @ newline"

lemma print_test_1: "print_test 1 = passed" by (simp add: print_test_def passed_def)

definition memory_test_report :: "string \<Rightarrow> string" where
  "memory_test_report name = ''I'' @ [CHR 0x27] @ ''m a '' @ name @ '' endian host'' @ newline @
     ''Writing 4 bytes at address 0, then reading the word and half, '' @
     ''the result should depend on endianess of the access to the simulated memory :'' @ newline @
     ''- word read with the same endianess as me, '' @ passed @
     ''- half read with the same endianess as me, '' @ passed @
     ''- word read with a different endianess than me, '' @ passed @
     ''- half read with a different endianess than me, '' @ passed @
     ''Writing word and half at address 0, then reading the bytes, '' @
     ''the result should depend on simulated memory endianess :'' @ newline @
     ''- word write with the same endianess as me, '' @ passed @
     ''- half write with the same endianess as me, '' @ passed @
     ''- word write with a different endianess than me, '' @ passed @
     ''- half write with a different endianess than me, '' @ passed"

text \<open>The loops, unrolled at the sizes the test uses.\<close>

lemma compare_sizes:
  "compare [a0, a1, a2, a3] [b0, b1, b2, b3] 4 False = Some (if [a0, a1, a2, a3] = [b0, b1, b2, b3] then 1 else 0)"
  "compare [a0, a1, a2, a3] [b0, b1, b2, b3] 4 True = Some (if [a0, a1, a2, a3] = [b3, b2, b1, b0] then 1 else 0)"
  "compare [a0, a1, a2, a3] [b0, b1] 2 False = Some (if [a0, a1] = [b0, b1] then 1 else 0)"
  "compare [a0, a1, a2, a3] [b0, b1] 2 True = Some (if [a0, a1] = [b1, b0] then 1 else 0)"
  by (simp_all add: compare_def numeral_eq_Suc)

lemma compare_with_sim_sizes:
  "compare_with_sim v [a0, a1, a2, a3] (quad b0 b1 b2 b3) 4 False =
     Some (if [a0, a1, a2, a3] = [b0, b1, b2, b3] then 1 else 0)"
  "compare_with_sim v [a0, a1, a2, a3] (quad b0 b1 b2 b3) 4 True =
     Some (if [a0, a1, a2, a3] = [b3, b2, b1, b0] then 1 else 0)"
  "compare_with_sim v [a0, a1] (quad b0 b1 b2 b3) 2 False = Some (if [a0, a1] = [b0, b1] then 1 else 0)"
  "compare_with_sim v [a0, a1] (quad b0 b1 b2 b3) 2 True = Some (if [a0, a1] = [b1, b0] then 1 else 0)"
proof -
  have four: "4 = Suc (Suc (Suc (Suc 0)))" and two: "2 = Suc (Suc 0)" by simp_all
  show "compare_with_sim v [a0, a1, a2, a3] (quad b0 b1 b2 b3) 4 False =
     Some (if [a0, a1, a2, a3] = [b0, b1, b2, b3] then 1 else 0)"
    "compare_with_sim v [a0, a1, a2, a3] (quad b0 b1 b2 b3) 4 True =
     Some (if [a0, a1, a2, a3] = [b3, b2, b1, b0] then 1 else 0)"
    unfolding compare_with_sim_def four by (simp_all add: quad_read)
  show "compare_with_sim v [a0, a1] (quad b0 b1 b2 b3) 2 False = Some (if [a0, a1] = [b0, b1] then 1 else 0)"
    "compare_with_sim v [a0, a1] (quad b0 b1 b2 b3) 2 True = Some (if [a0, a1] = [b1, b0] then 1 else 0)"
    unfolding compare_with_sim_def two by (simp_all add: quad_read)
qed

lemma write_position_quad:
  "write_position (quad b0 b1 b2 b3) 0 [a0, a1, a2, a3] = Some (quad a0 a1 a2 a3)"
  by (simp add: quad_write)

lemma memory_test_quad:
  "memory_test_main big True (Some [b0, b1, b2, b3]) wr hr v =
     Some (0, memory_test_report (if big then ''big'' else ''little''))"
proof -
  have create: "memory_create True (Some [b0, b1, b2, b3]) 4 = Some (quad b0 b1 b2 b3)"
    by (simp add: memory_create_def quad_def)
  have sz: "\<And>b0 b1 b2 b3. memory_get_size (quad b0 b1 b2 b3) = 4"
    by (simp add: memory_get_size_def quad_def)
  show ?thesis
    by (cases big) (simp_all add: memory_test_main_def memory_test_report_def create sz
      is_big_endian_eq host_word host_half write_position_quad quad_read_values quad_write quad_bytes
      compare_sizes compare_with_sim_sizes print_test_1 del: write_position.simps)
qed

lemma less_4_lists: "length bs = 4 \<Longrightarrow> \<exists>b0 b1 b2 b3. bs = [b0, b1, b2, b3]"
  by (auto simp: numeral_eq_Suc length_Suc_conv)

text \<open>
  The test of the memory passes on little and on big endian machines, whatever the allocated block
  and the uninitialised variables hold: it prints eight successes and exits with status 0. When the
  structure cannot be allocated it exits with status 1; when only the block cannot, which
  \<open>memory_create\<close> does not check, the program is undefined.
\<close>

lemma memory_test_passes:
  "(\<forall>bs. block = Some bs \<longrightarrow> length bs = 4) \<Longrightarrow>
   memory_test_main big got block wr hr v =
     (if \<not> got then Some (1, [])
      else if block = None then None
      else Some (0, memory_test_report (if big then ''big'' else ''little'')))"
proof (cases "got \<and> block \<noteq> None")
  case True
  assume "\<forall>bs. block = Some bs \<longrightarrow> length bs = 4"
  with True obtain b0 b1 b2 b3 where "block = Some [b0, b1, b2, b3]" using less_4_lists by blast
  with True show ?thesis by (simp add: memory_test_quad)
next
  case False
  have "got \<Longrightarrow> memory_test_main big got None wr hr v = None"
    by (cases big) (simp_all add: memory_test_main_def memory_create_def memory_get_size_def is_big_endian_eq
      host_word memory_write_byte_def mem_put_def)
  with False show ?thesis by (auto simp: memory_test_main_def memory_create_def)
qed

lemma memory_test_passes_example:
  "memory_test_main True True (Some [7, 8, 9, 10]) 1 2 3 = Some (0, memory_test_report ''big'')"
  using memory_test_passes [of "Some [7, 8, 9, 10]" True True 1 2 3] by simp

lemma write_values_correct:
  "regs_wf r \<Longrightarrow> i + length vs \<le> 15 \<Longrightarrow> \<exists>r'. write_values r mode i vs = Some r' \<and> regs_wf r' \<and>
     (\<forall>j. regv r' j = (if i \<le> j \<and> j < i + length vs then vs ! (j - i) else regv r j))"
proof (induction vs arbitrary: r i)
  case (Cons x vs)
  have u: "unat (of_nat i :: u8) = i" using Cons.prems by (simp add: unat_of_nat)
  have w: "registers_write r (of_nat i) mode x = Some (reg_upd r i x)"
    using Cons.prems u by (simp add: registers_write_wf word_less_nat_alt)
  have wf: "regs_wf (reg_upd r i x)" using Cons.prems by (simp add: reg_upd_wf)
  from Cons.IH [OF wf, of "Suc i"] Cons.prems obtain r' where
    r': "write_values (reg_upd r i x) mode (Suc i) vs = Some r'" "regs_wf r'"
      "\<forall>j. regv r' j = (if Suc i \<le> j \<and> j < Suc i + length vs then vs ! (j - Suc i)
        else regv (reg_upd r i x) j)" by auto
  have "regv r' j = (if i \<le> j \<and> j < i + length (x # vs) then (x # vs) ! (j - i) else regv r j)" for j
    using r'(3) Cons.prems by (cases "j = i") (auto simp: nth_Cons')
  with r' w show ?case by auto
qed auto

definition values_report :: "nat \<Rightarrow> nat \<Rightarrow> string" where
  "values_report i n = concat (map (\<lambda>k. ''- register '' @ print_d (int k) @ '' : '' @ passed) [i..<i + n])"

lemma test_values_correct:
  "regs_wf r \<Longrightarrow> i + length vs \<le> 15 \<Longrightarrow> (\<forall>k < length vs. regv r (i + k) = vs ! k) \<Longrightarrow>
   test_values r mode i vs = Some (values_report i (length vs))"
proof (induction vs arbitrary: i)
  case (Cons x vs)
  have u: "unat (of_nat i :: u8) = i" using Cons.prems by (simp add: unat_of_nat)
  have "registers_read r (of_nat i) mode = Some x"
    using Cons.prems u by (auto simp: registers_read_wf word_less_nat_alt)
  moreover have "test_values r mode (Suc i) vs = Some (values_report (Suc i) (length vs))"
    using Cons.prems by (intro Cons.IH) auto
  moreover have "[i..<i + length (x # vs)] = i # [Suc i..<Suc i + length vs]"
    by (simp add: upt_rec)
  ultimately show ?case by (simp add: values_report_def print_test_1 del: upt_Suc)
qed (simp add: values_report_def)

text \<open>
  The test of the registers passes for every fifteen random numbers: all the values are read back
  and the mode after the reset is \<open>SVC\<close>, a privileged mode with an SPSR.
\<close>

lemma registers_test_passes:
  "length vs = 15 \<Longrightarrow> registers_test_main got vs =
     (if got then Some (0, ''Reseting registers...'' @ newline @ ''Testing read and write to general registers:'' @ newline @
        values_report 0 15 @ ''Current mode : '' @ passed @ ''Mode is priviledged : '' @ passed @
        ''Mode has spsr : '' @ passed) else Some (1, []))"
proof (cases got)
  case True
  assume len: "length vs = 15"
  define r0 where "r0 = reg_upd (reg_upd (registers_create True) 16 (0x1d3 AND NOT CPSR_Reserved_Mask)) 15 0"
  have wf1: "regs_wf (reg_upd (registers_create True) 16 (0x1d3 AND NOT CPSR_Reserved_Mask))"
    by (rule reg_upd_cpsr_wf [OF registers_create_wf])
  then have wf0: "regs_wf r0" unfolding r0_def by (rule reg_upd_wf) simp
  have cpsr: "regv r0 16 = 0x1d3 AND NOT CPSR_Reserved_Mask"
    using wf1 registers_create_wf by (simp add: r0_def)
  from write_values_correct [OF wf0, of 0 vs SVC] len obtain r where
    r: "write_values r0 SVC 0 vs = Some r" "regs_wf r"
      "\<forall>j. regv r j = (if j < 15 then vs ! j else regv r0 j)" by auto
  have t: "test_values r SVC 0 vs = Some (values_report 0 15)"
    using test_values_correct [OF r(2), of 0 vs SVC] r(3) len by simp
  have c: "registers_write_cpsr (registers_create True) 0x1d3 =
      Some (reg_upd (registers_create True) 16 (0x1d3 AND NOT CPSR_Reserved_Mask))"
    by (simp add: registers_write_cpsr_wf registers_create_wf)
  have w: "registers_write (reg_upd (registers_create True) 16 (0x1d3 AND NOT CPSR_Reserved_Mask)) 15 SVC 0
      = Some r0" using wf1 by (simp add: registers_write_wf r0_def)
  have p: "registers_in_a_privileged_mode r = Some 1"
    using r cpsr by (simp add: registers_in_a_privileged_mode_def reg_at_wf PrivMask_def CPSR_Reserved_Mask_def)
  obtain rs where rc: "registers_create True = Some rs" by (simp add: registers_create_def)
  show ?thesis
    using True c w r t p wf1
    by (simp add: registers_test_main_def rc get_mode_wf has_spsr_wf print_test_1)
qed (simp add: registers_test_main_def registers_create_def)

lemma registers_test_passes_example:
  "map_option fst (registers_test_main True (replicate 15 42)) = Some 0"
  using registers_test_passes [of "replicate 15 42" True] by simp

text \<open>
  The answer of \<open>registers_in_a_privileged_mode\<close> is 1 or -1, which both count as true: the line about
  the privileged mode reports success for every register file.
\<close>

lemma privileged_line_succeeds: "registers_in_a_privileged_mode r = Some p \<Longrightarrow> print_test p = passed"
  by (auto simp: registers_in_a_privileged_mode_def print_test_def passed_def bind_eq_Some_conv split: if_splits)

end
