(* ===== verification/Sim_Trace_Format.thy ===== *)
theory Sim_Trace_Format
  imports Sim_Trace
begin

text \<open>
  \<^verbatim>\<open>trace.c\<close> compiled with \<^verbatim>\<open>ARM_TRACE_FORMAT\<close>: the compact lines of the trace files of ARM, in which an
  access to the memory is marked sequential, \<open>S\<close>, or not, \<open>N\<close>. Positions are not printed in this
  format; everything else of the file is as in \<open>Sim_Trace\<close>.
\<close>

definition arm_trace_memory_seq :: "string list" where "arm_trace_memory_seq = [''N'', ''S'']"
definition arm_trace_memory_cause :: "string list" where "arm_trace_memory_cause = [''_'', ''O'']"
definition arm_trace_type :: "string list" where "arm_trace_type = [''W'', ''R'']"

definition arm_trace_memory ::
  "trace_state \<Rightarrow> u32 \<Rightarrow> u8 \<Rightarrow> u8 \<Rightarrow> u8 \<Rightarrow> u32 \<Rightarrow> u32 \<Rightarrow> trace_state option" where
  "arm_trace_memory t cycle type sz cause address v = (if traces t MEMORY then do {
     let seq = (if address = last_address t + 4 then 1 else 0);
     let t = t\<lparr>last_address := address\<rparr>;
     sq \<leftarrow> aget arm_trace_memory_seq seq;
     ty \<leftarrow> aget arm_trace_type (unat type);
     ca \<leftarrow> aget arm_trace_memory_cause (unat cause);
     Some (fprintf t (''M'' @ sq @ ty @ print_d (uint sz) @ ca @ ''__ '' @ print_08X address @ '' '' @ print_08X v @ newline))
   } else Some t)"

definition arm_trace_register ::
  "trace_state \<Rightarrow> u32 \<Rightarrow> u8 \<Rightarrow> u8 \<Rightarrow> u8 \<Rightarrow> u32 \<Rightarrow> trace_state option" where
  "arm_trace_register t cycle type r mode v = (if traces t REGISTERS then do {
     name \<leftarrow> arm_get_mode_name mode;
     let mode_name = (case name of Some n \<Rightarrow> CHR ''_'' # n | None \<Rightarrow> '''');
     ty \<leftarrow> aget arm_trace_type (unat type);
     rn \<leftarrow> arm_get_register_name r;
     Some (fprintf t (''R'' @ ty @ '' '' @ rn @ mode_name @ '' '' @ print_08X v @ newline))
   } else Some t)"

text \<open>A run of accesses, given by address, size and value: the reads of a program without a cause.\<close>

fun trace_reads :: "trace_state \<Rightarrow> (u32 \<times> u8 \<times> u32) list \<Rightarrow> trace_state option" where
  "trace_reads t [] = Some t"
| "trace_reads t ((address, sz, v) # accs) = do {
     t \<leftarrow> arm_trace_memory t 0 READ sz OTHER_ACCESS address v;
     trace_reads t accs
   }"

fun read_lines :: "u32 \<Rightarrow> (u32 \<times> u8 \<times> u32) list \<Rightarrow> string" where
  "read_lines a [] = []"
| "read_lines a ((address, sz, v) # accs) = ''M'' @ (if address = a + 4 then ''S'' else ''N'') @ ''R'' @ print_d (uint sz) @ ''___ '' @
     print_08X address @ '' '' @ print_08X v @ newline @ read_lines address accs"

text \<open>
  A read is marked sequential exactly when its address is 4 above that of the access before it, whatever
  the sizes: the bytes of a string are never sequential, and the first access of a run is when it
  happens to be at \<open>0x1234567C\<close>.
\<close>

lemma sequential_reads:
  "traces t MEMORY \<Longrightarrow> \<exists>t'. trace_reads t accs = Some t' \<and> printed t' = printed t @ read_lines (last_address t) accs"
proof (induction "accs" arbitrary: t)
  case (Cons acc accs)
  obtain address sz v where acc: "acc = (address, sz, v)" by (cases acc)
  let ?t = "fprintf (t\<lparr>last_address := address\<rparr>) (''M'' @ (if address = last_address t + 4 then ''S'' else ''N'') @ ''R'' @
    print_d (uint sz) @ ''___ '' @ print_08X address @ '' '' @ print_08X v @ newline)"
  have "arm_trace_memory t 0 READ sz OTHER_ACCESS address v = Some ?t"
    using Cons.prems
    by (simp add: arm_trace_memory_def arm_trace_memory_seq_def arm_trace_memory_cause_def arm_trace_type_def READ_def
        OTHER_ACCESS_def aget_def)
  moreover have "traces ?t MEMORY" using Cons.prems by (simp add: traces_def fprintf_def)
  moreover have "last_address ?t = address" by (simp add: fprintf_def)
  ultimately show ?case using Cons.IH [of ?t] by (auto simp: acc fprintf_def)
qed simp

text \<open>Both lines stay inside the tables of names for what the processor passes to them.\<close>

lemma arm_lines_defined:
  assumes "type < 2" "cause < 2"
  shows "arm_trace_memory t cycle type sz cause address v \<noteq> None"
proof -
  have "unat type < 2" "unat cause < 2" using assms by (simp_all add: word_less_nat_alt)
  then show ?thesis
    by (simp add: arm_trace_memory_def arm_trace_memory_seq_def arm_trace_memory_cause_def arm_trace_type_def aget_def)
qed

end
