(* ===== verification/Spec2Isabelle.thy ===== *)
theory Spec2Isabelle
  imports Gdb_Session Arm_Alu_Facts Flex_Calls Sim_Lock Sim_Servers Sim_Messages Sim_Tests Sim_Trace_Format
begin

text \<open>
  A verification library for an instruction set simulator of the ARM processor that is driven by the
  remote protocol of gdb, and for the program that sends exceptions to it.

  \<^bold>\<open>The program.\<close> \<^verbatim>\<open>arm_simulator\<close> reads its options, creates a memory of 32 KiB, a register file and a
  processor, and starts two threads. One accepts a connection from gdb: the scanner generated from
  \<^verbatim>\<open>scanner.l\<close> cuts the stream into packets, \<^verbatim>\<open>gdb_protocol.c\<close> checks each packet and calls the handler of its
  first character, and the handlers read and write the processor, keep the table of breakpoints and run
  instructions. The other accepts connections from \<^verbatim>\<open>send_irq\<close>; every byte is an exception, raised through
  \<^verbatim>\<open>arm_exception.c\<close>. Both take a mutex. An instruction is fetched, decoded and executed by
  \<^verbatim>\<open>arm_instruction.c\<close> and the files it dispatches to; all accesses go through \<^verbatim>\<open>arm_core.c\<close>, which
  reports them to \<^verbatim>\<open>trace.c\<close>.

  \<^bold>\<open>Conventions.\<close> A C integer is a word of its width, a C \<open>int\<close> that holds a code or a count an \<open>int\<close>. A function that
  may have undefined behaviour (an access outside an array, a null pointer, a shift by the width or
  more, a failed assertion) returns an option, and \<open>None\<close> stands for it; where a function takes fuel,
  \<open>None\<close> also stands for fuel that is used up. A function that may end the program returns \<open>Exit\<close> with the exit status and
  the message, or \<open>Continue\<close> with its result (type \<open>or_exit\<close>, sequenced by \<open>and_then\<close>). Error codes of the program are values. The content of
  uninitialised variables and of allocated memory, and whether an allocation succeeds, are parameters.
  What the program reads from and does to the outside is a parameter as well: a stream of bytes, a
  system call, a byte order; what is assumed of it is stated where it is used.

  \<^bold>\<open>Theories.\<close>

  \<^item> \<open>C_Prelude\<close>, \<open>C_Strings\<close>: the C types and partial operators, the option monad, and the part of the C library
    that works on strings, with the lemmas and simplification rules that the components share.

  \<^item> \<open>Sim_Util\<close>, \<open>Sim_Memory\<close> (\<^verbatim>\<open>util.c\<close>, \<^verbatim>\<open>memory.c\<close>): the memory is its block of bytes and its size. The locale
    \<open>memory_cell\<close> states once what a byte, a half-word and a word access promise; its lemmas (a read after a
    write, disjoint writes) hold for all three.

  \<^item> \<open>Arm_Constants\<close>, \<open>Arm_Registers\<close> (\<^verbatim>\<open>arm_constants.c\<close>, \<^verbatim>\<open>registers.c\<close>): name tables, and the register file as the
    list of its 18 values; the locale \<open>register_file\<close> is what the instructions rely on.

  \<^item> \<open>Arm_Core\<close> (\<^verbatim>\<open>arm_core.c\<close>): the processor as a record of its cycle counter, registers, memory, the list of
    calls of the trace, newest first, and the text put on the console. \<open>core_wf\<close> is its invariant; \<open>kept\<close>, with the
    rules \<open>keeps_rules\<close>, says what every instruction keeps, and \<open>Arm_Logged\<close> follows it through the
    data-processing instructions and branches.

  \<^item> \<open>Arm_Exception\<close>, \<open>Arm_Conditions\<close>, \<open>Arm_Data_Processing\<close>, \<open>Arm_Load_Store\<close>, \<open>Arm_Branch_Other\<close>, \<open>Arm_Instruction\<close>:
    the files of the same names, one definition for each function, with the bugs they have.
    \<open>Arm_Alu_Facts\<close>, \<open>Arm_Shifter_Facts\<close> and \<open>Arm_Load_Store_Facts\<close> compare them with the manual of the processor:
    results, flags, operands, addresses. \<open>runs\<close> is the relation of a number of steps; its invariant is
    proved by rule induction.

  \<^item> \<open>Sim_Trace\<close> (\<^verbatim>\<open>trace.c\<close>, \<^verbatim>\<open>trace_location.h\<close>): what the recorded calls print. The calls that a run makes are well
    typed, so that printing them stays inside the tables, and the text that is printed is exactly \<open>call_text\<close> of each call. \<open>Sim_Trace_Format\<close> has the lines of the other format,
    \<^verbatim>\<open>ARM_TRACE_FORMAT\<close>.

  \<^item> \<open>Sim_Debug\<close>, \<open>Sim_Messages\<close> (\<^verbatim>\<open>debug.c\<close>, \<^verbatim>\<open>debug.h\<close>): the sorted table of the source files whose messages are shown,
    with its bisection, and the message macros.

  \<^item> \<open>Gdb_Breakpoints\<close>, \<open>Gdb_Protocol\<close> (\<^verbatim>\<open>gdb_protocol.c\<close>): the state of the debugger as a record (breakpoints,
    processor, last exception, packet, bytes sent, and which writes to the connection fail) and one definition for each handler. A handler gets
    the memory from its argument on, so it may read on in the buffer of the scanner as the C code does; every reply is a
    \<open>rio_send\<close>, which ends the program when the write fails. \<open>Gdb_Breakpoints\<close> refines
    the table to a set (locale \<open>breakpoint_set\<close>), \<open>Gdb_Protocol_Facts\<close> treats frames, checksums and the command that
    continues, \<open>Gdb_Data\<close> the commands that transfer registers and memory, \<open>Gdb_Invariant\<close> what all handlers
    keep. \<open>Gdb_Session\<close> composes scanner, packets and commands: bytes that arrive on the connection are
    written to the memory and read back from it.

  \<^item> \<open>Gdb_Scanner\<close> (\<^verbatim>\<open>scanner.l\<close> and \<^verbatim>\<open>yylex\<close> in \<^verbatim>\<open>scanner.c\<close>): the actions, the tables, the matching loop, the buffer and
    its refills as a machine that goes from label to label; an action gets the token and what the buffer holds behind
    it, and may write into it (\<open>yy_written\<close>). \<open>Gdb_Scanner_Facts\<close> proves that it carries out the
    rules of \<^verbatim>\<open>scanner.l\<close> on every stream (locale \<open>scanner_input\<close>).

  \<^item> \<open>Flex_Buffers\<close>, \<open>Flex_Facts\<close>, \<open>Flex_Calls\<close> (the rest of \<^verbatim>\<open>scanner.c\<close>): the buffers of the generated scanner in an
    explicit heap, where a pointer is an object and a position and an access to a freed object is undefined.
    \<open>scanner_ok\<close> relates the heap to a list of buffers with their contents; every sequence of calls refines the
    operations on that list.

  \<^item> \<open>Csapp_Rio\<close>, \<open>Csapp_System\<close> (\<^verbatim>\<open>csapp.c\<close>): buffered and unbuffered reading and writing (locales \<open>byte_reader\<close>,
    \<open>buffered_reader\<close>, \<open>byte_writer\<close>), and the wrappers of the system calls, which exit on an error. The kernel is
    a record of functions; \<open>fd_laws\<close> is what is assumed of its descriptors.

  \<^item> \<open>Sim_Program\<close>, \<open>Sim_Servers\<close> (\<^verbatim>\<open>arm_simulator.c\<close>, \<^verbatim>\<open>send_irq.c\<close>): the options, the start, the two threads in any
    interleaving (\<open>sim_step\<close>), the servers at their sockets, and the program that sends an exception.

  \<^item> \<open>Sim_Getopt\<close> (\<^verbatim>\<open>main\<close> of \<^verbatim>\<open>arm_simulator.c\<close>): the command line as words. \<open>getopt_long\<close> is defined as the C library
    documents it, with the tables of the program; \<open>spells\<close> says which words spell which options, and the
    lemmas take them through the loop of \<open>main\<close>.

  \<^item> \<open>Sim_Lock\<close> (the mutex in \<^verbatim>\<open>gdb_protocol.c\<close> and \<^verbatim>\<open>arm_simulator.c\<close>): the two threads with program counters, a step for each
    lock, unlock and turn of the command that continues. \<open>exclusive\<close> is mutual exclusion; \<open>simulates\<close> relates a
    run to a sequence of whole packets and whole exceptions, which justifies the atomic steps of \<open>sim_step\<close>.

  \<^item> \<open>Sim_Tests\<close> (\<^verbatim>\<open>memory_test.c\<close>, \<^verbatim>\<open>registers_test.c\<close>): the two test programs, which pass.

  \<^bold>\<open>Loops.\<close> Loops over data recurse over the data or have a measure: the bisections over the distance of their
  bounds, the search for a name over the numbers that are left. Five loops depend on the outside and take
  fuel. The command that continues: any fuel above the number of the first step that halts gives the state
  at that step. The loops of \<open>Csapp_Rio\<close>: the locales prove that a fuel of two more than the number of bytes and
  interruptions suffices. The scanner: for every stream there is a number of jumps that suffices, and the
  refills need more fuel than there are interruptions. A connection with an exception: more fuel than
  bytes. The loop over such connections does not end in the code; the model cuts it after a number of
  turns.

  \<^bold>\<open>Not modelled.\<close> The scheduling inside a handler other than the command that continues: it is one step, during
  which the other thread could only wait for the mutex. A thread that waits is a thread that does not step; the
  fairness of the scheduler is not modelled. In \<open>main\<close> the two threads are one computation that ends with the
  thread of the debugger. Usage texts and informative messages on the standard error output, the text of \<open>strerror\<close> in the message of a failed write to the
  debugger (and that the signal \<^verbatim>\<open>SIGPIPE\<close> may end the program before that message), the
  messages of \<open>getopt_long\<close> and its behaviour under \<^verbatim>\<open>POSIXLY_CORRECT\<close>. The choice of the file of the trace, the
  trace being the text that is printed. The macros of
  \<^verbatim>\<open>trace_location.h\<close> are taken in the order in which they bracket the access, which C leaves open. In the
  scanner, the failure to enlarge the buffer in the middle of a token, buffers above two gigabytes, and the
  functions \<open>input\<close> and \<open>unput\<close>, which the build does not compile. \<^verbatim>\<open>no_trace_location.h\<close> only undefines macros.
  The functions that release memory only free it.
\<close>

end
